(* ===== verification/Prelude.thy ===== *)
theory Prelude
  imports Main "HOL-Library.Monad_Syntax"
begin

text \<open>
  The base of the development: result types, the time units of Go's package time, the
  collections of simplification rules the component theories add to, and generic lemmas on
  lists, options and association lists that several components use.
\<close>

section \<open>Types\<close>

text \<open>
  A Go string and a Go byte slice are both sequences of bytes, and so is HOL's string.
  A function that returns \<open>(value, error)\<close> returns a sum here: \<open>Inl\<close> the error,
  \<open>Inr\<close> the value.
\<close>

type_synonym bytes = string

abbreviation byte :: "char \<Rightarrow> nat" where
  "byte c \<equiv> of_char c"

text \<open>Instants and durations are integers that count nanoseconds, as time.Duration does.\<close>

type_synonym instant = int
type_synonym duration = int

abbreviation Second :: duration where "Second \<equiv> 1000000000"
abbreviation Minute :: duration where "Minute \<equiv> 60000000000"
abbreviation Hour :: duration where "Hour \<equiv> 3600000000000"

text \<open>Time.Unix: whole seconds, rounded down; time.Unix is its right inverse.\<close>

definition unix_seconds :: "instant \<Rightarrow> int" where
  "unix_seconds t = t div Second"

definition from_unix :: "int \<Rightarrow> instant" where
  "from_unix s = s * Second"

section \<open>Collections of rules\<close>

named_theorems go_simps \<open>equations of the Go library functions\<close>
named_theorems store_simps \<open>equations of the store's statements\<close>
named_theorems frame_simps \<open>what an operation leaves unchanged\<close>

section \<open>Generic lemmas\<close>

lemma unix_seconds_from_unix [simp]: "unix_seconds (from_unix s) = s"
  by (simp add: unix_seconds_def from_unix_def)

lemma from_unix_le_iff: "from_unix a \<le> from_unix b \<longleftrightarrow> a \<le> b"
  by (simp add: from_unix_def)

lemma unix_seconds_bounds:
  "from_unix (unix_seconds t) \<le> t \<and> t < from_unix (unix_seconds t) + Second"
  unfolding unix_seconds_def from_unix_def
  using pos_mod_bound [of Second t] pos_mod_sign [of Second t] div_mult_mod_eq [of t Second]
  by linarith

lemma byte_less_256 [simp]: "byte c < 256"
  by (rule nat_of_char_less_256)

lemma byte_eq_iff [simp]: "byte c = byte d \<longleftrightarrow> c = d"
  by (rule of_char_eq_iff)

lemma take_eq_append_drop: "take (length p) s = p \<longleftrightarrow> (\<exists>r. s = p @ r)"
  by (metis append_take_drop_id append_eq_conv_conj)

lemma map_option_eq_NoneD: "map_option f x = None \<Longrightarrow> x = None"
  by simp

lemma filter_map_id:
  assumes "\<And>x. x \<in> set xs \<Longrightarrow> P (f x) = P x"
  shows "filter P (map f xs) = map f (filter P xs)"
  using assms by (induction xs) auto

lemma length_filter_le_sum:
  "length (filter P (xs @ ys)) = length (filter P xs) + length (filter P ys)"
  by simp

lemma distinct_map_filterI: "distinct (map f xs) \<Longrightarrow> distinct (map f (filter P xs))"
  by (induction xs) auto

lemma find_SomeD: "find P xs = Some x \<Longrightarrow> x \<in> set xs \<and> P x"
  by (auto simp: find_Some_iff)

lemma find_unique:
  assumes "distinct (map k xs)" "x \<in> set xs"
  shows "find (\<lambda>y. k y = k x) xs = Some x"
  using assms by (induction xs) (auto simp: image_iff)

lemma remove1_other_key:
  "distinct (map k xs) \<Longrightarrow> c \<in> set xs \<Longrightarrow> x \<in> set (remove1 c xs) \<Longrightarrow> x \<in> set xs \<and> k x \<noteq> k c"
  by (induction xs) (auto split: if_splits dest: notin_set_remove1 simp: rev_image_eqI)

lemma distinct_map_remove1: "distinct (map k xs) \<Longrightarrow> distinct (map k (remove1 c xs))"
  by (induction xs) (auto dest: set_remove1_subset [THEN subsetD])

end
