(* ===== verification/Go_Strings.thy ===== *)
theory Go_Strings
  imports Prelude
begin

text \<open>
  The part of Go's packages strings, unicode and unicode/utf8 that the program calls, on byte
  strings. A search that Go answers with -1 answers \<open>None\<close> here. Case mapping of code points
  beyond ASCII is a table of the Unicode standard; it is the parameter \<open>unicode\<close>, and every
  result about it holds for every table.
\<close>

section \<open>UTF-8\<close>

definition RuneError :: nat where "RuneError = 65533"

definition cont :: "nat \<Rightarrow> bool" where
  "cont b \<longleftrightarrow> 128 \<le> b \<and> b < 192"

text \<open>
  utf8.DecodeRune: the first code point and its width in bytes; \<open>(RuneError, 1)\<close> on a byte
  that starts no shortest-form encoding of a scalar value.
\<close>

fun decode_rune :: "bytes \<Rightarrow> nat \<times> nat" where
  "decode_rune [] = (RuneError, 0)"
| "decode_rune (c # s) =
     (let b0 = byte c in
      if b0 < 128 then (b0, 1)
      else if 194 \<le> b0 \<and> b0 < 224 then
        (case s of
           c1 # _ \<Rightarrow>
             if cont (byte c1) then ((b0 - 192) * 64 + (byte c1 - 128), 2) else (RuneError, 1)
         | _ \<Rightarrow> (RuneError, 1))
      else if 224 \<le> b0 \<and> b0 < 240 then
        (case s of
           c1 # c2 # _ \<Rightarrow>
             if cont (byte c1) \<and> cont (byte c2)
                \<and> (b0 = 224 \<longrightarrow> 160 \<le> byte c1) \<and> (b0 = 237 \<longrightarrow> byte c1 < 160)
             then ((b0 - 224) * 4096 + (byte c1 - 128) * 64 + (byte c2 - 128), 3)
             else (RuneError, 1)
         | _ \<Rightarrow> (RuneError, 1))
      else if 240 \<le> b0 \<and> b0 < 245 then
        (case s of
           c1 # c2 # c3 # _ \<Rightarrow>
             if cont (byte c1) \<and> cont (byte c2) \<and> cont (byte c3)
                \<and> (b0 = 240 \<longrightarrow> 144 \<le> byte c1) \<and> (b0 = 244 \<longrightarrow> byte c1 < 144)
             then ((b0 - 240) * 262144 + (byte c1 - 128) * 4096
                   + (byte c2 - 128) * 64 + (byte c3 - 128), 4)
             else (RuneError, 1)
         | _ \<Rightarrow> (RuneError, 1))
      else (RuneError, 1))"

text \<open>The code points a \<open>for _, r := range s\<close> loop visits.\<close>

fun runes :: "bytes \<Rightarrow> nat list" where
  "runes [] = []"
| "runes (c # s) =
     fst (decode_rune (c # s)) # runes (drop (snd (decode_rune (c # s)) - 1) s)"

text \<open>utf8.EncodeRune; a surrogate or an out-of-range value is encoded as RuneError.\<close>

definition encode_rune :: "nat \<Rightarrow> bytes" where
  "encode_rune r0 =
     (let r = (if (55296 \<le> r0 \<and> r0 < 57344) \<or> 1114112 \<le> r0 then RuneError else r0) in
      if r < 128 then [char_of r]
      else if r < 2048 then [char_of (192 + r div 64), char_of (128 + r mod 64)]
      else if r < 65536 then
        [char_of (224 + r div 4096), char_of (128 + r div 64 mod 64), char_of (128 + r mod 64)]
      else
        [char_of (240 + r div 262144), char_of (128 + r div 4096 mod 64),
         char_of (128 + r div 64 mod 64), char_of (128 + r mod 64)])"

lemma encode_rune_code [code]:
  "encode_rune r0 =
     (if r0 < 128 then [char_of r0]
      else
      (let r = (if (55296 \<le> r0 \<and> r0 < 57344) \<or> 1114112 \<le> r0 then RuneError else r0) in
      if r < 2048 then [char_of (192 + r div 64), char_of (128 + r mod 64)]
      else if r < 65536 then
        [char_of (224 + r div 4096), char_of (128 + r div 64 mod 64), char_of (128 + r mod 64)]
      else
        [char_of (240 + r div 262144), char_of (128 + r div 4096 mod 64),
         char_of (128 + r div 64 mod 64), char_of (128 + r mod 64)]))"
  by (simp add: encode_rune_def RuneError_def Let_def)

fun valid_utf8 :: "bytes \<Rightarrow> bool" where
  "valid_utf8 [] = True"
| "valid_utf8 (c # s) =
     ((byte c < 128 \<or> snd (decode_rune (c # s)) \<noteq> 1)
      \<and> valid_utf8 (drop (snd (decode_rune (c # s)) - 1) s))"

definition is_ascii :: "bytes \<Rightarrow> bool" where
  "is_ascii s \<longleftrightarrow> list_all (\<lambda>c. byte c < 128) s"

section \<open>Case mapping\<close>

text \<open>unicode.ToLower and unicode.ToUpper on code points from 128 on.\<close>

record unicode =
  uni_lower :: "nat \<Rightarrow> nat"
  uni_upper :: "nat \<Rightarrow> nat"

definition ascii_lower :: "char \<Rightarrow> char" where
  "ascii_lower c = (if 65 \<le> byte c \<and> byte c \<le> 90 then char_of (byte c + 32) else c)"

definition ascii_upper :: "char \<Rightarrow> char" where
  "ascii_upper c = (if 97 \<le> byte c \<and> byte c \<le> 122 then char_of (byte c - 32) else c)"

definition rune_lower :: "('a) unicode_scheme \<Rightarrow> nat \<Rightarrow> nat" where
  "rune_lower U r =
     (if r < 128 then (if 65 \<le> r \<and> r \<le> 90 then r + 32 else r) else uni_lower U r)"

definition rune_upper :: "('a) unicode_scheme \<Rightarrow> nat \<Rightarrow> nat" where
  "rune_upper U r =
     (if r < 128 then (if 97 \<le> r \<and> r \<le> 122 then r - 32 else r) else uni_upper U r)"

text \<open>strings.ToLower and ToUpper: byte-wise on ASCII, rune by rune otherwise.\<close>

definition ToLower :: "('a) unicode_scheme \<Rightarrow> bytes \<Rightarrow> bytes" where
  "ToLower U s =
     (if is_ascii s then map ascii_lower s
      else concat (map (encode_rune \<circ> rune_lower U) (runes s)))"

definition ToUpper :: "('a) unicode_scheme \<Rightarrow> bytes \<Rightarrow> bytes" where
  "ToUpper U s =
     (if is_ascii s then map ascii_upper s
      else concat (map (encode_rune \<circ> rune_upper U) (runes s)))"

section \<open>Prefixes, searches, splits\<close>

definition HasPrefix :: "bytes \<Rightarrow> bytes \<Rightarrow> bool" where
  "HasPrefix s p \<longleftrightarrow> take (length p) s = p"

definition HasSuffix :: "bytes \<Rightarrow> bytes \<Rightarrow> bool" where
  "HasSuffix s p \<longleftrightarrow> length p \<le> length s \<and> drop (length s - length p) s = p"

definition TrimPrefix :: "bytes \<Rightarrow> bytes \<Rightarrow> bytes" where
  "TrimPrefix s p = (if HasPrefix s p then drop (length p) s else s)"

definition TrimSuffix :: "bytes \<Rightarrow> bytes \<Rightarrow> bytes" where
  "TrimSuffix s p = (if HasSuffix s p then take (length s - length p) s else s)"

fun Index :: "bytes \<Rightarrow> bytes \<Rightarrow> nat option" where
  "Index [] sub = (if sub = [] then Some 0 else None)"
| "Index (c # s) sub =
     (if HasPrefix (c # s) sub then Some 0 else map_option Suc (Index s sub))"

definition Contains :: "bytes \<Rightarrow> bytes \<Rightarrow> bool" where
  "Contains s sub \<longleftrightarrow> Index s sub \<noteq> None"

text \<open>strings.IndexAny for a set of ASCII bytes, and LastIndex for a one-byte string.\<close>

fun IndexAny :: "bytes \<Rightarrow> bytes \<Rightarrow> nat option" where
  "IndexAny [] cs = None"
| "IndexAny (c # s) cs = (if c \<in> set cs then Some 0 else map_option Suc (IndexAny s cs))"

definition ContainsAny :: "bytes \<Rightarrow> bytes \<Rightarrow> bool" where
  "ContainsAny s cs \<longleftrightarrow> IndexAny s cs \<noteq> None"

fun LastIndexByte :: "bytes \<Rightarrow> char \<Rightarrow> nat option" where
  "LastIndexByte [] c = None"
| "LastIndexByte (x # s) c =
     (case LastIndexByte s c of
        Some i \<Rightarrow> Some (Suc i)
      | None \<Rightarrow> if x = c then Some 0 else None)"

text \<open>strings.Cut: what precedes and what follows the first separator.\<close>

definition Cut :: "bytes \<Rightarrow> bytes \<Rightarrow> (bytes \<times> bytes) option" where
  "Cut s sep =
     (case Index s sep of
        None \<Rightarrow> None
      | Some i \<Rightarrow> Some (take i s, drop (i + length sep) s))"

text \<open>strings.Split for a one-byte separator, the only form the program uses but one.\<close>

fun SplitByte :: "bytes \<Rightarrow> char \<Rightarrow> bytes list" where
  "SplitByte [] sep = [[]]"
| "SplitByte (c # s) sep =
     (if c = sep then [] # SplitByte s sep
      else (case SplitByte s sep of [] \<Rightarrow> [[c]] | w # ws \<Rightarrow> (c # w) # ws))"

definition Join :: "bytes list \<Rightarrow> bytes \<Rightarrow> bytes" where
  "Join ws sep = concat (case ws of [] \<Rightarrow> [] | w # rest \<Rightarrow> w # map (\<lambda>x. sep @ x) rest)"

section \<open>Decimal numbers\<close>

definition isDigit :: "char \<Rightarrow> bool" where
  "isDigit c \<longleftrightarrow> 48 \<le> byte c \<and> byte c \<le> 57"

text \<open>fmt's verb d and strconv.Itoa.\<close>

fun itoa_nat :: "nat \<Rightarrow> bytes" where
  "itoa_nat n =
     (if n < 10 then [char_of (48 + n)] else itoa_nat (n div 10) @ [char_of (48 + n mod 10)])"

declare itoa_nat.simps [simp del]

definition itoa :: "int \<Rightarrow> bytes" where
  "itoa i = (if i < 0 then CHR ''-'' # itoa_nat (nat (- i)) else itoa_nat (nat i))"

text \<open>The value of a run of digits.\<close>

fun digits_value :: "bytes \<Rightarrow> nat \<Rightarrow> nat" where
  "digits_value [] acc = acc"
| "digits_value (c # s) acc = digits_value s (10 * acc + (byte c - 48))"

text \<open>strconv.ParseInt(s, 10, 64): an optional sign, digits only, and the range of int64.\<close>

definition ParseInt64 :: "bytes \<Rightarrow> int option" where
  "ParseInt64 s =
     (let (neg, ds) = (case s of [] \<Rightarrow> (False, [])
                        | c # r \<Rightarrow> if c = CHR ''-'' then (True, r)
                                 else if c = CHR ''+'' then (False, r) else (False, s));
          v = int (digits_value ds 0)
      in if ds = [] \<or> \<not> list_all isDigit ds then None
         else if \<not> neg \<and> v \<ge> 2 ^ 63 then None
         else if neg \<and> v > 2 ^ 63 then None
         else Some (if neg then - v else v))"

section \<open>White space\<close>

text \<open>
  The width of the white-space code point a string starts with, 0 when there is none. The code
  points are those of Unicode's White_Space property, which unicode.IsSpace answers for:
  U+0009 to U+000D, U+0020, U+0085, U+00A0, U+1680, U+2000 to U+200A, U+2028, U+2029, U+202F,
  U+205F and U+3000, here as their UTF-8 encodings.
\<close>

definition space1 :: "nat \<Rightarrow> bool" where
  "space1 b \<longleftrightarrow> (9 \<le> b \<and> b \<le> 13) \<or> b = 32"

definition space2 :: "nat \<Rightarrow> nat \<Rightarrow> bool" where
  "space2 b0 b1 \<longleftrightarrow> b0 = 194 \<and> (b1 = 133 \<or> b1 = 160)"

definition space3 :: "nat \<Rightarrow> nat \<Rightarrow> nat \<Rightarrow> bool" where
  "space3 b0 b1 b2 \<longleftrightarrow>
     (b0 = 225 \<and> b1 = 154 \<and> b2 = 128)
     \<or> (b0 = 226 \<and> b1 = 128 \<and> ((128 \<le> b2 \<and> b2 \<le> 138) \<or> b2 = 168 \<or> b2 = 169 \<or> b2 = 175))
     \<or> (b0 = 226 \<and> b1 = 129 \<and> b2 = 159)
     \<or> (b0 = 227 \<and> b1 = 128 \<and> b2 = 128)"

fun space_width :: "bytes \<Rightarrow> nat" where
  "space_width [] = 0"
| "space_width [a] = (if space1 (byte a) then 1 else 0)"
| "space_width [a, b] =
     (if space1 (byte a) then 1 else if space2 (byte a) (byte b) then 2 else 0)"
| "space_width (a # b # c # s) =
     (if space1 (byte a) then 1 else if space2 (byte a) (byte b) then 2
      else if space3 (byte a) (byte b) (byte c) then 3 else 0)"

text \<open>The same at the end of a string, read backwards (utf8.DecodeLastRune).\<close>

fun space_width_rev :: "bytes \<Rightarrow> nat" where
  "space_width_rev [] = 0"
| "space_width_rev [a] = (if space1 (byte a) then 1 else 0)"
| "space_width_rev [a, b] =
     (if space1 (byte a) then 1 else if space2 (byte b) (byte a) then 2 else 0)"
| "space_width_rev (a # b # c # s) =
     (if space1 (byte a) then 1 else if space2 (byte b) (byte a) then 2
      else if space3 (byte c) (byte b) (byte a) then 3 else 0)"

fun TrimLeftSpace :: "bytes \<Rightarrow> bytes" where
  "TrimLeftSpace [] = []"
| "TrimLeftSpace (c # s) =
     (if space_width (c # s) = 0 then c # s
      else TrimLeftSpace (drop (space_width (c # s) - 1) s))"

fun TrimRevSpace :: "bytes \<Rightarrow> bytes" where
  "TrimRevSpace [] = []"
| "TrimRevSpace (c # s) =
     (if space_width_rev (c # s) = 0 then c # s
      else TrimRevSpace (drop (space_width_rev (c # s) - 1) s))"

definition TrimSpace :: "bytes \<Rightarrow> bytes" where
  "TrimSpace s = rev (TrimRevSpace (rev (TrimLeftSpace s)))"


section \<open>Lemmas on UTF-8\<close>

text \<open>
  A byte below 128 is always a code point of its own, and no longer encoding holds such a byte
  or decodes to such a code point: scanning code points for ASCII characters is scanning bytes.
\<close>

lemma decode_rune_cases:
  assumes "decode_rune (c # s) = (r, w)"
  shows "(byte c < 128 \<and> r = byte c \<and> w = 1) \<or>
         (128 \<le> byte c \<and> 128 \<le> r \<and> 1 \<le> w \<and> w - 1 \<le> length s
          \<and> (\<forall>x \<in> set (take (w - 1) s). 128 \<le> byte x))"
  using assms
  by (auto simp: Let_def RuneError_def cont_def split: if_splits list.splits)

lemma runes_below_128:
  "(\<exists>r \<in> set (runes s). r < 128 \<and> P r) \<longleftrightarrow> (\<exists>c \<in> set s. byte c < 128 \<and> P (byte c))"
proof (induction s rule: runes.induct)
  case 1
  show ?case by simp
next
  case (2 c s)
  obtain r w where d: "decode_rune (c # s) = (r, w)" by fastforce
  have "(\<exists>x \<in> set s. byte x < 128 \<and> P (byte x)) \<longleftrightarrow>
        (\<exists>x \<in> set (take (w - 1) s). byte x < 128 \<and> P (byte x)) \<or>
        (\<exists>x \<in> set (drop (w - 1) s). byte x < 128 \<and> P (byte x))"
    by (metis (no_types, lifting) UnE UnI1 UnI2 append_take_drop_id set_append)
  with 2 d decode_rune_cases [OF d] show ?case by (fastforce simp del: decode_rune.simps)
qed

lemma runes_ascii: "is_ascii s \<Longrightarrow> runes s = map byte s"
  by (induction s) (auto simp: is_ascii_def)

lemma runes_all_below_128: "list_all (\<lambda>r. r < 128) (runes s) \<longleftrightarrow> is_ascii s"
proof
  show "list_all (\<lambda>r. r < 128) (runes s) \<Longrightarrow> is_ascii s"
  proof (induction s rule: runes.induct)
    case (2 c s)
    obtain r w where d: "decode_rune (c # s) = (r, w)" by fastforce
    with 2 decode_rune_cases [OF d] show ?case
      by (auto simp: is_ascii_def simp del: decode_rune.simps)
  qed (simp add: is_ascii_def)
qed (simp add: runes_ascii is_ascii_def list_all_iff)

lemma valid_utf8_ascii: "is_ascii s \<Longrightarrow> valid_utf8 s"
  by (induction s) (auto simp: is_ascii_def)

lemma is_ascii_simps [simp]:
  "is_ascii []" "is_ascii (c # s) \<longleftrightarrow> byte c < 128 \<and> is_ascii s"
  "is_ascii (s @ t) \<longleftrightarrow> is_ascii s \<and> is_ascii t"
  by (auto simp: is_ascii_def)

lemma is_ascii_subset: "set s \<subseteq> set t \<Longrightarrow> is_ascii t \<Longrightarrow> is_ascii s"
  by (auto simp: is_ascii_def list_all_iff)

lemma is_ascii_rev [simp]: "is_ascii (rev s) = is_ascii s"
  by (simp add: is_ascii_def)

section \<open>Lemmas on searches and splits\<close>

lemma HasPrefix_iff: "HasPrefix s p \<longleftrightarrow> (\<exists>r. s = p @ r)"
  by (simp add: HasPrefix_def take_eq_append_drop)

lemma HasPrefix_append [simp]: "HasPrefix (p @ r) p"
  by (auto simp: HasPrefix_iff)

lemma TrimPrefix_append [simp]: "TrimPrefix (p @ r) p = r"
  by (simp add: TrimPrefix_def)

lemma Index_Some_split:
  "Index s sub = Some i \<Longrightarrow> \<exists>r. s = take i s @ sub @ r \<and> i + length sub \<le> length s"
proof (induction s arbitrary: i)
  case Nil
  then show ?case by (simp split: if_splits)
next
  case (Cons c s)
  show ?case
  proof (cases "HasPrefix (c # s) sub")
    case True
    with Cons.prems obtain r where "c # s = sub @ r" "i = 0"
      by (auto simp: HasPrefix_iff)
    then show ?thesis by (metis append_Nil length_append le_add1 take_0 add_0)
  next
    case False
    with Cons.prems obtain j where "Index s sub = Some j" "i = Suc j" by auto
    with Cons.IH [of j] show ?thesis by auto
  qed
qed

lemma Index_append: "Index (p @ sub @ q) sub \<noteq> None"
proof (induction p)
  case Nil
  show ?case
    using HasPrefix_append [of sub q] by (cases "sub @ q") (auto simp del: HasPrefix_append)
qed auto

text \<open>Index finds the first position, and only what precedes the match decides where it is.\<close>

lemma Index_Some_iff:
  "Index s sub = Some i \<longleftrightarrow>
     i \<le> length s \<and> HasPrefix (drop i s) sub \<and> (\<forall>j < i. \<not> HasPrefix (drop j s) sub)"
proof (induction s arbitrary: i)
  case Nil
  then show ?case by (auto simp: HasPrefix_def)
next
  case (Cons c s)
  show ?case
  proof (cases "HasPrefix (c # s) sub")
    case True
    then show ?thesis by (auto intro: gr0I)
  next
    case False
    with Cons show ?thesis by (cases i) (auto simp: All_less_Suc2)
  qed
qed

lemma HasPrefix_drop_append:
  assumes "j \<le> length p"
  shows "HasPrefix (drop j (p @ sub @ q)) sub \<longleftrightarrow> HasPrefix (drop j (p @ sub)) sub"
proof -
  have "length sub \<le> length (drop j (p @ sub))" using assms by simp
  then have "take (length sub) (drop j (p @ sub) @ q) = take (length sub) (drop j (p @ sub))"
    by simp
  with assms show ?thesis by (simp add: HasPrefix_def)
qed

lemma Index_append_same:
  "Index (p @ sub @ q) sub = Some (length p) \<longleftrightarrow> Index (p @ sub) sub = Some (length p)"
proof -
  have "\<And>j. j < length p \<Longrightarrow>
          HasPrefix (drop j (p @ sub @ q)) sub = HasPrefix (drop j (p @ sub)) sub"
    by (rule HasPrefix_drop_append) simp
  moreover have "HasPrefix (drop (length p) (p @ sub)) sub"
    using HasPrefix_append [of sub "[]"] by simp
  ultimately show ?thesis by (simp add: Index_Some_iff)
qed

lemma Contains_iff: "Contains s sub \<longleftrightarrow> (\<exists>p q. s = p @ sub @ q)"
proof
  assume "Contains s sub"
  then obtain i where "Index s sub = Some i" by (auto simp: Contains_def)
  from Index_Some_split [OF this] show "\<exists>p q. s = p @ sub @ q" by blast
next
  assume "\<exists>p q. s = p @ sub @ q"
  then show "Contains s sub" using Index_append by (auto simp: Contains_def)
qed

lemma Contains_append1: "Contains s sub \<Longrightarrow> Contains (t @ s) sub"
  by (auto simp: Contains_iff) (metis append.assoc)

lemma ContainsAny_iff: "ContainsAny s cs \<longleftrightarrow> set s \<inter> set cs \<noteq> {}"
  by (induction s) (auto simp: ContainsAny_def)

lemma LastIndexByte_None: "LastIndexByte s c = None \<longleftrightarrow> c \<notin> set s"
  by (induction s) (auto split: option.splits)

lemma LastIndexByte_Some:
  "LastIndexByte s c = Some i \<Longrightarrow>
   i < length s \<and> s ! i = c \<and> c \<notin> set (drop (Suc i) s) \<and> s = take i s @ c # drop (Suc i) s"
proof (induction s arbitrary: i)
  case (Cons x s)
  show ?case
  proof (cases "LastIndexByte s c")
    case None
    with Cons.prems show ?thesis by (auto simp: LastIndexByte_None split: if_splits)
  next
    case (Some j)
    with Cons show ?thesis by auto
  qed
qed simp

lemma SplitByte_not_Nil [simp]: "SplitByte s sep \<noteq> []"
  by (induction s) (auto split: list.splits)

lemma SplitByte_no_sep: "sep \<notin> set s \<Longrightarrow> SplitByte s sep = [s]"
  by (induction s) auto

lemma Join_SplitByte: "Join (SplitByte s c) [c] = s"
proof (induction s)
  case (Cons x s)
  have "SplitByte s c \<noteq> []" by (cases s) (auto split: list.splits)
  with Cons show ?case by (cases "SplitByte s c") (auto simp: Join_def)
qed (simp add: Join_def)

lemma SplitByte_append:
  "sep \<notin> set s \<Longrightarrow> SplitByte (s @ sep # t) sep = s # SplitByte t sep"
  by (induction s) auto

lemma Join_simps [simp]:
  "Join [] sep = []" "Join [w] sep = w" "Join (w # v # ws) sep = w @ sep @ Join (v # ws) sep"
  by (simp_all add: Join_def)

lemma Join_Cons: "ws \<noteq> [] \<Longrightarrow> Join (w # ws) sep = w @ sep @ Join ws sep"
  by (cases ws) simp_all

lemma Cut_append:
  assumes "c \<notin> set s"
  shows "Cut (s @ c # t) [c] = Some (s, t)"
proof -
  from assms have "Index (s @ c # t) [c] = Some (length s)"
    by (induction s) (auto simp: HasPrefix_def)
  then show ?thesis by (simp add: Cut_def)
qed

section \<open>Lemmas on white space\<close>

lemma space_width_le: "space_width s \<le> length s"
  by (induction s rule: space_width.induct) auto

lemma set_TrimLeftSpace: "set (TrimLeftSpace s) \<subseteq> set s"
  by (induction s rule: TrimLeftSpace.induct)
     (auto simp del: space_width.simps dest: in_set_dropD)

lemma set_TrimRevSpace: "set (TrimRevSpace s) \<subseteq> set s"
  by (induction s rule: TrimRevSpace.induct)
     (auto simp del: space_width_rev.simps dest: in_set_dropD)

lemma set_TrimSpace: "set (TrimSpace s) \<subseteq> set s"
  using set_TrimLeftSpace [of s] set_TrimRevSpace [of "rev (TrimLeftSpace s)"]
  by (auto simp: TrimSpace_def)

text \<open>A string of visible ASCII characters is already trimmed.\<close>

definition visible :: "char \<Rightarrow> bool" where
  "visible c \<longleftrightarrow> 33 \<le> byte c \<and> byte c \<le> 126"

lemma space_width_visible: "visible c \<Longrightarrow> space_width (c # s) = 0"
  by (cases "c # s" rule: space_width.cases)
     (auto simp: visible_def space1_def space2_def space3_def)

lemma space_width_rev_visible: "visible c \<Longrightarrow> space_width_rev (c # s) = 0"
  by (cases "c # s" rule: space_width_rev.cases)
     (auto simp: visible_def space1_def space2_def space3_def)

lemma TrimLeftSpace_visible: "visible c \<Longrightarrow> TrimLeftSpace (c # s) = c # s"
  by (simp add: space_width_visible del: space_width.simps)

lemma TrimRevSpace_visible: "visible c \<Longrightarrow> TrimRevSpace (c # s) = c # s"
  by (simp add: space_width_rev_visible del: space_width_rev.simps)

lemma TrimSpace_visible:
  assumes "s = [] \<or> visible (hd s) \<and> visible (last s)"
  shows "TrimSpace s = s"
proof (cases s)
  case Nil
  then show ?thesis by (simp add: TrimSpace_def)
next
  case (Cons c t)
  with assms have "visible c" "visible (hd (rev s))" "rev s \<noteq> []"
    by (auto simp: hd_rev hd_append split: if_splits)
  then have "TrimLeftSpace s = s" "TrimRevSpace (rev s) = rev s"
    using Cons TrimLeftSpace_visible TrimRevSpace_visible by (metis list.collapse)+
  then show ?thesis by (simp add: TrimSpace_def)
qed

lemma TrimSpace_Nil [simp]: "TrimSpace [] = []"
  by (simp add: TrimSpace_def)

text \<open>Trimming is idempotent: neither end of a trimmed string is white space.\<close>

lemma space_width_TrimLeftSpace [simp]: "space_width (TrimLeftSpace s) = 0"
  by (induction s rule: TrimLeftSpace.induct) (auto simp del: space_width.simps simp: space_width.simps(1))

lemma space_width_TrimRevSpace [simp]: "space_width_rev (TrimRevSpace s) = 0"
  by (induction s rule: TrimRevSpace.induct) (auto simp del: space_width_rev.simps simp: space_width_rev.simps(1))

lemma TrimLeftSpace_id: "space_width s = 0 \<Longrightarrow> TrimLeftSpace s = s"
  by (cases s) (auto simp del: space_width.simps)

lemma TrimRevSpace_id: "space_width_rev s = 0 \<Longrightarrow> TrimRevSpace s = s"
  by (cases s) (auto simp del: space_width_rev.simps)


lemma space_width_prefix: "space_width (p @ q) = 0 \<Longrightarrow> space_width p = 0"
  by (cases "p @ q" rule: space_width.cases; cases p rule: space_width.cases)
     (auto split: if_splits)

lemma TrimRevSpace_suffix: "\<exists>p. s = p @ TrimRevSpace s"
proof (induction s rule: TrimRevSpace.induct)
  case (2 c s)
  show ?case
  proof (cases "space_width_rev (c # s) = 0")
    case False
    let ?n = "space_width_rev (c # s) - 1"
    from 2 False obtain p where "drop ?n s = p @ TrimRevSpace (drop ?n s)" by auto
    then have "c # s = (c # take ?n s @ p) @ TrimRevSpace (drop ?n s)"
      by (metis append.assoc append_Cons append_take_drop_id)
    moreover from False have "TrimRevSpace (c # s) = TrimRevSpace (drop ?n s)"
      by (simp del: space_width_rev.simps)
    ultimately show ?thesis by metis
  qed auto
qed simp

lemma TrimSpace_idem [simp]: "TrimSpace (TrimSpace s) = TrimSpace s"
proof -
  let ?l = "TrimLeftSpace s" and ?r = "TrimRevSpace (rev (TrimLeftSpace s))"
  obtain p where "rev ?l = p @ ?r" using TrimRevSpace_suffix by blast
  then have "?l = rev ?r @ rev p" by (metis rev_append rev_rev_ident)
  then have "space_width (rev ?r) = 0"
    using space_width_prefix space_width_TrimLeftSpace by metis
  then have "TrimLeftSpace (rev ?r) = rev ?r" by (rule TrimLeftSpace_id)
  moreover have "TrimRevSpace ?r = ?r" by (simp add: TrimRevSpace_id)
  ultimately show ?thesis by (simp add: TrimSpace_def)
qed

section \<open>Lemmas on case mapping\<close>

lemma byte_ascii_lower: "byte (ascii_lower c) = (if 65 \<le> byte c \<and> byte c \<le> 90 then byte c + 32 else byte c)"
  by (simp add: ascii_lower_def)

lemma byte_ascii_upper: "byte (ascii_upper c) = (if 97 \<le> byte c \<and> byte c \<le> 122 then byte c - 32 else byte c)"
  by (auto simp: ascii_upper_def)

lemma ascii_lower_idem [simp]: "ascii_lower (ascii_lower c) = ascii_lower c"
  by (simp add: ascii_lower_def)

lemma ascii_lower_less_128 [simp]: "byte (ascii_lower c) < 128 \<longleftrightarrow> byte c < 128"
  by (auto simp: byte_ascii_lower)

lemma ascii_lower_space:
  "space1 (byte (ascii_lower c)) = space1 (byte c)"
  by (auto simp: byte_ascii_lower space1_def)

lemma is_ascii_map_lower [simp]: "is_ascii (map ascii_lower s) = is_ascii s"
  by (induction s) auto

lemma ToLower_ascii: "is_ascii s \<Longrightarrow> ToLower U s = map ascii_lower s"
  by (simp add: ToLower_def)

lemma ToUpper_ascii: "is_ascii s \<Longrightarrow> ToUpper U s = map ascii_upper s"
  by (simp add: ToUpper_def)

lemma ToLower_ascii_idem: "is_ascii s \<Longrightarrow> ToLower U (ToLower U s) = ToLower U s"
  by (simp add: ToLower_ascii)


section \<open>Lemmas on decimal numbers\<close>

lemma isDigit_char_of [simp]: "(n::nat) < 10 \<Longrightarrow> isDigit (char_of (48 + n))"
  by (simp add: isDigit_def)

lemma itoa_nat_not_Nil [simp]: "itoa_nat n \<noteq> []"
  by (subst itoa_nat.simps) simp

lemma itoa_nat_digits: "list_all isDigit (itoa_nat n)"
proof (induction n rule: itoa_nat.induct)
  case (1 n)
  then show ?case by (subst itoa_nat.simps) (simp add: list_all_iff)
qed

lemma digits_value_append:
  "digits_value (s @ [c]) acc = 10 * digits_value s acc + (byte c - 48)"
  by (induction s acc rule: digits_value.induct) auto

lemma digits_value_itoa [simp]: "digits_value (itoa_nat n) 0 = n"
proof (induction n rule: itoa_nat.induct)
  case (1 n)
  then show ?case
    by (subst itoa_nat.simps) (auto simp: digits_value_append)
qed

lemma digit_not_sign: "isDigit c \<Longrightarrow> c \<noteq> CHR ''-'' \<and> c \<noteq> CHR ''+''"
  by (auto simp: isDigit_def)

lemma ParseInt64_itoa:
  assumes "- (2 ^ 63) \<le> i" "i < 2 ^ 63"
  shows "ParseInt64 (itoa i) = Some i"
proof (cases "i < 0")
  case True
  with assms show ?thesis
    by (simp add: ParseInt64_def itoa_def itoa_nat_digits)
next
  case False
  obtain c r where cr: "itoa_nat (nat i) = c # r"
    using itoa_nat_not_Nil by (metis list.exhaust)
  with itoa_nat_digits [of "nat i"] have "c \<noteq> CHR ''-''" "c \<noteq> CHR ''+''"
    using digit_not_sign by auto
  moreover have "list_all isDigit (c # r)" "digits_value (c # r) 0 = nat i"
    unfolding cr [symmetric] by (rule itoa_nat_digits) simp
  ultimately show ?thesis using False assms
    by (simp add: ParseInt64_def itoa_def cr del: digits_value.simps list.pred_inject)
qed

end
