(* ===== verification/Go_Library.thy ===== *)
theory Go_Library
  imports Go_Strings "HOL-Library.Word"
begin

text \<open>
  The library functions the program calls and whose results the model takes as given: hashes,
  ciphers, the parsers of addresses, URLs and JSON, the formatters of times. Each is a field of
  the record \<open>golib\<close>, an argument of the definitions that use it; nothing is known of a field
  but its type, so a theorem without a hypothesis on it holds for every implementation. A
  theorem that needs a documented law of one of them states the law as a hypothesis.
\<close>

section \<open>Values the library returns\<close>

text \<open>netip.Addr: the zero Addr, an IPv4 address, an IPv6 address with its zone.\<close>

type_synonym u8 = "8 word"

datatype addr = NoAddr | Addr4 u8 u8 u8 u8 | Addr6 "128 word" bytes

text \<open>The fields and methods of url.URL the program reads.\<close>

record url =
  u_scheme :: bytes
  u_host :: bytes
  u_hostname :: bytes
  u_port :: bytes
  u_path :: bytes
  u_query :: "bytes \<Rightarrow> bytes"

section \<open>The library\<close>

record golib = unicode +
  quote :: "bytes \<Rightarrow> bytes"                                  \<comment> \<open>strconv.Quote, fmt's verb q\<close>
  mail_parse :: "bytes \<Rightarrow> (bytes \<times> bytes) option"             \<comment> \<open>net/mail.ParseAddress: Name, Address\<close>
  sha256 :: "bytes \<Rightarrow> bytes"                                 \<comment> \<open>crypto/sha256.Sum256\<close>
  hmac_sha256 :: "bytes \<Rightarrow> bytes \<Rightarrow> bytes"                    \<comment> \<open>crypto/hmac: key, message\<close>
  gcm_seal :: "bytes \<Rightarrow> bytes \<Rightarrow> bytes \<Rightarrow> bytes"              \<comment> \<open>AES-GCM: key, nonce, plaintext\<close>
  gcm_open :: "bytes \<Rightarrow> bytes \<Rightarrow> bytes \<Rightarrow> bytes option"       \<comment> \<open>AES-GCM: key, nonce, body\<close>
  url_parse :: "bytes \<Rightarrow> url option"                          \<comment> \<open>net/url.Parse\<close>
  url_error :: "bytes \<Rightarrow> bytes"                              \<comment> \<open>the text of url.Parse's error\<close>
  url_string :: "bytes \<Rightarrow> url \<Rightarrow> bytes"                       \<comment> \<open>URL.String of the URL parsed from the first argument, its fields as in the second\<close>
  netip_parse :: "bytes \<Rightarrow> addr option"                       \<comment> \<open>net/netip.ParseAddr\<close>
  rfc3339 :: "instant \<Rightarrow> bytes"                              \<comment> \<open>Time.UTC().Format(RFC3339)\<close>
  rfc1123z :: "instant \<Rightarrow> bytes"                             \<comment> \<open>Time.Format(RFC1123Z)\<close>
  parse_rfc3339 :: "bytes \<Rightarrow> instant option"
  json_strings_enc :: "bytes list \<Rightarrow> bytes"                   \<comment> \<open>json.Marshal of []string\<close>
  json_strings_dec :: "bytes \<Rightarrow> bytes list option"
  json_map_enc :: "(bytes \<times> bytes) list \<Rightarrow> bytes"             \<comment> \<open>json.Marshal of map[string]string\<close>
  json_map_dec :: "bytes \<Rightarrow> (bytes \<times> bytes) list option"
  json_event_enc :: "bytes \<Rightarrow> bytes \<Rightarrow> bytes \<Rightarrow> (bytes \<times> bytes) list \<Rightarrow> bytes"  \<comment> \<open>json.Marshal of EventPayload: event_id, type, created_at, data\<close>
  jsonb_in :: "bytes \<Rightarrow> bytes option"                        \<comment> \<open>PostgreSQL's jsonb: the text a jsonb column reads back, None when it refuses the input\<close>


text \<open>
  An instance to evaluate examples with. It is no model of the library: it only shows that the
  hypotheses of the theorems can hold.
\<close>

definition sample_url :: "bytes \<Rightarrow> url option" where
  "sample_url s =
     (case Cut s ''://'' of
        None \<Rightarrow> None
      | Some (scheme, rest) \<Rightarrow>
          (let (host, path) = (case Cut rest ''/'' of None \<Rightarrow> (rest, []) | Some (h, p) \<Rightarrow> (h, ''/'' @ p)) in
           Some \<lparr>u_scheme = scheme, u_host = host, u_hostname = host, u_port = [], u_path = path,
                 u_query = (\<lambda>_. [])\<rparr>))"

definition sample_enc :: "bytes list \<Rightarrow> bytes" where
  "sample_enc rs = CHR ''['' # concat (map (\<lambda>s. concat (map (\<lambda>c. [CHR ''x'', c]) s) @ ''.'') rs)"

fun sample_dec :: "bytes \<Rightarrow> bytes \<Rightarrow> bytes list" where
  "sample_dec (t # c # s) acc =
     (if t = CHR ''.'' then rev acc # sample_dec (c # s) [] else sample_dec s (c # acc))"
| "sample_dec [t] acc = (if t = CHR ''.'' then [rev acc] else [])"
| "sample_dec [] acc = []"

fun sample_pairs :: "bytes list \<Rightarrow> (bytes \<times> bytes) list" where
  "sample_pairs (k # v # rest) = (k, v) # sample_pairs rest"
| "sample_pairs rest = []"

definition sample_lib :: golib where
  "sample_lib =
     \<lparr>uni_lower = (\<lambda>r. r), uni_upper = (\<lambda>r. r),
      quote = (\<lambda>s. [CHR 0x22] @ s @ [CHR 0x22]),
      mail_parse = (\<lambda>s. if CHR ''@'' \<in> set s \<and> CHR ''<'' \<notin> set s then Some ([], s) else None),
      sha256 = (\<lambda>s. s), hmac_sha256 = (\<lambda>k m. k @ m),
      gcm_seal = (\<lambda>k n p. CHR ''T'' # p), gcm_open = (\<lambda>k n b. case b of [] \<Rightarrow> None | t # p \<Rightarrow> if t = CHR ''T'' then Some p else None),
      url_parse = sample_url,
      url_error = (\<lambda>raw. ''invalid url''),
      url_string = (\<lambda>raw u. u_scheme u @ ''://'' @ u_host u @ u_path u),
      netip_parse = (\<lambda>s. None),
      rfc3339 = (\<lambda>t. ''2026-01-01T00:00:00Z''), rfc1123z = (\<lambda>t. ''Thu, 01 Jan 2026 00:00:00 +0000''),
      parse_rfc3339 = (\<lambda>s. None),
      json_strings_enc = sample_enc,
      json_strings_dec = (\<lambda>s. case s of c # r \<Rightarrow> Some (sample_dec r []) | [] \<Rightarrow> None),
      json_map_enc = (\<lambda>m. sample_enc (concat (map (\<lambda>(k, v). [k, v]) m))),
      json_map_dec = (\<lambda>s. case s of c # r \<Rightarrow> Some (sample_pairs (sample_dec r [])) | [] \<Rightarrow> None),
      json_event_enc = (\<lambda>i t c d. i @ t @ c),
      jsonb_in = Some\<rparr>"

lemma sample_dec_stop: "sample_dec (CHR ''.'' # s) acc = rev acc # sample_dec s []"
  by (cases s) auto

lemma sample_dec_string:
  "sample_dec (concat (map (\<lambda>c. [CHR ''x'', c]) s) @ ''.'' @ t) acc = (rev acc @ s) # sample_dec t []"
  by (induction s arbitrary: acc) (simp_all add: sample_dec_stop)

lemma sample_dec_enc:
  "sample_dec (concat (map (\<lambda>s. concat (map (\<lambda>c. [CHR ''x'', c]) s) @ ''.'') rs)) [] = rs"
  by (induction rs) (simp_all add: sample_dec_string [where acc = "[]", simplified])

lemma sample_pairs_flat: "sample_pairs (concat (map (\<lambda>(k, v). [k, v]) m)) = m"
  by (induction m) auto

text \<open>json.Marshal and json.Unmarshal of strings that are UTF-8 are inverse, and no JSON text is empty.\<close>

definition json_strings_law :: "golib \<Rightarrow> bool" where
  "json_strings_law L \<longleftrightarrow>
     (\<forall>rs. list_all valid_utf8 rs \<longrightarrow>
        json_strings_dec L (json_strings_enc L rs) = Some rs \<and> json_strings_enc L rs \<noteq> [])"

lemma json_strings_law_sample: "json_strings_law sample_lib"
  by (simp add: json_strings_law_def sample_lib_def sample_enc_def sample_dec_enc)

end
