(* ===== verification/Mail_Address.thy ===== *)
theory Mail_Address
  imports Go_Library
begin

text \<open>
  Package mail, internal/mail/address.go: what an address, a subject and a custom header must
  look like before they may reach a header of a message.
\<close>

section \<open>Model\<close>

definition MaxRecipients :: nat where "MaxRecipients = 50"

definition MaxSubjectLength :: nat where "MaxSubjectLength = 998"

datatype mail_error =
    ErrControlCharacter
  | ErrHeaderValue bytes            \<comment> \<open>name: a control character in its value\<close>
  | ErrTooManyRecipients
  | ErrNoRecipient
  | ErrInvalidAddress bytes
  | ErrSubjectRequired
  | ErrSubjectTooLong
  | ErrHeaderNameRequired
  | ErrHeaderNotX bytes
  | ErrHeaderNameIllegal bytes
  | ErrHeaderControl bytes

text \<open>The loop of ContainsControl over the code points of a string.\<close>

fun control_loop :: "nat list \<Rightarrow> bool" where
  "control_loop [] = False"
| "control_loop (r # rs) =
     (if r = 9 then control_loop rs
      else if r < 32 \<or> r = 127 then True
      else control_loop rs)"

definition ContainsControl :: "bytes \<Rightarrow> bool" where
  "ContainsControl s = control_loop (runes s)"

definition CleanHeaderValue :: "bytes \<Rightarrow> bytes \<Rightarrow> mail_error + bytes" where
  "CleanHeaderValue name value =
     (if ContainsControl value then Inl (ErrHeaderValue name) else Inr (TrimSpace value))"

record address =
  a_name :: bytes
  a_email :: bytes
  a_domain :: bytes

definition addrSpec :: "bytes \<Rightarrow> bytes" where
  "addrSpec raw =
     (let trimmed = TrimSpace raw in
      case LastIndexByte trimmed CHR ''<'' of
        None \<Rightarrow> trimmed
      | Some open' \<Rightarrow>
          (case LastIndexByte trimmed CHR ''>'' of
             None \<Rightarrow> trimmed
           | Some close \<Rightarrow>
               if close > open' then take (close - (open' + 1)) (drop (open' + 1) trimmed)
               else trimmed))"

definition ParseAddress :: "golib \<Rightarrow> bytes \<Rightarrow> mail_error + address" where
  "ParseAddress L raw =
     (if ContainsControl raw then Inl ErrControlCharacter
      else if ContainsAny (addrSpec raw) [CHR '' '', CHR 0x09] then Inl (ErrInvalidAddress raw)
      else case mail_parse L (TrimSpace raw) of
        None \<Rightarrow> Inl (ErrInvalidAddress raw)
      | Some (name, email) \<Rightarrow>
          (case LastIndexByte email CHR ''@'' of
             None \<Rightarrow> Inl (ErrInvalidAddress raw)
           | Some at \<Rightarrow>
               if at = 0 \<or> at = length email - 1 then Inl (ErrInvalidAddress raw)
               else
                 let domain = ToLower L (drop (at + 1) email) in
                 if ContainsAny domain [CHR '' '', CHR 0x09] then Inl (ErrInvalidAddress raw)
                 else Inr \<lparr>a_name = name, a_email = email, a_domain = domain\<rparr>))"

text \<open>The loop of ParseRecipients: \<open>seen\<close> and \<open>out\<close> are its variables.\<close>

fun recipients_loop ::
  "golib \<Rightarrow> bytes list \<Rightarrow> bytes set \<Rightarrow> bytes list \<Rightarrow> mail_error + bytes list" where
  "recipients_loop L [] seen out = Inr out"
| "recipients_loop L (r # rs) seen out =
     (case ParseAddress L r of
        Inl e \<Rightarrow> Inl e
      | Inr addr \<Rightarrow>
          let lowered = ToLower L (a_email addr) in
          if lowered \<in> seen then recipients_loop L rs seen out
          else recipients_loop L rs (insert lowered seen) (out @ [a_email addr]))"

definition ParseRecipients :: "golib \<Rightarrow> bytes list \<Rightarrow> mail_error + bytes list" where
  "ParseRecipients L raw =
     (if raw = [] then Inl ErrNoRecipient
      else if length raw > MaxRecipients then Inl ErrTooManyRecipients
      else recipients_loop L raw {} [])"

text \<open>A function that only returns an error returns \<open>None\<close> for nil.\<close>

definition ValidateSubject :: "bytes \<Rightarrow> mail_error option" where
  "ValidateSubject s =
     (if TrimSpace s = [] then Some ErrSubjectRequired
      else if ContainsControl s then Some ErrControlCharacter
      else if length (runes s) > MaxSubjectLength then Some ErrSubjectTooLong
      else None)"

definition ValidateCustomHeader :: "golib \<Rightarrow> bytes \<Rightarrow> bytes \<Rightarrow> mail_error option" where
  "ValidateCustomHeader L name value =
     (if name = [] then Some ErrHeaderNameRequired
      else if \<not> HasPrefix (ToUpper L name) ''X-'' then Some (ErrHeaderNotX name)
      else if list_ex (\<lambda>r. r > 127 \<or> r \<le> 32 \<or> r = 58) (runes name)
        then Some (ErrHeaderNameIllegal name)
      else if ContainsControl value then Some (ErrHeaderControl name)
      else None)"

text \<open>The messages of the errors, as the callers that format them see them.\<close>

definition mail_error_text :: "golib \<Rightarrow> mail_error \<Rightarrow> bytes" where
  "mail_error_text L e =
     (case e of
        ErrControlCharacter \<Rightarrow> ''value contains a control character''
      | ErrHeaderValue n \<Rightarrow> n @ '': value contains a control character''
      | ErrTooManyRecipients \<Rightarrow> ''a message may not exceed 50 recipients''
      | ErrNoRecipient \<Rightarrow> ''at least one recipient is required''
      | ErrInvalidAddress raw \<Rightarrow> quote L raw @ '' is not a valid address''
      | ErrSubjectRequired \<Rightarrow> ''subject is required''
      | ErrSubjectTooLong \<Rightarrow> ''subject may not exceed 998 characters''
      | ErrHeaderNameRequired \<Rightarrow> ''header name is required''
      | ErrHeaderNotX n \<Rightarrow> ''custom header '' @ quote L n @ '' must start with X-''
      | ErrHeaderNameIllegal n \<Rightarrow> ''header name '' @ quote L n @ '' contains an illegal character''
      | ErrHeaderControl n \<Rightarrow> ''header '' @ quote L n @ '': value contains a control character'')"

text \<open>
  What ParseRecipients is for: the addresses in the order they first appear, one for each
  lower-cased form.
\<close>

fun first_by :: "('a \<Rightarrow> 'b) \<Rightarrow> 'a list \<Rightarrow> 'a list" where
  "first_by key [] = []"
| "first_by key (x # xs) = x # first_by key (filter (\<lambda>y. key y \<noteq> key x) xs)"

section \<open>Control characters\<close>

definition control_byte :: "char \<Rightarrow> bool" where
  "control_byte c \<longleftrightarrow> byte c \<noteq> 9 \<and> (byte c < 32 \<or> byte c = 127)"

lemma control_loop_iff: "control_loop rs \<longleftrightarrow> (\<exists>r \<in> set rs. r \<noteq> 9 \<and> (r < 32 \<or> r = 127))"
  by (induction rs) auto

lemma ContainsControl_iff: "ContainsControl s \<longleftrightarrow> (\<exists>c \<in> set s. control_byte c)"
proof -
  have "ContainsControl s \<longleftrightarrow>
        (\<exists>r \<in> set (runes s). r < 128 \<and> r \<noteq> 9 \<and> (r < 32 \<or> r = 127))"
    unfolding ContainsControl_def control_loop_iff by (rule bex_cong) auto
  also have "\<dots> \<longleftrightarrow> (\<exists>c \<in> set s. byte c < 128 \<and> byte c \<noteq> 9 \<and> (byte c < 32 \<or> byte c = 127))"
    by (rule runes_below_128)
  also have "\<dots> \<longleftrightarrow> (\<exists>c \<in> set s. control_byte c)"
    unfolding control_byte_def by (rule bex_cong) auto
  finally show ?thesis .
qed

lemma ContainsControl_simps [simp]:
  "\<not> ContainsControl []"
  "ContainsControl (c # s) \<longleftrightarrow> control_byte c \<or> ContainsControl s"
  "ContainsControl (s @ t) \<longleftrightarrow> ContainsControl s \<or> ContainsControl t"
  by (auto simp: ContainsControl_iff)

lemma not_control_no_crlf:
  "\<not> ContainsControl s \<Longrightarrow> CHR 0x0D \<notin> set s \<and> CHR 0x0A \<notin> set s"
  by (auto simp: ContainsControl_iff control_byte_def)

lemma ContainsControl_subset: "set s \<subseteq> set t \<Longrightarrow> ContainsControl s \<Longrightarrow> ContainsControl t"
  by (auto simp: ContainsControl_iff)

section \<open>Recipients\<close>

lemma recipients_loop_iff:
  "recipients_loop L rs seen out = Inr out' \<longleftrightarrow>
     (\<exists>as. list_all2 (\<lambda>r a. ParseAddress L r = Inr a) rs as
       \<and> out' = out @ first_by (ToLower L) (filter (\<lambda>e. ToLower L e \<notin> seen) (map a_email as)))"
proof (induction rs arbitrary: seen out)
  case (Cons r rs)
  show ?case
  proof (cases "ParseAddress L r")
    case (Inr a)
    let ?k = "ToLower L (a_email a)"
    have "filter (\<lambda>e. ToLower L e \<notin> insert ?k seen) es =
          filter (\<lambda>y. ToLower L y \<noteq> ?k) (filter (\<lambda>e. ToLower L e \<notin> seen) es)" for es
      by (auto intro: filter_cong)
    with Inr Cons show ?thesis
      by (auto simp: Let_def list_all2_Cons1)
  qed (simp add: list_all2_Cons1)
qed auto

lemma set_first_by: "key ` set (first_by key xs) = key ` set xs" "set (first_by key xs) \<subseteq> set xs"
  by (induction key xs rule: first_by.induct) auto

lemma distinct_first_by: "distinct (map key (first_by key xs))"
proof (induction key xs rule: first_by.induct)
  case (2 key x xs)
  then show ?case using set_first_by(2) [of key "filter (\<lambda>y. key y \<noteq> key x) xs"] by auto
qed simp

lemma length_first_by: "length (first_by key xs) \<le> length xs"
proof (induction key xs rule: first_by.induct)
  case (2 key x xs)
  then have "length (first_by key (filter (\<lambda>y. key y \<noteq> key x) xs)) \<le> length xs"
    by (rule le_trans) (rule length_filter_le)
  then show ?case by simp
qed simp

lemma first_by_eq_Nil [simp]: "first_by key xs = [] \<longleftrightarrow> xs = []"
  by (cases xs) auto

lemma ParseAddress_InrD:
  assumes "ParseAddress L raw = Inr a"
  obtains at where "LastIndexByte (a_email a) CHR ''@'' = Some at" "0 < at"
    "at + 1 < length (a_email a)" "a_domain a = ToLower L (drop (at + 1) (a_email a))"
    "\<not> ContainsControl raw"
proof -
  from assms obtain name email at where
    a: "LastIndexByte email CHR ''@'' = Some at" "at \<noteq> 0" "at \<noteq> length email - 1"
       "a = \<lparr>a_name = name, a_email = email, a_domain = ToLower L (drop (at + 1) email)\<rparr>"
       "\<not> ContainsControl raw"
    by (auto simp: ParseAddress_def Let_def split: if_splits option.splits)
  moreover from a(1) have "at < length email" by (auto dest: LastIndexByte_Some)
  ultimately show thesis by (intro that [of at]) auto
qed

section \<open>Custom headers\<close>

lemma ValidateCustomHeader_NoneD:
  assumes "ValidateCustomHeader L name value = None"
  shows "list_all (\<lambda>c. 33 \<le> byte c \<and> byte c \<le> 127 \<and> c \<noteq> CHR '':'') name"
    and "\<exists>rest. name = ''X-'' @ rest \<or> name = ''x-'' @ rest"
    and "\<not> ContainsControl value"
proof -
  from assms have n: "name \<noteq> []" and p: "HasPrefix (ToUpper L name) ''X-''"
    and r: "\<not> list_ex (\<lambda>r. r > 127 \<or> r \<le> 32 \<or> r = 58) (runes name)"
    by (auto simp: ValidateCustomHeader_def split: if_splits)
  show "\<not> ContainsControl value"
    using assms by (auto simp: ValidateCustomHeader_def split: if_splits)
  from r have asc: "is_ascii name"
    by (auto simp: runes_all_below_128 [symmetric] list_all_iff list_ex_iff not_less)
  with r have "list_all (\<lambda>c. \<not> (byte c > 127 \<or> byte c \<le> 32 \<or> byte c = 58)) name"
    by (simp add: runes_ascii list_ex_iff list_all_iff)
  then show "list_all (\<lambda>c. 33 \<le> byte c \<and> byte c \<le> 127 \<and> c \<noteq> CHR '':'') name"
    by (rule list.pred_mono_strong) auto
  from p asc obtain rest where u: "map ascii_upper name = ''X-'' @ rest"
    by (auto simp: ToUpper_ascii HasPrefix_iff)
  then obtain a b t where nm: "name = a # b # t" "ascii_upper a = CHR ''X''" "ascii_upper b = CHR ''-''"
    by (auto simp: map_eq_Cons_conv)
  then have "byte (ascii_upper a) = 88" "byte (ascii_upper b) = 45" by simp_all
  then have "byte a = 88 \<or> byte a = 120" "byte b = 45"
    by (auto simp: byte_ascii_upper split: if_splits)
  then have "a = CHR ''X'' \<or> a = CHR ''x''" "b = CHR ''-''"
    using byte_eq_iff [of a "CHR ''X''"] byte_eq_iff [of a "CHR ''x''"] byte_eq_iff [of b "CHR ''-''"]
    by auto
  with nm show "\<exists>rest. name = ''X-'' @ rest \<or> name = ''x-'' @ rest" by auto
qed

section \<open>Properties\<close>

text \<open>
  ContainsControl, which walks the code points of a string, finds exactly the strings that
  hold a control byte (0x00 to 0x1f other than tab, or 0x7f), well-formed UTF-8 or not; so a
  value it lets through holds no carriage return and no line feed, however it is encoded.
\<close>

theorem contains_control_is_bytewise:
  "(ContainsControl s \<longleftrightarrow> (\<exists>c \<in> set s. byte c \<noteq> 9 \<and> (byte c < 32 \<or> byte c = 127)))
   \<and> (CHR 0x0D \<in> set s \<or> CHR 0x0A \<in> set s \<longrightarrow> ContainsControl s)"
  using not_control_no_crlf [of s] by (auto simp: ContainsControl_iff control_byte_def)

text \<open>
  ParseRecipients succeeds exactly on 1 to 50 entries that all parse, and then returns their
  addresses in order, the first of each lower-cased form only.
\<close>

theorem ParseRecipients_spec:
  "ParseRecipients L raw = Inr out \<longleftrightarrow>
     raw \<noteq> [] \<and> length raw \<le> 50
     \<and> (\<exists>as. list_all2 (\<lambda>r a. ParseAddress L r = Inr a) raw as
           \<and> out = first_by (ToLower L) (map a_email as))"
  by (simp add: ParseRecipients_def MaxRecipients_def recipients_loop_iff)

lemma ParseRecipients_bounds:
  assumes "ParseRecipients L raw = Inr out"
  shows "out \<noteq> []" "length out \<le> 50" "distinct (map (ToLower L) out)"
proof -
  from assms obtain as where as: "raw \<noteq> []" "length raw \<le> 50"
    "list_all2 (\<lambda>r a. ParseAddress L r = Inr a) raw as" "out = first_by (ToLower L) (map a_email as)"
    by (auto simp: ParseRecipients_def MaxRecipients_def recipients_loop_iff split: if_splits)
  then have "length as = length raw" by (auto dest: list_all2_lengthD)
  with as length_first_by [of "ToLower L" "map a_email as"] show "out \<noteq> []" "length out \<le> 50"
    by auto
  from as show "distinct (map (ToLower L) out)" by (simp add: distinct_first_by)
qed

end
