(* ===== verification/Mime.thy ===== *)
theory Mime
  imports Go_Strings
begin

text \<open>
  What package mail takes from Go's mime packages: quotedPrintable of internal/mail/build.go and
  qp.go with the writer of mime/quotedprintable behind it, and mime.QEncoding for the subject.
  Both are shown to be read back by a decoder, with the line and word lengths the formats ask for.
\<close>

definition crlf :: bytes where "crlf = [CHR 0x0D, CHR 0x0A]"

definition upperhex :: "nat \<Rightarrow> char" where
  "upperhex n = ''0123456789ABCDEF'' ! n"

text \<open>An escaped byte: the sign and two hexadecimal digits.\<close>

definition hex_escape :: "char \<Rightarrow> bytes" where
  "hex_escape b = [CHR ''='', upperhex (byte b div 16), upperhex (byte b mod 16)]"

definition isWhitespace :: "char \<Rightarrow> bool" where
  "isWhitespace b \<longleftrightarrow> b = CHR '' '' \<or> b = CHR 0x09"

section \<open>mime/quotedprintable\<close>

definition lineMaxLen :: nat where "lineMaxLen = 76"

text \<open>quotedprintable.Writer: \<open>qp_out\<close> is what it has flushed, \<open>qp_line\<close> the buffered line.\<close>

record qp_writer =
  qp_out :: bytes
  qp_line :: bytes
  qp_cr :: bool

definition newQPWriter :: qp_writer where
  "newQPWriter = \<lparr>qp_out = [], qp_line = [], qp_cr = False\<rparr>"

definition qp_flush :: "qp_writer \<Rightarrow> qp_writer" where
  "qp_flush w = w\<lparr>qp_out := qp_out w @ qp_line w, qp_line := []\<rparr>"

definition insertCRLF :: "qp_writer \<Rightarrow> qp_writer" where
  "insertCRLF w = qp_flush (w\<lparr>qp_line := qp_line w @ crlf\<rparr>)"

definition insertSoftLineBreak :: "qp_writer \<Rightarrow> qp_writer" where
  "insertSoftLineBreak w = insertCRLF (w\<lparr>qp_line := qp_line w @ ''=''\<rparr>)"

definition qp_encode :: "char \<Rightarrow> qp_writer \<Rightarrow> qp_writer" where
  "qp_encode b w =
     (let w1 = (if lineMaxLen - 1 < length (qp_line w) + 3 then insertSoftLineBreak w else w) in
      w1\<lparr>qp_line := qp_line w1 @ hex_escape b\<rparr>)"

definition checkLastByte :: "qp_writer \<Rightarrow> qp_writer" where
  "checkLastByte w =
     (if qp_line w = [] then w
      else if isWhitespace (last (qp_line w))
      then qp_encode (last (qp_line w)) (w\<lparr>qp_line := butlast (qp_line w)\<rparr>)
      else w)"

text \<open>One byte of the method write.\<close>

definition qp_write :: "char \<Rightarrow> qp_writer \<Rightarrow> qp_writer" where
  "qp_write b w =
     (if b = CHR 0x0A \<and> qp_cr w then w\<lparr>qp_cr := False\<rparr>
      else if b = CHR 0x0A then insertCRLF (checkLastByte w)
      else if b = CHR 0x0D then (insertCRLF (checkLastByte w))\<lparr>qp_cr := True\<rparr>
      else
        let w1 = (if length (qp_line w) = lineMaxLen - 1 then insertSoftLineBreak w else w) in
        w1\<lparr>qp_line := qp_line w1 @ [b], qp_cr := False\<rparr>)"

text \<open>The bytes Write hands to write: printable ones but the escape sign, white space and breaks.\<close>

definition written_as_is :: "char \<Rightarrow> bool" where
  "written_as_is b \<longleftrightarrow>
     33 \<le> byte b \<and> byte b \<le> 126 \<and> b \<noteq> CHR ''='' \<or> isWhitespace b \<or> b = CHR 0x0A \<or> b = CHR 0x0D"

definition qp_Write :: "bytes \<Rightarrow> qp_writer \<Rightarrow> qp_writer" where
  "qp_Write p = fold (\<lambda>b. if written_as_is b then qp_write b else qp_encode b) p"

definition qp_Close :: "qp_writer \<Rightarrow> qp_writer" where
  "qp_Close w = qp_flush (checkLastByte w)"

definition quotedPrintable :: "bytes \<Rightarrow> bytes" where
  "quotedPrintable s = qp_out (qp_Close (qp_Write s newQPWriter))"

section \<open>mime.QEncoding\<close>

definition needsEncoding :: "bytes \<Rightarrow> bool" where
  "needsEncoding s \<longleftrightarrow> list_ex (\<lambda>b. (b < 32 \<or> 126 < b) \<and> b \<noteq> 9) (runes s)"

definition q_plain :: "char \<Rightarrow> bool" where
  "q_plain b \<longleftrightarrow> 32 \<le> byte b \<and> byte b \<le> 126 \<and> b \<noteq> CHR ''='' \<and> b \<noteq> CHR ''?'' \<and> b \<noteq> CHR ''_''"

definition q_byte :: "char \<Rightarrow> bytes" where
  "q_byte b = (if b = CHR '' '' then ''_'' else if q_plain b then [b] else hex_escape b)"

definition writeQString :: "bytes \<Rightarrow> bytes" where
  "writeQString s = concat (map q_byte s)"

definition openWord :: bytes where "openWord = ''=?utf-8?q?''"
definition closeWord :: bytes where "closeWord = ''?=''"

text \<open>75 characters less the ends of an encoded word.\<close>

definition maxContentLen :: nat where "maxContentLen = 63"

text \<open>The character at the head of \<open>s\<close>: how many bytes it takes, and how many when encoded.\<close>

definition q_lengths :: "bytes \<Rightarrow> nat \<times> nat" where
  "q_lengths s =
     (if q_plain (hd s) then (1, 1)
      else let runeLen = snd (decode_rune s) in (runeLen, 3 * runeLen))"

fun qEncode :: "nat \<Rightarrow> bytes \<Rightarrow> bytes" where
  "qEncode currentLen [] = []"
| "qEncode currentLen (b # s) =
     (let (runeLen, encLen) = q_lengths (b # s);
          split = maxContentLen < currentLen + encLen in
      (if split then closeWord @ '' '' @ openWord else [])
      @ writeQString (take runeLen (b # s))
      @ qEncode ((if split then 0 else currentLen) + encLen) (drop (runeLen - 1) s))"

definition QEncode :: "bytes \<Rightarrow> bytes" where
  "QEncode s = (if needsEncoding s then openWord @ qEncode 0 s @ closeWord else s)"

section \<open>Reading quoted-printable\<close>

text \<open>RFC 2045: an escape stands for its byte, an escape sign at the end of a line for nothing.\<close>

definition unhex :: "char \<Rightarrow> nat option" where
  "unhex c = List.find (\<lambda>n. upperhex n = c) [0..<16]"

fun qp_decode :: "bytes \<Rightarrow> bytes option" where
  "qp_decode [] = Some []"
| "qp_decode (c # s) =
     (if c \<noteq> CHR ''='' then map_option ((#) c) (qp_decode s)
      else case s of
        h # l # rest \<Rightarrow>
          if [h, l] = crlf then qp_decode rest
          else (case (unhex h, unhex l) of
                  (Some x, Some y) \<Rightarrow> map_option ((#) (char_of (16 * x + y))) (qp_decode rest)
                | _ \<Rightarrow> None)
      | _ \<Rightarrow> None)"

text \<open>
  Every line break of a text as CRLF, for the texts in which CR stands only before LF.
\<close>

definition line_breaks :: "bytes \<Rightarrow> bytes" where
  "line_breaks s = concat (map (\<lambda>c. if c = CHR 0x0A then crlf else if c = CHR 0x0D then [] else [c]) s)"

fun bare_cr :: "bytes \<Rightarrow> bool" where
  "bare_cr [] = False"
| "bare_cr (c # s) = ((c = CHR 0x0D \<and> (s = [] \<or> hd s \<noteq> CHR 0x0A)) \<or> bare_cr s)"

text \<open>A line of the encoding: at most 76 characters, all printable, and no white space at the end.\<close>

definition printable :: "char \<Rightarrow> bool" where
  "printable c \<longleftrightarrow> 32 \<le> byte c \<and> byte c \<le> 126 \<or> c = CHR 0x09"

definition line_ok :: "bytes \<Rightarrow> bool" where
  "line_ok l \<longleftrightarrow> length l \<le> lineMaxLen \<and> list_all printable l \<and> (l \<noteq> [] \<longrightarrow> \<not> isWhitespace (last l))"

text \<open>What encodes what, one unit after the other.\<close>

inductive qp_codes :: "bytes \<Rightarrow> bytes \<Rightarrow> bool" where
  empty: "qp_codes [] []"
| plain: "qp_codes x t \<Longrightarrow> c \<noteq> CHR ''='' \<Longrightarrow> qp_codes (x @ [c]) (t @ [c])"
| escape: "qp_codes x t \<Longrightarrow> qp_codes (x @ hex_escape b) (t @ [b])"
| soft: "qp_codes x t \<Longrightarrow> qp_codes (x @ ''='' @ crlf) t"

lemma upperhex_props: "n < 16 \<Longrightarrow> unhex (upperhex n) = Some n \<and> printable (upperhex n) \<and> \<not> isWhitespace (upperhex n)
    \<and> upperhex n \<noteq> CHR ''=''"
proof -
  have "list_all (\<lambda>n. unhex (upperhex n) = Some n \<and> printable (upperhex n) \<and> \<not> isWhitespace (upperhex n)
    \<and> upperhex n \<noteq> CHR ''='') [0..<16]" by code_simp
  then show "n < 16 \<Longrightarrow> ?thesis" by (simp add: list_all_iff)
qed

lemma byte_parts [simp]: "byte b div 16 < 16" "byte b mod 16 < 16"
  using byte_less_256 [of b] by (simp_all add: less_mult_imp_div_less)

lemma unhex_crlf: "n < 16 \<Longrightarrow> upperhex n \<noteq> CHR 0x0D"
  using upperhex_props [of n] by (auto simp: printable_def)

lemma byte_join: "char_of (16 * (byte b div 16) + byte b mod 16) = b"
  by simp

lemma qp_decode_escape [simp]: "qp_decode (hex_escape b @ y) = map_option ((#) b) (qp_decode y)"
  by (simp add: hex_escape_def crlf_def upperhex_props unhex_crlf)

lemma qp_decode_codes: "qp_codes x t \<Longrightarrow> qp_decode (x @ y) = map_option ((@) t) (qp_decode y)"
proof (induction arbitrary: y rule: qp_codes.induct)
  case empty show ?case by (simp add: option.map_ident)
next
  case (plain x t c) then show ?case by (simp add: option.map_comp comp_def)
next
  case (escape x t b) then show ?case by (simp add: option.map_comp comp_def)
next
  case (soft x t) then show ?case by (simp add: crlf_def)
qed

lemma qp_codes_butlast:
  assumes "qp_codes (x @ [b]) t" "isWhitespace b"
  obtains t' where "t = t' @ [b]" "qp_codes x t'"
  using assms(1)
proof (cases rule: qp_codes.cases)
  case (escape y s c)
  then have "b = upperhex (byte c mod 16)" by (auto simp: hex_escape_def)
  then show ?thesis using upperhex_props [of "byte c mod 16"] assms(2) by simp
qed (use assms(2) that in \<open>auto simp: crlf_def isWhitespace_def\<close>)

section \<open>The writer\<close>

definition qp_state :: "qp_writer \<Rightarrow> bytes \<Rightarrow> bool" where
  "qp_state w t \<longleftrightarrow> qp_codes (qp_out w @ qp_line w) t
     \<and> (\<exists>ls. qp_out w = concat (map (\<lambda>l. l @ crlf) ls) \<and> list_all line_ok ls)
     \<and> length (qp_line w) < lineMaxLen \<and> list_all printable (qp_line w)"

definition no_space_left :: "qp_writer \<Rightarrow> bool" where
  "no_space_left w \<longleftrightarrow> (qp_line w \<noteq> [] \<longrightarrow> \<not> isWhitespace (last (qp_line w)))"

lemma out_lines:
  assumes "out = concat (map (\<lambda>l. l @ crlf) ls)" "list_all line_ok ls" "line_ok l"
  shows "\<exists>ls. out @ l @ crlf = concat (map (\<lambda>l. l @ crlf) ls) \<and> list_all line_ok ls"
  using assms by (intro exI [of _ "ls @ [l]"]) simp

lemma insertCRLF_state:
  assumes "qp_state w t" "no_space_left w"
  shows "qp_state (insertCRLF w) (t @ crlf) \<and> qp_cr (insertCRLF w) = qp_cr w"
proof -
  have "qp_codes (((qp_out w @ qp_line w) @ [CHR 0x0D]) @ [CHR 0x0A]) ((t @ [CHR 0x0D]) @ [CHR 0x0A])"
    using assms(1) by (intro qp_codes.plain) (auto simp: qp_state_def)
  moreover have "line_ok (qp_line w)"
    using assms by (auto simp: qp_state_def no_space_left_def line_ok_def)
  ultimately show ?thesis
    using assms(1) out_lines by (auto simp: qp_state_def insertCRLF_def qp_flush_def crlf_def [symmetric] lineMaxLen_def)
qed

lemma insertSoftLineBreak_state:
  assumes "qp_state w t"
  shows "qp_state (insertSoftLineBreak w) t \<and> qp_line (insertSoftLineBreak w) = []
    \<and> qp_cr (insertSoftLineBreak w) = qp_cr w"
proof -
  have "qp_codes ((qp_out w @ qp_line w) @ ''='' @ crlf) t"
    using assms by (intro qp_codes.soft) (auto simp: qp_state_def)
  moreover have "line_ok (qp_line w @ ''='')"
    using assms by (auto simp: qp_state_def line_ok_def isWhitespace_def printable_def)
  ultimately show ?thesis
    using assms out_lines [of "qp_out w" _ "qp_line w @ ''=''"]
    by (auto simp: qp_state_def insertSoftLineBreak_def insertCRLF_def qp_flush_def lineMaxLen_def)
qed

lemma escape_printable: "list_all printable (hex_escape b)" "\<not> isWhitespace (last (hex_escape b))" "length (hex_escape b) = 3"
    "hex_escape b \<noteq> []"
  using upperhex_props [of "byte b div 16"] upperhex_props [of "byte b mod 16"]
  by (simp_all add: hex_escape_def printable_def)

lemma qp_encode_state:
  assumes "qp_state w t"
  shows "qp_state (qp_encode b w) (t @ [b]) \<and> no_space_left (qp_encode b w) \<and> qp_cr (qp_encode b w) = qp_cr w"
proof -
  define w1 where "w1 = (if lineMaxLen - 1 < length (qp_line w) + 3 then insertSoftLineBreak w else w)"
  have w1: "qp_state w1 t" "length (qp_line w1) + 3 < lineMaxLen" "qp_cr w1 = qp_cr w"
    using assms insertSoftLineBreak_state [OF assms] by (auto simp: w1_def lineMaxLen_def)
  have "qp_codes ((qp_out w1 @ qp_line w1) @ hex_escape b) (t @ [b])"
    using w1(1) by (intro qp_codes.escape) (simp add: qp_state_def)
  moreover have "qp_encode b w = w1\<lparr>qp_line := qp_line w1 @ hex_escape b\<rparr>"
    by (simp only: qp_encode_def w1_def Let_def)
  ultimately show ?thesis
    using w1 by (simp add: qp_state_def no_space_left_def escape_printable last_append)
qed

lemma checkLastByte_state:
  assumes "qp_state w t"
  shows "qp_state (checkLastByte w) t \<and> no_space_left (checkLastByte w) \<and> qp_cr (checkLastByte w) = qp_cr w"
proof (cases "qp_line w = [] \<or> \<not> isWhitespace (last (qp_line w))")
  case True
  then show ?thesis using assms by (auto simp: checkLastByte_def no_space_left_def)
next
  case False
  then obtain l b where l: "qp_line w = l @ [b]" "isWhitespace b" by (metis append_butlast_last_id)
  from assms have "qp_codes ((qp_out w @ l) @ [b]) t" by (simp add: qp_state_def l)
  then obtain t' where t: "t = t' @ [b]" "qp_codes (qp_out w @ l) t'" using l(2) by (rule qp_codes_butlast)
  with assms have "qp_state (w\<lparr>qp_line := l\<rparr>) t'" by (simp add: qp_state_def l)
  from qp_encode_state [OF this, of b] show ?thesis by (simp add: checkLastByte_def l t(1))
qed

text \<open>A byte that is no line break, and a line break.\<close>

lemma qp_write_state:
  assumes "qp_state w t" "printable b" "b \<noteq> CHR ''=''"
  shows "qp_state (qp_write b w) (t @ [b]) \<and> \<not> qp_cr (qp_write b w)"
proof -
  define w1 where "w1 = (if length (qp_line w) = lineMaxLen - 1 then insertSoftLineBreak w else w)"
  have w1: "qp_state w1 t" "length (qp_line w1) + 1 < lineMaxLen"
    using assms(1) insertSoftLineBreak_state [OF assms(1)] by (auto simp: w1_def lineMaxLen_def qp_state_def)
  have "qp_codes ((qp_out w1 @ qp_line w1) @ [b]) (t @ [b])"
    using w1(1) assms(3) by (intro qp_codes.plain) (simp_all add: qp_state_def)
  moreover have "b \<noteq> CHR 0x0A" "b \<noteq> CHR 0x0D" using assms(2) by (auto simp: printable_def)
  then have "qp_write b w = w1\<lparr>qp_line := qp_line w1 @ [b], qp_cr := False\<rparr>"
    by (simp only: qp_write_def w1_def Let_def simp_thms if_False)
  ultimately show ?thesis using w1 assms(2) by (simp add: qp_state_def)
qed

lemma qp_break_state:
  assumes "qp_state w t" "b = CHR 0x0D \<or> b = CHR 0x0A \<and> \<not> qp_cr w"
  shows "qp_state (qp_write b w) (t @ crlf) \<and> (qp_cr (qp_write b w) \<longrightarrow> b = CHR 0x0D)"
  using assms insertCRLF_state checkLastByte_state [OF assms(1)]
  by (auto simp: qp_write_def qp_state_def)

lemma line_breaks_simps [simp]:
  "line_breaks [] = []"
  "line_breaks (c # s) = (if c = CHR 0x0A then crlf else if c = CHR 0x0D then [] else [c]) @ line_breaks s"
  by (simp_all add: line_breaks_def)

lemma qp_Write_Cons:
  "qp_Write (b # s) w = qp_Write s (if written_as_is b then qp_write b w else qp_encode b w)"
  by (simp add: qp_Write_def)

lemma qp_Write_state:
  assumes "qp_state w t" "\<not> bare_cr s" "qp_cr w \<Longrightarrow> s \<noteq> [] \<and> hd s = CHR 0x0A"
  shows "qp_state (qp_Write s w) (t @ line_breaks (if qp_cr w then tl s else s))"
  using assms
proof (induction s arbitrary: w t)
  case Nil
  then show ?case by (simp add: qp_Write_def)
next
  case (Cons b s)
  let ?w = "if written_as_is b then qp_write b w else qp_encode b w"
  have step: ?case if "qp_state ?w t'" "qp_cr ?w \<Longrightarrow> s \<noteq> [] \<and> hd s = CHR 0x0A"
      "t' @ line_breaks (if qp_cr ?w then tl s else s) = t @ line_breaks (if qp_cr w then s else b # s)" for t'
  proof -
    have "\<not> bare_cr s" using Cons.prems(2) by simp
    from Cons.IH [OF that(1) this that(2)] show ?case unfolding that(3) qp_Write_Cons by (simp only: list.sel)
  qed
  consider (skip) "b = CHR 0x0A" "qp_cr w" | (break) "b = CHR 0x0A" "\<not> qp_cr w" | (cr) "b = CHR 0x0D" "\<not> qp_cr w"
    | (plain) "written_as_is b" "b \<noteq> CHR 0x0A" "b \<noteq> CHR 0x0D" "\<not> qp_cr w"
    | (escape) "\<not> written_as_is b" "b \<noteq> CHR 0x0A" "b \<noteq> CHR 0x0D" "\<not> qp_cr w"
    using Cons.prems(3) by (cases "qp_cr w") auto
  then show ?case
  proof cases
    case skip
    then show ?thesis using Cons.prems(1) by (intro step [of t]) (auto simp: written_as_is_def qp_write_def qp_state_def)
  next
    case break
    then show ?thesis
      using qp_break_state [OF Cons.prems(1), of b] by (intro step [of "t @ crlf"]) (auto simp: written_as_is_def)
  next
    case cr
    then have "s \<noteq> []" "hd s = CHR 0x0A" using Cons.prems(2) by auto
    then have "line_breaks s = crlf @ line_breaks (tl s)" by (cases s) auto
    moreover have "qp_cr (qp_write b w)" using cr by (simp add: qp_write_def)
    ultimately show ?thesis
      using cr \<open>s \<noteq> []\<close> \<open>hd s = CHR 0x0A\<close> qp_break_state [OF Cons.prems(1), of b]
      by (intro step [of "t @ crlf"]) (auto simp: written_as_is_def)
  next
    case plain
    then have "printable b" "b \<noteq> CHR ''=''" by (auto simp: written_as_is_def printable_def isWhitespace_def)
    then show ?thesis
      using plain qp_write_state [OF Cons.prems(1), of b] by (intro step [of "t @ [b]"]) auto
  next
    case escape
    then show ?thesis
      using qp_encode_state [OF Cons.prems(1), of b] by (intro step [of "t @ [b]"]) auto
  qed
qed

lemma Join_lines: "concat (map (\<lambda>l. l @ crlf) ls) @ l = Join (ls @ [l]) crlf"
proof (induction ls)
  case Nil show ?case by simp
next
  case (Cons a ls) then show ?case by (cases ls) (simp_all add: Join_Cons)
qed



section \<open>Encoded words\<close>

fun q_decode :: "bytes \<Rightarrow> bytes option" where
  "q_decode [] = Some []"
| "q_decode (c # s) =
     (if c = CHR ''_'' then map_option ((#) (CHR '' '')) (q_decode s)
      else if c \<noteq> CHR ''='' then map_option ((#) c) (q_decode s)
      else case s of
        h # l # rest \<Rightarrow>
          (case (unhex h, unhex l) of
             (Some x, Some y) \<Rightarrow> map_option ((#) (char_of (16 * x + y))) (q_decode rest)
           | _ \<Rightarrow> None)
      | _ \<Rightarrow> None)"

definition encoded_word :: "bytes \<Rightarrow> bytes" where
  "encoded_word s = openWord @ writeQString s @ closeWord"

lemma writeQString_simps [simp]:
  "writeQString [] = []" "writeQString (b # s) = q_byte b @ writeQString s"
  "writeQString (s @ t) = writeQString s @ writeQString t"
  by (simp_all add: writeQString_def)

lemma q_decode_writeQString: "q_decode (writeQString s) = Some s"
proof (induction s)
  case (Cons b s)
  consider "b = CHR '' ''" | "q_plain b" "b \<noteq> CHR '' ''" | "\<not> q_plain b" by blast
  then show ?case
    using Cons by cases (auto simp: q_byte_def q_plain_def hex_escape_def upperhex_props)
qed simp

lemma length_q_byte: "length (q_byte b) = (if q_plain b then 1 else 3)"
  by (auto simp: q_byte_def hex_escape_def q_plain_def)

lemma length_writeQString: "length (writeQString s) \<le> 3 * length s"
  by (induction s) (auto simp: length_q_byte)

text \<open>A valid character is decoded from its own bytes alone.\<close>

lemma decode_rune_local:
  assumes "byte c < 128 \<or> snd (decode_rune (c # s)) \<noteq> 1"
  shows "decode_rune (c # take (snd (decode_rune (c # s)) - 1) s @ y) = decode_rune (c # s)"
proof -
  consider "byte c < 128" | "194 \<le> byte c" "byte c < 224" | "224 \<le> byte c" "byte c < 240"
    | "240 \<le> byte c" "byte c < 245" | "128 \<le> byte c" "byte c < 194 \<or> 245 \<le> byte c" by linarith
  then show ?thesis
  proof cases
    case 2
    with assms show ?thesis by (cases s) (auto simp: Let_def split: if_splits)
  next
    case 3
    with assms show ?thesis by (cases s rule: remdups_adj.cases) (auto simp: Let_def numeral_2_eq_2 split: if_splits)
  next
    case 4
    obtain a b d r where "s = a # b # d # r"
      using 4 assms by (auto simp: Let_def split: list.splits)
    with 4 assms show ?thesis by (auto simp: Let_def numeral_3_eq_3 split: if_splits)
  qed (use assms in \<open>auto simp: Let_def\<close>)
qed

lemma valid_utf8_take:
  assumes "byte c < 128 \<or> snd (decode_rune (c # s)) \<noteq> 1" "valid_utf8 y"
  shows "valid_utf8 (c # take (snd (decode_rune (c # s)) - 1) s @ y)"
proof -
  let ?w = "snd (decode_rune (c # s))"
  have "?w - 1 \<le> length s"
    using decode_rune_cases [of c s "fst (decode_rune (c # s))" ?w] by auto
  moreover have "valid_utf8 (c # x) = ((byte c < 128 \<or> snd (decode_rune (c # x)) \<noteq> 1)
      \<and> valid_utf8 (drop (snd (decode_rune (c # x)) - 1) x))" for x by (rule valid_utf8.simps)
  ultimately show ?thesis
    using assms unfolding decode_rune_local [OF assms(1), of y] by (simp del: decode_rune.simps valid_utf8.simps
      add: decode_rune_local [OF assms(1), unfolded One_nat_def])
qed

lemma q_lengths_props:
  assumes "q_lengths (b # s) = (n, k)"
  shows "1 \<le> n" "n \<le> Suc (length s)" "k \<le> 12" "length (writeQString (take n (b # s))) \<le> k"
    "n = snd (decode_rune (b # s))"
proof -
  have w: "1 \<le> snd (decode_rune (b # s)) \<and> snd (decode_rune (b # s)) \<le> 4
      \<and> snd (decode_rune (b # s)) \<le> Suc (length s)"
    by (auto simp: Let_def split: list.splits if_splits)
  have p: "q_plain b \<Longrightarrow> decode_rune (b # s) = (byte b, 1)" by (simp add: q_plain_def Let_def)
  have "length (writeQString (take m (b # s))) \<le> 3 * m" for m
    using length_writeQString [of "take m (b # s)"] by (rule order_trans) simp
  with w p assms show "1 \<le> n" "n \<le> Suc (length s)" "k \<le> 12" "length (writeQString (take n (b # s))) \<le> k"
    "n = snd (decode_rune (b # s))"
    by (auto simp: q_lengths_def length_q_byte Let_def simp del: decode_rune.simps split: if_splits)
qed

lemma qEncode_words:
  assumes "currentLen \<le> maxContentLen"
  shows "\<exists>d ds. qEncode currentLen s = writeQString d @ concat (map (\<lambda>d. closeWord @ '' '' @ openWord @ writeQString d) ds)
     \<and> d @ concat ds = s \<and> currentLen + length (writeQString d) \<le> maxContentLen
     \<and> list_all (\<lambda>d. length (writeQString d) \<le> maxContentLen) ds \<and> (valid_utf8 s \<longrightarrow> list_all valid_utf8 (d # ds))"
  using assms
proof (induction currentLen s rule: qEncode.induct)
  case (1 currentLen)
  then show ?case by (intro exI [of _ "[]"]) simp
next
  case (2 currentLen b s)
  obtain n k where nk: "q_lengths (b # s) = (n, k)" by fastforce
  note l = q_lengths_props [OF nk]
  define split where "split = (maxContentLen < currentLen + k)"
  define cur where "cur = (if split then 0 else currentLen)"
  define h where "h = take n (b # s)"
  have cur: "cur + k \<le> maxContentLen" using l(3) by (auto simp: cur_def split_def maxContentLen_def)
  from 2(1) [OF nk [symmetric] refl split_def] cur
  obtain d ds where d: "qEncode (cur + k) (drop (n - 1) s)
      = writeQString d @ concat (map (\<lambda>d. closeWord @ '' '' @ openWord @ writeQString d) ds)"
    "d @ concat ds = drop (n - 1) s" "cur + k + length (writeQString d) \<le> maxContentLen"
    "list_all (\<lambda>d. length (writeQString d) \<le> maxContentLen) ds"
    "valid_utf8 (drop (n - 1) s) \<longrightarrow> list_all valid_utf8 (d # ds)"
    unfolding cur_def by blast
  have h: "h = b # take (n - 1) s" "h @ drop (n - 1) s = b # s" "cur + length (writeQString (h @ d)) \<le> maxContentLen"
    using l(1,4) d(3) by (cases n; simp add: h_def)+
  have v: "valid_utf8 (b # s) \<longrightarrow> list_all valid_utf8 ((h @ d) # ds)"
    using d(5) valid_utf8_take [of b s d] l(5) by (auto simp: h(1) simp del: decode_rune.simps)
  have e: "qEncode currentLen (b # s) = (if split then closeWord @ '' '' @ openWord else [])
      @ writeQString h @ qEncode (cur + k) (drop (n - 1) s)"
    by (simp add: nk split_def [symmetric] cur_def h_def)
  show ?case
  proof (cases split)
    case True
    show ?thesis
      using True h d(1-4) v 2(2)
      by (intro exI [of _ "[] :: bytes"] exI [of _ "(h @ d) # ds"])
         (simp add: e cur_def del: valid_utf8.simps(2) decode_rune.simps qEncode.simps(2))
  next
    case False
    show ?thesis
      using False h d(1-4) v by (intro exI [of _ "h @ d"] exI [of _ ds]) (simp add: e cur_def del: valid_utf8.simps(2) decode_rune.simps qEncode.simps(2))
  qed
qed

text \<open>What an encoded word is written with.\<close>

lemma set_writeQString: "c \<in> set (writeQString s) \<Longrightarrow> printable c"
proof (induction s)
  case (Cons b s)
  consider "c \<in> set (q_byte b)" | "c \<in> set (writeQString s)" using Cons.prems by auto
  then show ?case
  proof cases
    case 1
    then show ?thesis
      using escape_printable(1) [of b] by (auto simp: q_byte_def q_plain_def printable_def list_all_iff split: if_splits)
  qed (rule Cons.IH)
qed simp

lemma set_QEncode: "c \<in> set (QEncode s) \<Longrightarrow> printable c \<or> c \<in> set s"
proof -
  have ends: "printable c" if "c \<in> set openWord \<union> set closeWord \<union> {CHR '' ''}" for c
  proof -
    have "list_all printable (openWord @ closeWord @ '' '')" by code_simp
    then show ?thesis using that by (auto simp: list_all_iff)
  qed
  obtain d ds where d: "qEncode 0 s = writeQString d @ concat (map (\<lambda>d. closeWord @ '' '' @ openWord @ writeQString d) ds)"
    using qEncode_words [of 0 s] by auto
  have "printable c" if "c \<in> set (qEncode 0 s)"
    using that set_writeQString ends unfolding d by (auto split: if_splits)
  then show "c \<in> set (QEncode s) \<Longrightarrow> ?thesis"
    using ends by (auto simp: QEncode_def split: if_splits)
qed

lemma Join_words:
  "openWord @ (writeQString d @ concat (map (\<lambda>d. closeWord @ '' '' @ openWord @ writeQString d) ds)) @ closeWord
   = Join (map encoded_word (d # ds)) '' ''"
proof (induction ds arbitrary: d)
  case Nil show ?case by (simp add: encoded_word_def)
next
  case (Cons e ds)
  from Cons [of e] show ?case by (simp add: encoded_word_def Join_Cons)
qed

text \<open>
  The subject is written as it is when it is printable ASCII, and otherwise as encoded words
  of at most 75 characters, separated by spaces, whose contents decode to the pieces of the subject
  in their order; no piece cuts a character in two.
\<close>

theorem QEncode_words:
  "if needsEncoding s
   then \<exists>ds. QEncode s = Join (map encoded_word ds) '' '' \<and> concat ds = s
     \<and> list_all (\<lambda>d. length (encoded_word d) \<le> 75 \<and> q_decode (writeQString d) = Some d) ds
     \<and> (valid_utf8 s \<longrightarrow> list_all valid_utf8 ds)
   else QEncode s = s"
proof (cases "needsEncoding s")
  case True
  obtain d ds where d: "qEncode 0 s = writeQString d @ concat (map (\<lambda>d. closeWord @ '' '' @ openWord @ writeQString d) ds)"
    "d @ concat ds = s" "length (writeQString d) \<le> maxContentLen"
    "list_all (\<lambda>d. length (writeQString d) \<le> maxContentLen) ds" "valid_utf8 s \<longrightarrow> list_all valid_utf8 (d # ds)"
    using qEncode_words [of 0 s] by auto
  have "length (encoded_word x) \<le> 75" if "length (writeQString x) \<le> maxContentLen" for x
    using that by (simp add: encoded_word_def openWord_def closeWord_def maxContentLen_def)
  then show ?thesis
    using True d Join_words [of d ds]
    by (auto simp: QEncode_def q_decode_writeQString list_all_iff intro!: exI [of _ "d # ds"])
qed (simp add: QEncode_def)

end
