(* ===== verification/Mail_Build.thy ===== *)
theory Mail_Build
  imports Mail_Address Mime
begin

text \<open>
  Package mail, internal/mail/build.go: the RFC 5322 message that is signed and handed
  to the engine. The header section is written line by line; a value with a control character
  is refused, never cleaned.
\<close>

section \<open>Model\<close>

record envelope =
  e_message_id :: bytes
  e_from :: bytes
  e_to :: "bytes list"
  e_subject :: bytes
  e_html :: bytes
  e_text :: bytes
  e_reply_to :: bytes
  e_extra :: "(bytes \<times> bytes) list"   \<comment> \<open>the map, in the order the loop visits it\<close>
  e_date :: "instant option"           \<comment> \<open>\<open>None\<close> the zero time\<close>
  e_unsubscribe_url :: bytes

datatype build_error =
    BadField mail_error
  | NoRecipient
  | BadHeader bytes                     \<comment> \<open>a control character in the value of that header\<close>

definition header_line :: "bytes \<times> bytes \<Rightarrow> bytes" where
  "header_line h = fst h @ '': '' @ snd h @ crlf"

text \<open>The closure write of Build: the buffer in, the buffer out.\<close>

definition write_header :: "bytes \<Rightarrow> bytes \<Rightarrow> bytes \<Rightarrow> build_error + bytes" where
  "write_header buf name value =
     (if ContainsControl value then Inl (BadHeader name)
      else Inr (buf @ header_line (name, value)))"

text \<open>A run of unconditional writes, stopped by the first refusal.\<close>

fun write_headers :: "bytes \<Rightarrow> (bytes \<times> bytes) list \<Rightarrow> build_error + bytes" where
  "write_headers buf [] = Inr buf"
| "write_headers buf ((n, v) # hs) =
     (case write_header buf n v of Inl e \<Rightarrow> Inl e | Inr buf' \<Rightarrow> write_headers buf' hs)"

fun write_extra :: "golib \<Rightarrow> bytes \<Rightarrow> (bytes \<times> bytes) list \<Rightarrow> build_error + bytes" where
  "write_extra L buf [] = Inr buf"
| "write_extra L buf ((n, v) # hs) =
     (case ValidateCustomHeader L n v of
        Some e \<Rightarrow> Inl (BadField e)
      | None \<Rightarrow>
          (case write_header buf n v of Inl e \<Rightarrow> Inl e | Inr buf' \<Rightarrow> write_extra L buf' hs))"

text \<open>PlainTextFrom: the tag state machine over code points, then the words joined by spaces.\<close>

fun strip_tags :: "nat list \<Rightarrow> bool \<Rightarrow> bytes" where
  "strip_tags [] inTag = []"
| "strip_tags (r # rs) inTag =
     (if r = 60 then strip_tags rs True
      else if r = 62 then CHR '' '' # strip_tags rs False
      else if \<not> inTag then encode_rune r @ strip_tags rs inTag
      else strip_tags rs inTag)"

text \<open>strings.Fields: the maximal runs of bytes between white-space code points.\<close>

fun fields_acc :: "bytes \<Rightarrow> bytes \<Rightarrow> bytes list" where
  "fields_acc [] w = (if w = [] then [] else [rev w])"
| "fields_acc (c # s) w =
     (if space_width (c # s) = 0 then fields_acc s (c # w)
      else (if w = [] then [] else [rev w]) @ fields_acc (drop (space_width (c # s) - 1) s) [])"

definition Fields :: "bytes \<Rightarrow> bytes list" where
  "Fields s = fields_acc s []"

definition PlainTextFrom :: "bytes \<Rightarrow> bytes" where
  "PlainTextFrom html = TrimSpace (Join (Fields (strip_tags (runes html) False)) '' '')"

text \<open>The headers before the extra ones, in the order Build writes them.\<close>

definition fixed_headers :: "golib \<Rightarrow> instant \<Rightarrow> envelope \<Rightarrow> (bytes \<times> bytes) list" where
  "fixed_headers L now e =
     [(''From'', e_from e), (''To'', Join (e_to e) '', '')]
     @ (if e_reply_to e \<noteq> [] then [(''Reply-To'', e_reply_to e)] else [])
     @ [(''Subject'', QEncode (e_subject e)),
        (''Message-ID'', ''<'' @ e_message_id e @ ''>''),
        (''Date'', rfc1123z L (case e_date e of None \<Rightarrow> now | Some d \<Rightarrow> d)),
        (''MIME-Version'', ''1.0'')]
     @ (if e_unsubscribe_url e \<noteq> []
        then [(''List-Unsubscribe'', ''<'' @ e_unsubscribe_url e @ ''>''),
              (''List-Unsubscribe-Post'', ''List-Unsubscribe=One-Click'')]
        else [])"

text \<open>multipart.Writer with two parts; the headers of a part are written sorted.\<close>

definition mime_part :: "bytes \<Rightarrow> bytes \<Rightarrow> bytes" where
  "mime_part ctype content =
     header_line (''Content-Transfer-Encoding'', ''quoted-printable'')
     @ header_line (''Content-Type'', ctype) @ crlf @ content"

definition multipart_body :: "bytes \<Rightarrow> bytes \<Rightarrow> bytes \<Rightarrow> bytes" where
  "multipart_body boundary text html =
     ''--'' @ boundary @ crlf @ mime_part ''text/plain; charset=utf-8'' text
     @ crlf @ ''--'' @ boundary @ crlf @ mime_part ''text/html; charset=utf-8'' html
     @ crlf @ ''--'' @ boundary @ ''--'' @ crlf"

text \<open>
  Build. \<open>now\<close> is time.Now(), \<open>boundary\<close> the boundary multipart.NewWriter draws. The writes to
  memory of the multipart writer cannot fail.
\<close>

definition Build :: "golib \<Rightarrow> instant \<Rightarrow> bytes \<Rightarrow> envelope \<Rightarrow> build_error + bytes" where
  "Build L now boundary e =
     (case ValidateSubject (e_subject e) of
        Some err \<Rightarrow> Inl (BadField err)
      | None \<Rightarrow>
          if e_to e = [] then Inl NoRecipient
          else case write_headers [] (fixed_headers L now e) of
            Inl err \<Rightarrow> Inl err
          | Inr buf1 \<Rightarrow>
              (case write_extra L buf1 (e_extra e) of
                 Inl err \<Rightarrow> Inl err
               | Inr buf \<Rightarrow>
                   let text = (if TrimSpace (e_text e) = [] then PlainTextFrom (e_html e)
                               else e_text e) in
                   if TrimSpace (e_html e) = [] then
                     Inr (buf @ header_line (''Content-Type'', ''text/plain; charset=utf-8'')
                          @ header_line (''Content-Transfer-Encoding'', ''quoted-printable'')
                          @ crlf @ quotedPrintable text)
                   else
                     Inr (buf @ header_line
                            (''Content-Type'', ''multipart/alternative; boundary='' @ quote L boundary)
                          @ crlf @ multipart_body boundary (quotedPrintable text)
                                     (quotedPrintable (e_html e)))))"

section \<open>The header section\<close>

definition header_block :: "(bytes \<times> bytes) list \<Rightarrow> bytes" where
  "header_block hs = concat (map header_line hs)"

definition line_safe :: "bytes \<Rightarrow> bool" where
  "line_safe s \<longleftrightarrow> CHR 0x0D \<notin> set s \<and> CHR 0x0A \<notin> set s"

lemma header_block_simps [simp]:
  "header_block [] = []" "header_block (h # hs) = header_line h @ header_block hs"
  "header_block (hs @ gs) = header_block hs @ header_block gs"
  by (simp_all add: header_block_def)

lemma write_headers_Inr:
  "write_headers buf hs = Inr buf' \<Longrightarrow>
   buf' = buf @ header_block hs \<and> (\<forall>(n, v) \<in> set hs. \<not> ContainsControl v)"
  by (induction buf hs rule: write_headers.induct)
     (auto simp: write_header_def split: if_splits)

lemma write_extra_Inr:
  "write_extra L buf hs = Inr buf' \<Longrightarrow>
   buf' = buf @ header_block hs
   \<and> (\<forall>(n, v) \<in> set hs. ValidateCustomHeader L n v = None \<and> \<not> ContainsControl v)"
  by (induction L buf hs rule: write_extra.induct)
     (auto simp: write_header_def split: if_splits option.splits)

lemma write_headers_ok:
  "\<forall>(n, v) \<in> set hs. \<not> ContainsControl v \<Longrightarrow> write_headers buf hs = Inr (buf @ header_block hs)"
  by (induction buf hs rule: write_headers.induct) (auto simp: write_header_def)

lemma write_extra_ok:
  "list_all (\<lambda>(n, v). ValidateCustomHeader L n v = None) hs \<Longrightarrow> write_extra L buf hs = Inr (buf @ header_block hs)"
  by (induction L buf hs rule: write_extra.induct) (auto simp: write_header_def dest: ValidateCustomHeader_NoneD(3))

lemma QEncode_no_control: "\<not> ContainsControl s \<Longrightarrow> \<not> ContainsControl (QEncode s)"
proof -
  have "\<not> control_byte c" if "c \<in> set (QEncode s)" "\<forall>c \<in> set s. \<not> control_byte c" for c
    using set_QEncode [OF that(1)] that(2) by (auto simp: control_byte_def printable_def)
  then show "\<not> ContainsControl s \<Longrightarrow> ?thesis" by (auto simp: ContainsControl_iff)
qed

lemma Join_no_control: "\<not> ContainsControl sep \<Longrightarrow> \<forall>x \<in> set xs. \<not> ContainsControl x \<Longrightarrow> \<not> ContainsControl (Join xs sep)"
  by (auto simp: ContainsControl_iff Join_def split: list.splits)

text \<open>When Build cannot fail: the checks it repeats have been made.\<close>

lemma Build_succeeds:
  assumes "ValidateSubject (e_subject e) = None" "e_to e \<noteq> []"
    and "\<forall>x \<in> set (e_from e # e_to e). \<not> ContainsControl x"
    and "\<not> ContainsControl (e_reply_to e)" "\<not> ContainsControl (e_message_id e)" "\<not> ContainsControl (e_unsubscribe_url e)"
    and "\<forall>t. \<not> ContainsControl (rfc1123z L t)"
    and "list_all (\<lambda>(n, v). ValidateCustomHeader L n v = None) (e_extra e)"
  shows "\<exists>raw. Build L now boundary e = Inr raw"
proof -
  have "\<not> ContainsControl (e_subject e)" using assms(1) by (auto simp: ValidateSubject_def split: if_splits)
  then have "\<not> ContainsControl (QEncode (e_subject e))" by (rule QEncode_no_control)
  moreover have "\<not> ContainsControl (Join (e_to e) '', '')"
    by (rule Join_no_control) (use assms(3) in \<open>simp_all add: control_byte_def\<close>)
  ultimately have "\<forall>(n, v) \<in> set (fixed_headers L now e). \<not> ContainsControl v"
    using assms(3-7) by (auto simp: fixed_headers_def control_byte_def)
  then show ?thesis
    using assms(1,2) by (auto simp: Build_def write_headers_ok write_extra_ok [OF assms(8)] Let_def)
qed

lemma custom_name_line_safe:
  assumes "ValidateCustomHeader L n v = None"
  shows "line_safe n"
proof -
  have "33 \<le> byte c" if "c \<in> set n" for c
    using ValidateCustomHeader_NoneD(1) [OF assms] that by (simp add: list_all_iff)
  from this [of "CHR 0x0D"] this [of "CHR 0x0A"] show ?thesis
    unfolding line_safe_def by auto
qed

lemma value_line_safe: "\<not> ContainsControl v \<Longrightarrow> line_safe v"
  using not_control_no_crlf by (auto simp: line_safe_def)

lemma fixed_names_line_safe: "(n, v) \<in> set (fixed_headers L now e) \<Longrightarrow> line_safe n"
proof -
  have "list_all (\<lambda>h. line_safe (fst h)) (fixed_headers L now e)"
    by (simp add: fixed_headers_def line_safe_def)
  then show "(n, v) \<in> set (fixed_headers L now e) \<Longrightarrow> line_safe n"
    by (auto simp: list_all_iff)
qed

section \<open>Property\<close>

text \<open>
  C16. A message Build returns starts with a header section made of exactly the lines the code
  wrote: the fixed headers in their order, the extra headers, then the content headers, an empty
  line and the body. No name and no value among them holds a carriage return or a line feed, so
  no field of the envelope can add a header of its own.
\<close>

theorem Build_no_header_injection:
  assumes "Build L now boundary e = Inr raw" and "line_safe (quote L boundary)"
  shows "\<exists>content body. raw = header_block (fixed_headers L now e @ e_extra e @ content) @ crlf @ body
           \<and> map fst content \<in> {[''Content-Type'', ''Content-Transfer-Encoding''], [''Content-Type'']}
           \<and> (\<forall>(n, v) \<in> set (fixed_headers L now e @ e_extra e @ content). line_safe n \<and> line_safe v)"
proof -
  let ?fs = "fixed_headers L now e" and ?xs = "e_extra e"
  from assms(1) obtain buf1 buf where
    b1: "write_headers [] ?fs = Inr buf1" and b: "write_extra L buf1 ?xs = Inr buf"
    by (auto simp: Build_def split: option.splits if_splits sum.splits)
  from write_headers_Inr [OF b1] write_extra_Inr [OF b]
  have buf: "buf = header_block (?fs @ ?xs)"
    and safe: "\<forall>(n, v) \<in> set (?fs @ ?xs). line_safe n \<and> line_safe v"
    by (auto dest: fixed_names_line_safe custom_name_line_safe value_line_safe)
  show ?thesis
  proof (cases "TrimSpace (e_html e) = []")
    case True
    let ?c = "[(''Content-Type'', ''text/plain; charset=utf-8''),
               (''Content-Transfer-Encoding'', ''quoted-printable'')]"
    from True assms(1) b1 b obtain body where "raw = header_block (?fs @ ?xs @ ?c) @ crlf @ body"
      by (auto simp: Build_def buf Let_def split: option.splits if_splits)
    moreover have "\<forall>(n, v) \<in> set ?c. line_safe n \<and> line_safe v" by (simp add: line_safe_def)
    ultimately show ?thesis
      using safe by (intro exI [of _ ?c] exI [of _ body]) auto
  next
    case False
    let ?c = "[(''Content-Type'', ''multipart/alternative; boundary='' @ quote L boundary)]"
    from False assms(1) b1 b obtain body where "raw = header_block (?fs @ ?xs @ ?c) @ crlf @ body"
      by (auto simp: Build_def buf Let_def split: option.splits if_splits)
    moreover have "\<forall>(n, v) \<in> set ?c. line_safe n \<and> line_safe v"
      using assms(2) by (simp add: line_safe_def)
    ultimately show ?thesis
      using safe by (intro exI [of _ ?c] exI [of _ body]) auto
  qed
qed

text \<open>A small message, with an extra header, for the library of samples.\<close>

definition sample_envelope :: envelope where
  "sample_envelope =
     \<lparr>e_message_id = ''01A@example.com'', e_from = ''a@example.com'', e_to = [''b@example.org''],
      e_subject = ''Hello'', e_html = [], e_text = ''Hi'', e_reply_to = [],
      e_extra = [(''X-Tag'', ''one'')], e_date = None, e_unsubscribe_url = []\<rparr>"

lemma Build_sample: "\<not> isl (Build sample_lib 0 ''b0'' sample_envelope)"
  by code_simp

theorem Build_no_header_injection_witness:
  "\<exists>raw content body. Build sample_lib 0 ''b0'' sample_envelope = Inr raw
     \<and> raw = header_block (fixed_headers sample_lib 0 sample_envelope @ e_extra sample_envelope @ content)
             @ crlf @ body"
proof -
  obtain raw where raw: "Build sample_lib 0 ''b0'' sample_envelope = Inr raw"
    using Build_sample by (auto simp: isl_def) (metis sum.exhaust)
  moreover have "line_safe (quote sample_lib ''b0'')"
    by (simp add: line_safe_def sample_lib_def)
  ultimately show ?thesis using Build_no_header_injection by blast
qed

end
