(* ===== verification/Bounce.thy ===== *)
theory Bounce
  imports Go_Library
begin

text \<open>
  Package bounce, internal/bounce/classify.go: whether an SMTP response or a delivery report
  means a permanent failure, a temporary one or a complaint.
\<close>

section \<open>Model\<close>

datatype kind = Unknown | Soft | Hard | Complaint

definition kind_string :: "kind \<Rightarrow> bytes" where
  "kind_string k =
     (case k of Soft \<Rightarrow> ''soft'' | Hard \<Rightarrow> ''hard'' | Complaint \<Rightarrow> ''complaint'' | Unknown \<Rightarrow> ''unknown'')"

definition Suppresses :: "kind \<Rightarrow> bool" where
  "Suppresses k \<longleftrightarrow> k = Hard \<or> k = Complaint"

record verdict =
  v_kind :: kind
  v_status :: bytes
  v_reason :: bytes
  v_retryable :: bool

definition hardStatus :: "(bytes \<times> bytes) list" where
  "hardStatus =
     [(''5.1.1'', ''no such user''),
      (''5.1.2'', ''no such domain''),
      (''5.1.3'', ''invalid address syntax''),
      (''5.1.6'', ''mailbox has moved''),
      (''5.1.10'', ''no such user, address rejected''),
      (''5.2.1'', ''mailbox disabled''),
      (''5.4.4'', ''unable to route to destination''),
      (''5.5.4'', ''invalid recipient''),
      (''5.7.27'', ''sender address rejected by policy'')]"

definition softStatus :: "(bytes \<times> bytes) list" where
  "softStatus =
     [(''4.2.2'', ''mailbox full''),
      (''4.2.1'', ''mailbox disabled temporarily''),
      (''4.3.2'', ''system not accepting messages''),
      (''4.4.1'', ''no answer from host''),
      (''4.4.2'', ''bad connection''),
      (''4.5.3'', ''too many recipients''),
      (''4.7.0'', ''policy deferral, often greylisting''),
      (''4.7.1'', ''delivery not authorised, try later''),
      (''4.7.28'', ''rate limited by the destination''),
      (''5.2.2'', ''mailbox full'')]"

definition complaintPhrases :: "bytes list" where
  "complaintPhrases =
     [''abuse report'', ''feedback-type: abuse'', ''this is an email abuse report'',
      ''complaint about message'', ''spam report'']"

definition MaxReportBytes :: nat where "MaxReportBytes = 1048576"

text \<open>
  parseStatus: three sections of one to three digits separated by dots; the first argument is
  the number of sections still to read.
\<close>

fun parse_sections :: "nat \<Rightarrow> bytes \<Rightarrow> bytes list \<Rightarrow> bytes list option" where
  "parse_sections 0 s parts = Some parts"
| "parse_sections (Suc k) s parts =
     (let d = takeWhile isDigit s; rest = dropWhile isDigit s in
      if d = [] \<or> length d > 3 then None
      else if k > 0 then
        (case rest of
           [] \<Rightarrow> None
         | c # rest' \<Rightarrow>
             if c \<noteq> CHR ''.'' then None else parse_sections k rest' (parts @ [d]))
      else Some (parts @ [d]))"

definition parseStatus :: "bytes \<Rightarrow> bytes option" where
  "parseStatus s = map_option (\<lambda>parts. Join parts ''.'') (parse_sections 3 s [])"

text \<open>findEnhancedStatus: the loop over positions, with the byte before the current one.\<close>

fun find_status :: "char option \<Rightarrow> bytes \<Rightarrow> bytes option" where
  "find_status prev [] = None"
| "find_status prev (c # s) =
     (if c \<noteq> CHR ''4'' \<and> c \<noteq> CHR ''5'' then find_status (Some c) s
      else if (case prev of None \<Rightarrow> False | Some p \<Rightarrow> isDigit p) then find_status (Some c) s
      else (case parseStatus (c # s) of
              Some status \<Rightarrow> Some status
            | None \<Rightarrow> find_status (Some c) s))"

definition findEnhancedStatus :: "bytes \<Rightarrow> bytes option" where
  "findEnhancedStatus s = find_status None s"

definition reply_separator :: "char \<Rightarrow> bool" where
  "reply_separator c \<longleftrightarrow>
     c = CHR '' '' \<or> c = CHR 0x0A \<or> c = CHR 0x0D \<or> c = CHR 0x09 \<or> c = CHR ''-''"

text \<open>strings.FieldsFunc for a test on ASCII bytes.\<close>

fun fields_by :: "(char \<Rightarrow> bool) \<Rightarrow> bytes \<Rightarrow> bytes \<Rightarrow> bytes list" where
  "fields_by p [] w = (if w = [] then [] else [w])"
| "fields_by p (c # s) w =
     (if p c then (if w = [] then [] else [w]) @ fields_by p s [] else fields_by p s (w @ [c]))"

fun reply_loop :: "bytes list \<Rightarrow> nat option" where
  "reply_loop [] = None"
| "reply_loop (f # fs) =
     (case f of
        [a, b, c] \<Rightarrow>
          if \<not> isDigit a \<or> \<not> isDigit b \<or> \<not> isDigit c then reply_loop fs
          else
            let code = (byte a - 48) * 100 + (byte b - 48) * 10 + (byte c - 48) in
            if 200 \<le> code \<and> code \<le> 599 then Some code else reply_loop fs
      | _ \<Rightarrow> reply_loop fs)"

definition findReplyCode :: "bytes \<Rightarrow> nat option" where
  "findReplyCode s = reply_loop (fields_by reply_separator s [])"

definition classify_reply :: "bytes \<Rightarrow> verdict" where
  "classify_reply response =
     (let unknown = \<lparr>v_kind = Unknown, v_status = [], v_reason = ''could not classify the response'',
                     v_retryable = True\<rparr> in
      case findReplyCode response of
        None \<Rightarrow> unknown
      | Some code \<Rightarrow>
          if code \<ge> 500 then
            \<lparr>v_kind = Hard, v_status = itoa_nat code,
             v_reason = ''permanent failure reported by the destination'', v_retryable = False\<rparr>
          else if code \<ge> 400 then
            \<lparr>v_kind = Soft, v_status = itoa_nat code,
             v_reason = ''temporary failure reported by the destination'', v_retryable = True\<rparr>
          else unknown)"

definition Classify :: "golib \<Rightarrow> bytes \<Rightarrow> verdict" where
  "Classify L report =
     (let response = (if length report > MaxReportBytes then take MaxReportBytes report else report);
          lowered = ToLower L response in
      if list_ex (Contains lowered) complaintPhrases then
        \<lparr>v_kind = Complaint, v_status = [], v_reason = ''recipient reported the message as spam'',
         v_retryable = False\<rparr>
      else case findEnhancedStatus response of
        None \<Rightarrow> classify_reply response
      | Some status \<Rightarrow>
          (case map_of hardStatus status of
             Some reason \<Rightarrow>
               \<lparr>v_kind = Hard, v_status = status, v_reason = reason, v_retryable = False\<rparr>
           | None \<Rightarrow>
               (case map_of softStatus status of
                  Some reason \<Rightarrow>
                    \<lparr>v_kind = Soft, v_status = status, v_reason = reason, v_retryable = True\<rparr>
                | None \<Rightarrow>
                    if hd status = CHR ''5'' then
                      \<lparr>v_kind = Hard, v_status = status,
                       v_reason = ''permanent failure reported by the destination'', v_retryable = False\<rparr>
                    else if hd status = CHR ''4'' then
                      \<lparr>v_kind = Soft, v_status = status,
                       v_reason = ''temporary failure reported by the destination'', v_retryable = True\<rparr>
                    else classify_reply response)))"

section \<open>Status codes\<close>

definition section_ok :: "bytes \<Rightarrow> bool" where
  "section_ok d \<longleftrightarrow> list_all isDigit d \<and> 1 \<le> length d \<and> length d \<le> 3"

lemma parse_sections_SomeD:
  "parse_sections k s parts = Some out \<Longrightarrow>
   \<exists>ds r. out = parts @ ds \<and> length ds = k \<and> list_all section_ok ds \<and> s = Join ds ''.'' @ r"
proof (induction k s parts rule: parse_sections.induct)
  case (2 k s parts)
  let ?d = "takeWhile isDigit s"
  have s: "s = ?d @ dropWhile isDigit s" by simp
  from "2.prems" have ok: "section_ok ?d"
    by (auto simp: section_ok_def Let_def list_all_iff Suc_le_eq dest: set_takeWhileD split: if_splits)
  show ?case
  proof (cases "k > 0")
    case False
    with "2.prems" ok s show ?thesis
      by (intro exI [of _ "[?d]"] exI [of _ "dropWhile isDigit s"])
         (auto simp: Let_def split: if_splits)
  next
    case True
    with "2.prems" obtain rest where rest: "dropWhile isDigit s = CHR ''.'' # rest"
      "parse_sections k rest (parts @ [?d]) = Some out" "?d \<noteq> []" "length ?d \<le> 3"
      by (auto simp: Let_def split: if_splits list.splits)
    with "2.IH" True obtain ds r where
      "out = (parts @ [?d]) @ ds" "length ds = k" "list_all section_ok ds" "rest = Join ds ''.'' @ r"
      by (fastforce simp: Let_def)
    with True ok s rest(1) show ?thesis
      by (intro exI [of _ "?d # ds"] exI [of _ r]) (auto simp: Join_Cons)
  qed
qed simp

text \<open>A status code: a class of one to three digits, a subject and a detail.\<close>

definition status_ok :: "bytes \<Rightarrow> bool" where
  "status_ok st \<longleftrightarrow>
     (\<exists>a b c. st = a @ ''.'' @ b @ ''.'' @ c \<and> section_ok a \<and> section_ok b \<and> section_ok c)"

lemma parseStatus_SomeD:
  assumes "parseStatus s = Some st"
  shows "status_ok st \<and> (\<exists>r. s = st @ r)"
proof -
  from assms obtain parts where "parse_sections 3 s [] = Some parts" "st = Join parts ''.''"
    by (auto simp: parseStatus_def)
  from parse_sections_SomeD [OF this(1)] this(2) show ?thesis
    by (force simp: status_ok_def numeral_3_eq_3 length_Suc_conv)
qed

lemma status_ok_hd: "status_ok st \<Longrightarrow> st @ r = c # s \<Longrightarrow> hd st = c"
  by (cases st) (auto simp: status_ok_def section_ok_def)

lemma find_status_SomeD:
  "find_status prev s = Some st \<Longrightarrow>
   status_ok st \<and> (hd st = CHR ''4'' \<or> hd st = CHR ''5'') \<and> (\<exists>p r. s = p @ st @ r)"
proof (induction s arbitrary: prev)
  case (Cons c s)
  show ?case
  proof (cases "find_status (Some c) s = Some st")
    case True
    with Cons.IH show ?thesis by (metis append_Cons)
  next
    case False
    with Cons.prems have c: "c = CHR ''4'' \<or> c = CHR ''5''" and p: "parseStatus (c # s) = Some st"
      by (auto split: if_splits option.splits)
    from parseStatus_SomeD [OF p] obtain r where "status_ok st" "c # s = st @ r" by auto
    moreover from this have "hd st = c" using status_ok_hd by metis
    ultimately show ?thesis using c by (metis append_Nil)
  qed
qed simp

section \<open>Properties\<close>

definition parsed_part :: "bytes \<Rightarrow> bytes" where
  "parsed_part report = take MaxReportBytes report"

lemma parsed_part_eq:
  "(if length report > MaxReportBytes then take MaxReportBytes report else report) = parsed_part report"
  by (simp add: parsed_part_def)

lemma classify_reply_kind:
  "Suppresses (v_kind (classify_reply s)) \<longleftrightarrow> (\<exists>code. findReplyCode s = Some code \<and> code \<ge> 500)"
  "v_retryable (classify_reply s) \<longleftrightarrow> \<not> Suppresses (v_kind (classify_reply s))"
  by (auto simp: classify_reply_def Suppresses_def Let_def split: option.splits)

lemma hardStatus_class5: "map_of hardStatus st = Some r \<Longrightarrow> hd st = CHR ''5'' \<and> st \<noteq> ''5.2.2''"
  by (auto simp: hardStatus_def split: if_splits)

lemma softStatus_class: "map_of softStatus st = Some r \<Longrightarrow> hd st = CHR ''4'' \<or> st = ''5.2.2''"
  by (auto simp: softStatus_def split: if_splits)

lemma softStatus_522: "map_of softStatus ''5.2.2'' \<noteq> None"
  by (simp add: softStatus_def)

text \<open>
  C31. Exactly which responses stop future sending: within the first megabyte, a complaint phrase
  in any letter case; or else a first enhanced status of class 5 other than 5.2.2 (listed among
  the hard codes or not); or, with no enhanced status, a first reply code of 500 or more. In
  every case the verdict is retryable exactly when it does not suppress.
\<close>

theorem Classify_suppresses_iff:
  "(Suppresses (v_kind (Classify L report)) \<longleftrightarrow>
      (let t = parsed_part report in
       (\<exists>p \<in> set complaintPhrases. Contains (ToLower L t) p)
       \<or> (case findEnhancedStatus t of
            Some st \<Rightarrow> hd st = CHR ''5'' \<and> st \<noteq> ''5.2.2''
          | None \<Rightarrow> (case findReplyCode t of Some code \<Rightarrow> code \<ge> 500 | None \<Rightarrow> False))))
   \<and> (v_retryable (Classify L report) \<longleftrightarrow> \<not> Suppresses (v_kind (Classify L report)))"
proof -
  let ?t = "parsed_part report"
  show ?thesis
  proof (cases "list_ex (Contains (ToLower L ?t)) complaintPhrases")
    case True
    then show ?thesis
      by (auto simp: Classify_def Let_def parsed_part_eq Suppresses_def list_ex_iff)
  next
    case False
    then have no: "\<not> (\<exists>p \<in> set complaintPhrases. Contains (ToLower L ?t) p)"
      by (simp add: list_ex_iff)
    show ?thesis
    proof (cases "findEnhancedStatus ?t")
      case None
      with False no show ?thesis
        by (auto simp: Classify_def Let_def parsed_part_eq classify_reply_kind split: option.splits)
    next
      case (Some st)
      then have "hd st = CHR ''4'' \<or> hd st = CHR ''5''"
        by (auto simp: findEnhancedStatus_def dest: find_status_SomeD)
      with Some False no show ?thesis
        using hardStatus_class5 [of st] softStatus_class [of st] softStatus_522
        by (auto simp: Classify_def Let_def parsed_part_eq Suppresses_def split: option.splits)
    qed
  qed
qed

end
