(* ===== verification/Template_Render.thy ===== *)
theory Template_Render
  imports Go_Library
begin

text \<open>
  Package template, internal/template/render.go: merge tags replaced by values, and nothing
  else. Variables are a Go map: an association list with distinct names, in the order a loop
  over the map visits them.
\<close>

section \<open>Model\<close>

definition MaxTemplateBytes :: nat where "MaxTemplateBytes = 524288"
definition MaxOutputBytes :: nat where "MaxOutputBytes = 1048576"
definition MaxVariables :: nat where "MaxVariables = 100"
definition MaxVariableNameLen :: nat where "MaxVariableNameLen = 64"
definition MaxTags :: nat where "MaxTags = 500"

datatype template_error =
    ErrTemplateTooLarge
  | ErrOutputTooLarge
  | ErrTooManyTags
  | ErrTooManyVariables
  | ErrUnclosedTag
  | UnknownVariableError bytes
  | InvalidNameError bytes

definition name_rune :: "nat \<Rightarrow> bool" where
  "name_rune r \<longleftrightarrow>
     (97 \<le> r \<and> r \<le> 122) \<or> (65 \<le> r \<and> r \<le> 90) \<or> (48 \<le> r \<and> r \<le> 57) \<or> r = 95"

definition validateName :: "bytes \<Rightarrow> template_error option" where
  "validateName name =
     (if name = [] \<or> length name > MaxVariableNameLen then Some (InvalidNameError name)
      else if list_all name_rune (runes name) then None
      else Some (InvalidNameError name))"

text \<open>html.EscapeString.\<close>

definition escape_char :: "char \<Rightarrow> bytes" where
  "escape_char c =
     (if c = CHR ''&'' then ''&amp;''
      else if c = CHR 0x27 then ''&#39;''
      else if c = CHR ''<'' then ''&lt;''
      else if c = CHR ''>'' then ''&gt;''
      else if c = CHR 0x22 then ''&#34;''
      else [c])"

definition EscapeString :: "bytes \<Rightarrow> bytes" where
  "EscapeString s = concat (map escape_char s)"

text \<open>The loop of Render: what is left of the template, the output so far, the tags so far.\<close>

function render_loop ::
  "(bytes \<times> bytes) list \<Rightarrow> bool \<Rightarrow> bytes \<Rightarrow> bytes \<Rightarrow> nat \<Rightarrow> template_error + bytes" where
  "render_loop variables escape rest out tags =
     (case Index rest ''{{'' of
        None \<Rightarrow>
          if length (out @ rest) > MaxOutputBytes then Inl ErrOutputTooLarge else Inr (out @ rest)
      | Some open' \<Rightarrow>
          (case Index (drop open' rest) ''}}'' of
             None \<Rightarrow> Inl ErrUnclosedTag
           | Some closing \<Rightarrow>
               let name = TrimSpace (take (closing - 2) (drop (open' + 2) rest)) in
               case validateName name of
                 Some e \<Rightarrow> Inl e
               | None \<Rightarrow>
                   (case map_of variables name of
                      None \<Rightarrow> Inl (UnknownVariableError name)
                    | Some value \<Rightarrow>
                        let out' = out @ take open' rest
                                   @ (if escape then EscapeString value else value) in
                        if tags + 1 > MaxTags then Inl ErrTooManyTags
                        else if length out' > MaxOutputBytes then Inl ErrOutputTooLarge
                        else render_loop variables escape (drop (open' + closing + 2) rest)
                               out' (tags + 1))))"
  by pat_completeness auto
termination
  by (relation "measure (\<lambda>(v, e, rest, out, tags). length rest)")
     (auto dest!: Index_Some_split)

declare render_loop.simps [simp del]

definition Render :: "bytes \<Rightarrow> (bytes \<times> bytes) list \<Rightarrow> bool \<Rightarrow> template_error + bytes" where
  "Render tmpl variables escape =
     (if length tmpl > MaxTemplateBytes then Inl ErrTemplateTooLarge
      else if length variables > MaxVariables then Inl ErrTooManyVariables
      else case List.find (\<lambda>name. validateName name \<noteq> None) (map fst variables) of
        Some name \<Rightarrow> Inl (InvalidNameError name)
      | None \<Rightarrow> render_loop variables escape tmpl [] 0)"

text \<open>The limits are compared as integers when the definitions are evaluated.\<close>

lemma limits_code [code_unfold]:
  "MaxTemplateBytes < length s \<longleftrightarrow> (524288::int) < int (length s)"
  "MaxOutputBytes < length s \<longleftrightarrow> (1048576::int) < int (length s)"
  by (simp_all add: MaxTemplateBytes_def MaxOutputBytes_def)

text \<open>The loop of Tags; \<open>seen\<close> holds exactly the members of \<open>names\<close>.\<close>

function tags_loop :: "bytes \<Rightarrow> bytes list \<Rightarrow> template_error + bytes list" where
  "tags_loop rest names =
     (case Index rest ''{{'' of
        None \<Rightarrow> Inr names
      | Some open' \<Rightarrow>
          (case Index (drop open' rest) ''}}'' of
             None \<Rightarrow> Inl ErrUnclosedTag
           | Some closing \<Rightarrow>
               let name = TrimSpace (take (closing - 2) (drop (open' + 2) rest)) in
               case validateName name of
                 Some e \<Rightarrow> Inl e
               | None \<Rightarrow>
                   let names' = (if name \<in> set names then names else names @ [name]) in
                   if length names' > MaxTags then Inl ErrTooManyTags
                   else tags_loop (drop (open' + closing + 2) rest) names'))"
  by pat_completeness auto
termination
  by (relation "measure (\<lambda>(rest, names). length rest)") (auto dest!: Index_Some_split)

declare tags_loop.simps [simp del]

definition Tags :: "bytes \<Rightarrow> template_error + bytes list" where
  "Tags tmpl =
     (if length tmpl > MaxTemplateBytes then Inl ErrTemplateTooLarge else tags_loop tmpl [])"

section \<open>Templates as segments\<close>

text \<open>
  The meaning of a template: pairs of literal text and the raw text of a tag, then a last
  literal. \<open>seg_ok\<close> says that the tag starts at the first opening after the previous one and
  ends at the first closing.
\<close>

type_synonym segments = "(bytes \<times> bytes) list"

fun unparse :: "segments \<Rightarrow> bytes \<Rightarrow> bytes" where
  "unparse [] final = final"
| "unparse ((lit, raw) # segs) final = lit @ ''{{'' @ raw @ ''}}'' @ unparse segs final"

definition seg_ok :: "bytes \<times> bytes \<Rightarrow> bool" where
  "seg_ok p \<longleftrightarrow>
     Index (fst p @ ''{{'') ''{{'' = Some (length (fst p))
     \<and> Index (snd p @ ''}}'') ''}}'' = Some (length (snd p))"

definition parses_as :: "bytes \<Rightarrow> segments \<Rightarrow> bytes \<Rightarrow> bool" where
  "parses_as tmpl segs final \<longleftrightarrow>
     tmpl = unparse segs final \<and> list_all seg_ok segs \<and> Index final ''{{'' = None"

definition tag_name :: "bytes \<times> bytes \<Rightarrow> bytes" where
  "tag_name p = TrimSpace (snd p)"

definition tag_ok :: "(bytes \<times> bytes) list \<Rightarrow> bytes \<times> bytes \<Rightarrow> bool" where
  "tag_ok variables p \<longleftrightarrow>
     validateName (tag_name p) = None \<and> map_of variables (tag_name p) \<noteq> None"

definition tag_value :: "(bytes \<times> bytes) list \<Rightarrow> bool \<Rightarrow> bytes \<times> bytes \<Rightarrow> bytes" where
  "tag_value variables escape p =
     (let value = the (map_of variables (tag_name p)) in
      if escape then EscapeString value else value)"

definition substitute :: "(bytes \<times> bytes) list \<Rightarrow> bool \<Rightarrow> segments \<Rightarrow> bytes \<Rightarrow> bytes" where
  "substitute variables escape segs final =
     concat (map (\<lambda>p. fst p @ tag_value variables escape p) segs) @ final"

lemma Index_open_skip: "Index (''{{'' @ s) ''}}'' = map_option (\<lambda>i. i + 2) (Index s ''}}'')"
  by (cases "Index s ''}}''") (auto simp: HasPrefix_def)

text \<open>One turn of either loop reads one segment.\<close>

lemma split_segment:
  assumes "Index rest ''{{'' = Some i" "Index (drop i rest) ''}}'' = Some k"
  obtains raw where "rest = take i rest @ ''{{'' @ raw @ ''}}'' @ drop (i + k + 2) rest"
    "seg_ok (take i rest, raw)" "take (k - 2) (drop (i + 2) rest) = raw" "k = length raw + 2"
proof -
  from Index_Some_split [OF assms(1)] obtain q where
    q: "rest = take i rest @ ''{{'' @ q" "i + 2 \<le> length rest" by auto
  then have d: "drop i rest = ''{{'' @ q"
    by (metis append_eq_conv_conj length_take min.absorb2 add_leD1)
  have "map_option (\<lambda>i. i + 2) (Index q ''}}'') = Some k"
    using assms(2) unfolding d Index_open_skip .
  then obtain k' where k': "Index q ''}}'' = Some k'" "k = k' + 2" by auto
  from Index_Some_split [OF k'(1)] obtain r where
    r: "q = take k' q @ ''}}'' @ r" "k' + 2 \<le> length q" by auto
  let ?raw = "take k' q"
  have raw: "length ?raw = k'" using r(2) by simp
  have dr: "drop (i + 2) rest = q"
    using d by (metis add.commute drop_drop append_eq_conv_conj length_Cons list.size(3)
        One_nat_def Suc_1 plus_1_eq_Suc)
  have dk: "drop (i + k + 2) rest = r"
  proof -
    have "drop (k' + 2) q = r"
      using r(1) raw by (metis append.assoc append_eq_conv_conj length_append length_Cons
          list.size(3) One_nat_def Suc_1 plus_1_eq_Suc add.commute)
    then show ?thesis using dr k'(2) by (metis drop_drop add.commute add.left_commute)
  qed
  have "Index (?raw @ ''}}'' @ r) ''}}'' = Some (length ?raw)"
    using k'(1) r(1) raw by metis
  then have c: "Index (?raw @ ''}}'') ''}}'' = Some (length ?raw)"
    unfolding Index_append_same .
  have "length (take i rest) = i" using q(2) by simp
  then have "Index (take i rest @ ''{{'' @ q) ''{{'' = Some (length (take i rest))"
    using assms(1) q(1) by metis
  then have o: "Index (take i rest @ ''{{'') ''{{'' = Some (length (take i rest))"
    unfolding Index_append_same .
  show thesis
  proof (rule that [of ?raw])
    show "rest = take i rest @ ''{{'' @ ?raw @ ''}}'' @ drop (i + k + 2) rest"
      using q(1) r(1) dk by metis
    show "seg_ok (take i rest, ?raw)" using o c by (simp add: seg_ok_def del: Index.simps)
    show "take (k - 2) (drop (i + 2) rest) = ?raw" using dr k'(2) by simp
    show "k = length ?raw + 2" using raw k'(2) by simp
  qed
qed

lemma join_segment:
  assumes "seg_ok (lit, raw)"
  shows "Index (lit @ ''{{'' @ raw @ ''}}'' @ r) ''{{'' = Some (length lit)"
    and "Index (drop (length lit) (lit @ ''{{'' @ raw @ ''}}'' @ r)) ''}}'' = Some (length raw + 2)"
    and "drop (length lit + (length raw + 2) + 2) (lit @ ''{{'' @ raw @ ''}}'' @ r) = r"
proof -
  from assms have o: "Index (lit @ ''{{'') ''{{'' = Some (length lit)"
    and c: "Index (raw @ ''}}'') ''}}'' = Some (length raw)"
    by (simp_all add: seg_ok_def del: Index.simps)
  show "Index (lit @ ''{{'' @ raw @ ''}}'' @ r) ''{{'' = Some (length lit)"
    using o unfolding Index_append_same .
  have "Index (raw @ ''}}'' @ r) ''}}'' = Some (length raw)"
    using c unfolding Index_append_same .
  then show "Index (drop (length lit) (lit @ ''{{'' @ raw @ ''}}'' @ r)) ''}}'' = Some (length raw + 2)"
    using Index_open_skip [of "raw @ ''}}'' @ r"] by (simp del: Index.simps)
  show "drop (length lit + (length raw + 2) + 2) (lit @ ''{{'' @ raw @ ''}}'' @ r) = r"
    by (simp add: numeral_eq_Suc)
qed


section \<open>Rendering\<close>

lemma parses_as_Nil: "parses_as rest [] final \<longleftrightarrow> rest = final \<and> Index rest ''{{'' = None"
  by (auto simp: parses_as_def)

lemma parses_as_Cons:
  "parses_as rest ((lit, raw) # segs) final \<longleftrightarrow>
     (\<exists>r. rest = lit @ ''{{'' @ raw @ ''}}'' @ r \<and> seg_ok (lit, raw) \<and> parses_as r segs final)"
  by (auto simp: parses_as_def)

lemma parses_as_step:
  assumes "Index rest ''{{'' = Some i" "Index (drop i rest) ''}}'' = Some k"
  shows "parses_as rest segs final \<longleftrightarrow>
     (\<exists>raw segs'. segs = (take i rest, raw) # segs' \<and> raw = take (k - 2) (drop (i + 2) rest)
        \<and> parses_as (drop (i + k + 2) rest) segs' final)"
proof -
  obtain raw where raw: "rest = take i rest @ ''{{'' @ raw @ ''}}'' @ drop (i + k + 2) rest"
    "seg_ok (take i rest, raw)" "take (k - 2) (drop (i + 2) rest) = raw" "k = length raw + 2"
    using split_segment [OF assms] by blast
  show ?thesis
  proof
    assume p: "parses_as rest segs final"
    with assms(1) obtain lit raw' segs' where s: "segs = (lit, raw') # segs'"
      by (cases segs) (auto simp: parses_as_Nil)
    with p obtain r where r: "rest = lit @ ''{{'' @ raw' @ ''}}'' @ r" "seg_ok (lit, raw')"
      "parses_as r segs' final"
      by (auto simp only: parses_as_Cons)
    note j = join_segment [OF r(2), of r, folded r(1)]
    from j(1) assms(1) have i: "i = length lit" by simp
    with j(2) assms(2) have k: "k = length raw' + 2" by simp
    from j(3) i k have "drop (i + k + 2) rest = r" by simp
    moreover from i r(1) have l: "lit = take i rest" by simp
    moreover have "raw' = take (k - 2) (drop (i + 2) rest)"
      using r(1) i k by (simp add: numeral_eq_Suc)
    ultimately show "\<exists>raw segs'. segs = (take i rest, raw) # segs'
        \<and> raw = take (k - 2) (drop (i + 2) rest) \<and> parses_as (drop (i + k + 2) rest) segs' final"
      using s r(3) by auto
  next
    assume "\<exists>raw segs'. segs = (take i rest, raw) # segs'
        \<and> raw = take (k - 2) (drop (i + 2) rest) \<and> parses_as (drop (i + k + 2) rest) segs' final"
    with raw show "parses_as rest segs final" by (auto simp only: parses_as_Cons)
  qed
qed

lemma parses_as_unclosed:
  assumes "Index rest ''{{'' = Some i" "Index (drop i rest) ''}}'' = None"
  shows "\<not> parses_as rest segs final"
proof
  assume p: "parses_as rest segs final"
  with assms(1) obtain lit raw segs' where "segs = (lit, raw) # segs'"
    by (cases segs) (auto simp: parses_as_Nil)
  with p obtain r where r: "rest = lit @ ''{{'' @ raw @ ''}}'' @ r" "seg_ok (lit, raw)"
    by (auto simp only: parses_as_Cons)
  note j = join_segment [OF r(2), of r, folded r(1)]
  from j(1) assms(1) have "i = length lit" by simp
  with j(2) assms(2) show False by simp
qed

lemma substitute_simps [simp]:
  "substitute vs esc [] final = final"
  "substitute vs esc (p # segs) final = fst p @ tag_value vs esc p @ substitute vs esc segs final"
  by (simp_all add: substitute_def)

text \<open>The output the loop reaches from a state, described by the segments that are left.\<close>

definition renders ::
  "(bytes \<times> bytes) list \<Rightarrow> bool \<Rightarrow> bytes \<Rightarrow> bytes \<Rightarrow> nat \<Rightarrow> bytes \<Rightarrow> bool" where
  "renders vs esc rest out tags o' \<longleftrightarrow>
     (\<exists>segs final. parses_as rest segs final \<and> list_all (tag_ok vs) segs
        \<and> o' = out @ substitute vs esc segs final
        \<and> (segs \<noteq> [] \<longrightarrow> tags + length segs \<le> MaxTags) \<and> length o' \<le> MaxOutputBytes)"

lemma renders_end:
  assumes "Index rest ''{{'' = None"
  shows "renders vs esc rest out tags o' \<longleftrightarrow> o' = out @ rest \<and> length o' \<le> MaxOutputBytes"
proof -
  have "parses_as rest segs final \<longleftrightarrow> segs = [] \<and> final = rest" for segs final
    using assms join_segment(1)
    by (cases segs) (fastforce simp: parses_as_Nil parses_as_Cons)+
  then show ?thesis by (auto simp: renders_def)
qed

lemma renders_step:
  fixes rest out :: bytes and vs :: "(bytes \<times> bytes) list" and esc :: bool
  assumes i: "Index rest ''{{'' = Some i" and k: "Index (drop i rest) ''}}'' = Some k"
  defines "p \<equiv> (take i rest, take (k - 2) (drop (i + 2) rest))"
  defines "out' \<equiv> out @ take i rest @ tag_value vs esc p"
  shows "renders vs esc rest out tags o' \<longleftrightarrow>
     tag_ok vs p \<and> tags + 1 \<le> MaxTags \<and> length out' \<le> MaxOutputBytes
     \<and> renders vs esc (drop (i + k + 2) rest) out' (tags + 1) o'"
    (is "?A \<longleftrightarrow> ?B")
proof
  assume ?A
  then obtain segs final where "parses_as (drop (i + k + 2) rest) segs final"
    "list_all (tag_ok vs) (p # segs)" "o' = out @ substitute vs esc (p # segs) final"
    "tags + length (p # segs) \<le> MaxTags" "length o' \<le> MaxOutputBytes"
    unfolding renders_def parses_as_step [OF i k] p_def by auto
  moreover from this have "renders vs esc (drop (i + k + 2) rest) out' (tags + 1) o'"
    unfolding renders_def out'_def p_def by (intro exI [of _ segs] exI [of _ final]) auto
  ultimately show ?B by (auto simp: out'_def p_def)
next
  assume b: ?B
  then obtain segs final where "parses_as (drop (i + k + 2) rest) segs final"
    "list_all (tag_ok vs) segs" "o' = out' @ substitute vs esc segs final"
    "segs \<noteq> [] \<longrightarrow> tags + 1 + length segs \<le> MaxTags" "length o' \<le> MaxOutputBytes"
    unfolding renders_def by blast
  with b have "parses_as (drop (i + k + 2) rest) segs final"
    "list_all (tag_ok vs) (p # segs)" "o' = out @ substitute vs esc (p # segs) final"
    "tags + length (p # segs) \<le> MaxTags" "length o' \<le> MaxOutputBytes"
    by (cases segs; simp add: out'_def p_def)+
  then show ?A
    unfolding renders_def parses_as_step [OF i k] p_def
    by (intro exI [of _ "p # segs"] exI [of _ final]) (auto simp: p_def)
qed

lemma render_loop_iff:
  "render_loop vs esc rest out tags = Inr o' \<longleftrightarrow> renders vs esc rest out tags o'"
proof (induction vs esc rest out tags rule: render_loop.induct)
  case (1 vs esc rest out tags)
  show ?case
  proof (cases "Index rest ''{{''")
    case None
    then show ?thesis
      by (auto simp: render_loop.simps [of vs esc rest] renders_end not_less)
  next
    case i: (Some i)
    show ?thesis
    proof (cases "Index (drop i rest) ''}}''")
      case None
      with parses_as_unclosed [OF i None] i show ?thesis
        by (simp add: render_loop.simps [of vs esc rest] renders_def)
    next
      case k: (Some k)
      let ?name = "TrimSpace (take (k - 2) (drop (i + 2) rest))"
      show ?thesis
      proof (cases "validateName ?name = None \<and> map_of vs ?name \<noteq> None")
        case False
        then show ?thesis
          unfolding renders_step [OF i k] using i k
          by (auto simp: render_loop.simps [of vs esc rest] tag_ok_def tag_name_def Let_def
              split: option.splits)
      next
        case True
        then obtain v where v: "validateName ?name = None" "map_of vs ?name = Some v" by auto
        with i k "1.IH" [OF i k refl v refl] show ?thesis
          unfolding renders_step [OF i k]
          by (simp add: render_loop.simps [of vs esc rest] tag_ok_def tag_name_def tag_value_def
              Let_def not_less)
      qed
    qed
  qed
qed

section \<open>Properties\<close>

lemma find_None_iff_all: "List.find P xs = None \<longleftrightarrow> list_all (\<lambda>x. \<not> P x) xs"
  by (auto simp: find_None_iff list_all_iff)

text \<open>
  C33. Render succeeds with an output exactly when the limits hold, every variable name is an
  identifier, and the template is literal text and tags, each tag naming a supplied variable;
  the output is then the literal text with each tag replaced by its value, escaped or not, and
  no value is scanned for tags again.
\<close>

theorem Render_spec:
  "Render tmpl variables escape = Inr out \<longleftrightarrow>
     length tmpl \<le> MaxTemplateBytes \<and> length variables \<le> MaxVariables
     \<and> list_all (\<lambda>name. validateName name = None) (map fst variables)
     \<and> (\<exists>segs final. parses_as tmpl segs final \<and> list_all (tag_ok variables) segs
          \<and> out = substitute variables escape segs final
          \<and> length segs \<le> MaxTags \<and> length out \<le> MaxOutputBytes)"
proof -
  have "(segs \<noteq> [] \<longrightarrow> 0 + length segs \<le> MaxTags) \<longleftrightarrow> length segs \<le> MaxTags" for segs :: segments
    by auto
  then have loop: "render_loop variables escape tmpl [] 0 = Inr out \<longleftrightarrow>
      (\<exists>segs final. parses_as tmpl segs final \<and> list_all (tag_ok variables) segs
          \<and> out = substitute variables escape segs final
          \<and> length segs \<le> MaxTags \<and> length out \<le> MaxOutputBytes)"
    by (simp only: render_loop_iff renders_def append_Nil)
  show ?thesis
  proof (cases "List.find (\<lambda>name. validateName name \<noteq> None) (map fst variables)")
    case None
    then show ?thesis
      using loop find_None_iff_all [of "\<lambda>name. validateName name \<noteq> None" "map fst variables"]
      by (auto simp: Render_def not_less)
  next
    case (Some name)
    then have "\<not> list_all (\<lambda>name. validateName name = None) (map fst variables)"
      by (force simp: list_all_iff dest: find_SomeD)
    with Some show ?thesis by (auto simp: Render_def)
  qed
qed


section \<open>The tags of a template\<close>

text \<open>The members of a list in the order they first occur, after those already seen.\<close>

fun new_names :: "bytes list \<Rightarrow> bytes list \<Rightarrow> bytes list" where
  "new_names seen [] = seen"
| "new_names seen (n # ns) = new_names (if n \<in> set seen then seen else seen @ [n]) ns"

lemma set_new_names [simp]: "set (new_names seen ns) = set seen \<union> set ns"
  by (induction seen ns rule: new_names.induct) auto

lemma distinct_new_names: "distinct seen \<Longrightarrow> distinct (new_names seen ns)"
  by (induction seen ns rule: new_names.induct) auto

lemma length_new_names: "length seen \<le> length (new_names seen ns)"
  by (induction seen ns rule: new_names.induct) (auto split: if_splits)

lemma length_new_names_le: "length (new_names seen ns) \<le> length seen + length ns"
  by (induction seen ns rule: new_names.induct) (auto split: if_splits)

definition lists_tags :: "bytes \<Rightarrow> bytes list \<Rightarrow> bytes list \<Rightarrow> bool" where
  "lists_tags rest names r \<longleftrightarrow>
     (\<exists>segs final. parses_as rest segs final
        \<and> list_all (\<lambda>p. validateName (tag_name p) = None) segs
        \<and> r = new_names names (map tag_name segs)
        \<and> (segs \<noteq> [] \<longrightarrow> length r \<le> MaxTags))"

lemma lists_tags_step:
  assumes i: "Index rest ''{{'' = Some i" and k: "Index (drop i rest) ''}}'' = Some k"
    and n: "name = TrimSpace (take (k - 2) (drop (i + 2) rest))"
    and n': "names' = (if name \<in> set names then names else names @ [name])"
  shows "lists_tags rest names r \<longleftrightarrow>
     validateName name = None \<and> length names' \<le> MaxTags
     \<and> lists_tags (drop (i + k + 2) rest) names' r"
    (is "?A \<longleftrightarrow> ?B")
proof
  let ?p = "(take i rest, take (k - 2) (drop (i + 2) rest))"
  have t: "tag_name ?p = name" by (simp add: tag_name_def n)
  assume ?A
  then obtain segs final where "parses_as (drop (i + k + 2) rest) segs final"
    "list_all (\<lambda>p. validateName (tag_name p) = None) (?p # segs)"
    "r = new_names names (map tag_name (?p # segs))" "length r \<le> MaxTags"
    unfolding lists_tags_def parses_as_step [OF i k] by blast
  with t n' have p: "parses_as (drop (i + k + 2) rest) segs final"
    "list_all (\<lambda>p. validateName (tag_name p) = None) segs" "validateName name = None"
    "r = new_names names' (map tag_name segs)" "length r \<le> MaxTags"
    by simp_all
  then have "length names' \<le> MaxTags" using length_new_names le_trans by blast
  with p show ?B by (auto simp: lists_tags_def)
next
  assume b: ?B
  then obtain segs final where s: "parses_as (drop (i + k + 2) rest) segs final"
    "list_all (\<lambda>p. validateName (tag_name p) = None) segs"
    "r = new_names names' (map tag_name segs)" "segs \<noteq> [] \<longrightarrow> length r \<le> MaxTags"
    unfolding lists_tags_def by blast
  let ?p = "(take i rest, take (k - 2) (drop (i + 2) rest))"
  have t: "tag_name ?p = name" by (simp add: tag_name_def n)
  have "parses_as rest (?p # segs) final" unfolding parses_as_step [OF i k] using s(1) by auto
  moreover have "list_all (\<lambda>p. validateName (tag_name p) = None) (?p # segs)"
    using s(2) b t by simp
  moreover have "r = new_names names (map tag_name (?p # segs))" using s(3) t n' by simp
  moreover have "length r \<le> MaxTags" using s(3,4) b by (cases segs) auto
  ultimately show ?A unfolding lists_tags_def by blast
qed

lemma tags_loop_iff: "tags_loop rest names = Inr r \<longleftrightarrow> lists_tags rest names r"
proof (induction rest names rule: tags_loop.induct)
  case (1 rest names)
  show ?case
  proof (cases "Index rest ''{{''")
    case None
    have "parses_as rest segs final \<longleftrightarrow> segs = [] \<and> final = rest" for segs final
      using None join_segment(1)
      by (cases segs) (fastforce simp: parses_as_Nil parses_as_Cons)+
    with None show ?thesis by (auto simp: tags_loop.simps [of rest] lists_tags_def)
  next
    case i: (Some i)
    show ?thesis
    proof (cases "Index (drop i rest) ''}}''")
      case None
      with parses_as_unclosed [OF i None] i show ?thesis
        by (simp add: tags_loop.simps [of rest] lists_tags_def)
    next
      case k: (Some k)
      show ?thesis
        using "1.IH" [OF i k refl] i k lists_tags_step [OF i k refl refl]
        by (auto simp: tags_loop.simps [of rest] Let_def not_less split: option.splits)
    qed
  qed
qed

lemma parses_as_unique:
  assumes "parses_as rest segs final" "parses_as rest segs' final'"
  shows "segs = segs' \<and> final = final'"
  using assms
proof (induction segs arbitrary: rest segs')
  case Nil
  then show ?case using join_segment(1)
    by (cases segs') (fastforce simp: parses_as_Nil parses_as_Cons)+
next
  case (Cons p segs)
  obtain lit raw where p: "p = (lit, raw)" by (cases p)
  with Cons.prems(1) obtain r where r: "rest = lit @ ''{{'' @ raw @ ''}}'' @ r"
    "seg_ok (lit, raw)" "parses_as r segs final" by (auto simp only: parses_as_Cons)
  note j = join_segment [OF r(2), of r, folded r(1)]
  from Cons.prems(2) obtain raw' segs'' where s: "segs' = (lit, raw') # segs''"
    "raw' = take (length raw) (drop (length lit + 2) rest)" "parses_as r segs'' final'"
    unfolding parses_as_step [OF j(1,2)] j(3) using r(1) by (auto simp del: Index.simps)
  moreover have "raw' = raw" using s(2) r(1) by (simp add: numeral_eq_Suc)
  ultimately show ?case using Cons.IH [OF r(3) s(3)] p by simp
qed

lemma render_loop_errors:
  assumes "render_loop vs esc rest out tags = Inl e" "parses_as rest segs final"
    "list_all (tag_ok vs) segs"
  shows "e = ErrTooManyTags \<or> e = ErrOutputTooLarge"
  using assms
proof (induction vs esc rest out tags arbitrary: segs rule: render_loop.induct)
  case (1 vs esc rest out tags)
  show ?case
  proof (cases "Index rest ''{{''")
    case None
    with 1(2) show ?thesis by (auto simp: render_loop.simps [of vs esc rest] split: if_splits)
  next
    case i: (Some i)
    with parses_as_unclosed [OF i] 1(3) obtain k where k: "Index (drop i rest) ''}}'' = Some k"
      by (cases "Index (drop i rest) ''}}''") auto
    from 1(3) obtain segs' where s: "parses_as (drop (i + k + 2) rest) segs' final"
      "segs = (take i rest, take (k - 2) (drop (i + 2) rest)) # segs'"
      unfolding parses_as_step [OF i k] by blast
    with 1(4) obtain v where v: "validateName (TrimSpace (take (k - 2) (drop (i + 2) rest))) = None"
      "map_of vs (TrimSpace (take (k - 2) (drop (i + 2) rest))) = Some v" "list_all (tag_ok vs) segs'"
      by (force simp: tag_ok_def [of vs "(a, b)" for a b] tag_name_def)
    from 1(2) i k v(1,2) show ?thesis
      using "1.IH" [OF i k refl v(1,2) refl _ _ _ s(1) v(3)]
      by (auto simp: render_loop.simps [of vs esc rest] Let_def split: if_splits)
  qed
qed

text \<open>
  Tags lists exactly the names Render will look up, each once, in the order of their first
  use: when it succeeds and every listed name has a value, Render can fail only because the
  output grows past its limit or because the tags, counted with repetitions, are too many; and
  when Render succeeds on a template, Tags succeeds and lists only supplied names.
\<close>

theorem Render_Tags_agree:
  assumes "length variables \<le> MaxVariables"
    and "list_all (\<lambda>name. validateName name = None) (map fst variables)"
  shows "(\<forall>names. Tags tmpl = Inr names \<and> set names \<subseteq> fst ` set variables \<longrightarrow>
            (case Render tmpl variables escape of
               Inr out \<Rightarrow> True
             | Inl e \<Rightarrow> e = ErrTooManyTags \<or> e = ErrOutputTooLarge))
     \<and> (\<forall>out. Render tmpl variables escape = Inr out \<longrightarrow>
            (\<exists>names. Tags tmpl = Inr names \<and> distinct names \<and> set names \<subseteq> fst ` set variables))"
proof (intro conjI allI impI)
  have no: "List.find (\<lambda>name. validateName name \<noteq> None) (map fst variables) = None"
    using assms(2) unfolding find_None_iff_all by simp
  fix names assume t: "Tags tmpl = Inr names \<and> set names \<subseteq> fst ` set variables"
  then have loop: "tags_loop tmpl [] = Inr names" and len: "length tmpl \<le> MaxTemplateBytes"
    by (auto simp: Tags_def not_less split: if_splits)
  from loop obtain segs final where s: "parses_as tmpl segs final"
    "list_all (\<lambda>p. validateName (tag_name p) = None) segs" "names = new_names [] (map tag_name segs)"
    unfolding tags_loop_iff lists_tags_def by blast
  with t have "list_all (tag_ok variables) segs"
    by (auto simp: tag_ok_def list_all_iff map_of_eq_None_iff)
  with render_loop_errors s(1) show "case Render tmpl variables escape of
      Inr out \<Rightarrow> True | Inl e \<Rightarrow> e = ErrTooManyTags \<or> e = ErrOutputTooLarge"
    using no assms(1) len by (auto simp: Render_def split: sum.splits)
next
  fix out assume "Render tmpl variables escape = Inr out"
  then have "length tmpl \<le> MaxTemplateBytes" "render_loop variables escape tmpl [] 0 = Inr out"
    by (auto simp: Render_def split: if_splits option.splits)
  then obtain segs final where s: "parses_as tmpl segs final" "list_all (tag_ok variables) segs"
    "length segs \<le> MaxTags" and len: "length tmpl \<le> MaxTemplateBytes"
    unfolding render_loop_iff renders_def by (cases "length tmpl \<le> MaxTemplateBytes") fastforce+
  let ?names = "new_names [] (map tag_name segs)"
  have "list_all (\<lambda>p. validateName (tag_name p) = None) segs"
    using s(2) by (auto simp: tag_ok_def list_all_iff)
  moreover have "length ?names \<le> MaxTags"
    using length_new_names_le [of "[]" "map tag_name segs"] s(3) by simp
  ultimately have "tags_loop tmpl [] = Inr ?names"
    unfolding tags_loop_iff lists_tags_def using s(1) by blast
  with len have "Tags tmpl = Inr ?names" by (simp add: Tags_def)
  moreover have "set ?names \<subseteq> fst ` set variables"
    using s(2) by (force simp: tag_ok_def list_all_iff dest: map_of_SomeD)
  ultimately show "\<exists>names. Tags tmpl = Inr names \<and> distinct names \<and> set names \<subseteq> fst ` set variables"
    using distinct_new_names [of "[]"] by auto
qed

section \<open>Escaping\<close>

text \<open>The escapes of the characters are a prefix code.\<close>

lemma escape_char_code:
  "escape_char c @ x = escape_char d @ y \<Longrightarrow> c = d \<and> x = y"
  by (auto simp: escape_char_def split: if_splits)

text \<open>
  An escaped value carries no character that HTML gives a meaning to but the ampersands of
  its own entities, so it can neither open a tag nor leave a quoted attribute; and escaping
  loses nothing, two values with the same escaped form are the same value.
\<close>

theorem EscapeString_safe:
  "set (EscapeString s) \<inter> {CHR ''<'', CHR ''>'', CHR 0x22, CHR 0x27} = {}
   \<and> (EscapeString s = EscapeString s' \<longleftrightarrow> s = s')"
proof -
  have "set (escape_char c) \<inter> {CHR ''<'', CHR ''>'', CHR 0x22, CHR 0x27} = {}" for c
    by (auto simp: escape_char_def)
  then have "set (EscapeString s) \<inter> {CHR ''<'', CHR ''>'', CHR 0x22, CHR 0x27} = {}"
    unfolding EscapeString_def by (induction s) auto
  moreover have "EscapeString s = EscapeString s' \<Longrightarrow> s = s'"
  proof (induction s arbitrary: s')
    case Nil
    then show ?case by (cases s') (auto simp: EscapeString_def escape_char_def split: if_splits)
  next
    case (Cons c s)
    then obtain c' t where s': "s' = c' # t"
      by (cases s') (auto simp: EscapeString_def escape_char_def split: if_splits)
    with Cons.prems have "escape_char c @ EscapeString s = escape_char c' @ EscapeString t"
      by (simp add: EscapeString_def)
    with escape_char_code have "c = c' \<and> EscapeString s = EscapeString t" by blast
    with Cons.IH s' show ?case by simp
  qed
  ultimately show ?thesis by auto
qed

end
