(* ===== verification/Store_Base.thy ===== *)
theory Store_Base
  imports Go_Library
begin

text \<open>
  The database of internal/store as the SQL of its statements and the schema of migrations/ see
  it: one list of rows for each table, the clock that now() reads, the sequences of the serial
  columns. A statement is atomic. What the connection does to it is not the program's choice:
  the store carries a script of \<open>fate\<close>s, one for each round trip, and every result holds for
  every script. An empty script is a database that answers everything.
\<close>

section \<open>Errors\<close>

text \<open>
  A Go error. \<open>Wrapped p e\<close> is fmt.Errorf of \<open>p: %w\<close>; errors.Is looks through it.
\<close>

datatype go_error =
    ErrNotFound
  | ErrIdempotencyMismatch
  | ErrIdempotencyInFlight
  | Msg bytes
  | Wrapped bytes go_error

fun error_text :: "go_error \<Rightarrow> bytes" where
  "error_text ErrNotFound = ''not found''"
| "error_text ErrIdempotencyMismatch = ''idempotency key reused with a different request''"
| "error_text ErrIdempotencyInFlight = ''an identical request is in flight''"
| "error_text (Msg t) = t"
| "error_text (Wrapped p e) = p @ '': '' @ error_text e"

fun errors_is :: "go_error \<Rightarrow> go_error \<Rightarrow> bool" where
  "errors_is (Wrapped p e) t = (Wrapped p e = t \<or> errors_is e t)"
| "errors_is e t = (e = t)"

section \<open>Rows\<close>

datatype domain_status = Pending | Verified | Suspended

datatype message_status =
  Queued | Sending | Sent | Delivered | Deferred | Bounced | Failed | Cancelled

datatype delivery_status = DPending | DDelivering | DDelivered | DFailed

text \<open>The texts of the CHECK constraints.\<close>

definition domain_status_text :: "domain_status \<Rightarrow> bytes" where
  "domain_status_text x =
     (case x of Pending \<Rightarrow> ''pending'' | Verified \<Rightarrow> ''verified'' | Suspended \<Rightarrow> ''suspended'')"

definition status_text :: "message_status \<Rightarrow> bytes" where
  "status_text x =
     (case x of Queued \<Rightarrow> ''queued'' | Sending \<Rightarrow> ''sending'' | Sent \<Rightarrow> ''sent''
      | Delivered \<Rightarrow> ''delivered'' | Deferred \<Rightarrow> ''deferred'' | Bounced \<Rightarrow> ''bounced''
      | Failed \<Rightarrow> ''failed'' | Cancelled \<Rightarrow> ''cancelled'')"

record domain_row =
  d_id :: int
  d_name :: bytes
  d_token :: bytes
  d_status :: domain_status
  d_verified_at :: "instant option"
  d_last_checked_at :: "instant option"
  d_created_at :: instant

record key_row =
  k_id :: int
  k_name :: bytes
  k_prefix :: bytes
  k_secret_hash :: bytes
  k_scopes :: "bytes list"
  k_quota :: int
  k_expires_at :: instant
  k_revoked_at :: "instant option"
  k_last_used_at :: "instant option"
  k_last_used_ip :: "addr option"
  k_created_at :: instant

record message_row =
  m_id :: bytes
  m_api_key_id :: "int option"
  m_domain_id :: int
  m_status :: message_status
  m_from :: bytes
  m_recipients :: "bytes list option"
  m_encrypted :: "bytes option"
  m_hashes :: "bytes list"
  m_subject :: bytes
  m_html :: bytes
  m_text :: bytes
  m_headers :: bytes
  m_tags :: bytes
  m_attempts :: int
  m_scheduled_at :: "instant option"
  m_locked_until :: "instant option"
  m_last_error :: "bytes option"
  m_signed_at :: "instant option"
  m_created_at :: instant
  m_updated_at :: instant

record event_row =
  ev_id :: int
  ev_message_id :: bytes
  ev_type :: bytes
  ev_detail :: bytes
  ev_occurred_at :: instant

record idem_row =
  i_api_key_id :: int
  i_key :: bytes
  i_request_hash :: bytes
  i_message_id :: "bytes option"
  i_created_at :: instant
  i_expires_at :: instant

record endpoint_row =
  w_id :: int
  w_url :: bytes
  w_secret :: bytes
  w_active :: bool
  w_created_at :: instant

record delivery_row =
  l_id :: int
  l_endpoint_id :: int
  l_event_id :: bytes
  l_message_id :: "bytes option"
  l_payload :: bytes
  l_status :: delivery_status
  l_attempts :: int
  l_next_attempt :: instant
  l_locked_until :: "instant option"
  l_last_error :: "bytes option"
  l_created_at :: instant

record dkim_row =
  s_id :: int
  s_domain_id :: int
  s_selector :: bytes
  s_algorithm :: bytes
  s_wrapped :: bytes
  s_record :: bytes
  s_active :: bool
  s_created_at :: instant

record suppression_row =
  p_id :: int
  p_address :: bytes
  p_hash :: bytes
  p_reason :: bytes
  p_detail :: bytes
  p_message_id :: "bytes option"
  p_created_at :: instant

section \<open>The store\<close>

text \<open>
  \<open>Refused\<close>: the statement had no effect and the driver returned an error. \<open>Lost\<close>: the
  statement took effect and the connection broke before the answer arrived.
\<close>

datatype fate = Done | Refused bytes | Lost bytes

datatype table = Domains | Api_keys | Message_events | Webhook_endpoints | Webhook_deliveries
  | Dkim_keys | Suppressions

text \<open>The tables are finitely many, so stores can be compared by evaluation.\<close>

instantiation table :: enum
begin

definition "enum_table = [Domains, Api_keys, Message_events, Webhook_endpoints, Webhook_deliveries,
  Dkim_keys, Suppressions]"

definition "enum_all_table P \<longleftrightarrow> list_all P (enum_class.enum :: table list)"

definition "enum_ex_table P \<longleftrightarrow> list_ex P (enum_class.enum :: table list)"

instance
proof
  show "UNIV = set (enum_class.enum :: table list)"
    using table.exhaust by (auto simp: enum_table_def)
  then show "enum_class.enum_all P \<longleftrightarrow> Ball UNIV P" "enum_class.enum_ex P \<longleftrightarrow> Bex UNIV P"
    for P :: "table \<Rightarrow> bool"
    by (simp_all add: enum_all_table_def enum_ex_table_def list_all_iff list_ex_iff)
  show "distinct (enum_class.enum :: table list)" by (simp add: enum_table_def)
qed

end

record store =
  st_now :: instant
  st_fates :: "fate list"
  st_keeper :: "bytes option"          \<comment> \<open>the master key of the attached Envelope\<close>
  st_seq :: "table \<Rightarrow> int"
  st_domains :: "domain_row list"
  st_keys :: "key_row list"
  st_messages :: "message_row list"
  st_events :: "event_row list"
  st_idem :: "idem_row list"
  st_endpoints :: "endpoint_row list"
  st_deliveries :: "delivery_row list"
  st_dkim :: "dkim_row list"
  st_suppressions :: "suppression_row list"

definition empty_store :: store where
  "empty_store =
     \<lparr>st_now = 0, st_fates = [], st_keeper = None, st_seq = (\<lambda>_. 1), st_domains = [],
      st_keys = [], st_messages = [], st_events = [], st_idem = [], st_endpoints = [],
      st_deliveries = [], st_dkim = [], st_suppressions = []\<rparr>"

text \<open>The next value of a serial column.\<close>

definition nextval :: "table \<Rightarrow> store \<Rightarrow> int \<times> store" where
  "nextval t s = (st_seq s t, s\<lparr>st_seq := (st_seq s)(t := st_seq s t + 1)\<rparr>)"

text \<open>A parameter of type text: PostgreSQL refuses NUL and bytes that are not UTF-8.\<close>

definition text_ok :: "bytes \<Rightarrow> bool" where
  "text_ok s \<longleftrightarrow> CHR 0x00 \<notin> set s \<and> valid_utf8 s"

definition pg_encoding :: go_error where
  "pg_encoding = Msg ''ERROR: invalid byte sequence for encoding UTF8 (SQLSTATE 22021)''"
definition pg_foreign_key :: go_error where
  "pg_foreign_key = Msg ''ERROR: violates foreign key constraint (SQLSTATE 23503)''"
definition pg_unique :: go_error where
  "pg_unique = Msg ''ERROR: duplicate key value violates unique constraint (SQLSTATE 23505)''"
definition pg_check :: go_error where
  "pg_check = Msg ''ERROR: violates check constraint (SQLSTATE 23514)''"

text \<open>One round trip: the text parameters, then the statement's own result.\<close>

definition exec ::
  "bytes list \<Rightarrow> (store \<Rightarrow> go_error + 'a \<times> store) \<Rightarrow> store \<Rightarrow> (go_error + 'a) \<times> store" where
  "exec texts stmt s0 =
     (let (f, s) = (case st_fates s0 of [] \<Rightarrow> (Done, s0)
                      | f # fs \<Rightarrow> (f, s0\<lparr>st_fates := fs\<rparr>)) in
      if \<not> list_all text_ok texts then (Inl pg_encoding, s)
      else case f of
        Refused e \<Rightarrow> (Inl (Msg e), s)
      | Done \<Rightarrow> (case stmt s of Inl e \<Rightarrow> (Inl e, s) | Inr (a, s') \<Rightarrow> (Inr a, s'))
      | Lost e \<Rightarrow> (case stmt s of Inl e' \<Rightarrow> (Inl e', s) | Inr (a, s') \<Rightarrow> (Inl (Msg e), s')))"

text \<open>Pool.Exec when only the error matters, with the text the caller wraps it in.\<close>

definition run_wrapped ::
  "bytes \<Rightarrow> bytes list \<Rightarrow> (store \<Rightarrow> go_error + 'a \<times> store) \<Rightarrow> store \<Rightarrow> (go_error + 'a) \<times> store" where
  "run_wrapped what texts stmt s =
     (case exec texts stmt s of
        (Inl e, s') \<Rightarrow> (Inl (Wrapped what e), s')
      | (Inr a, s') \<Rightarrow> (Inr a, s'))"

text \<open>UPDATE t SET f WHERE p.\<close>

definition update_where :: "('r \<Rightarrow> bool) \<Rightarrow> ('r \<Rightarrow> 'r) \<Rightarrow> 'r list \<Rightarrow> 'r list" where
  "update_where p f rows = map (\<lambda>r. if p r then f r else r) rows"

text \<open>A statement that changes the tables and cannot violate a constraint; a query.\<close>

definition stmt_update :: "(store \<Rightarrow> store) \<Rightarrow> store \<Rightarrow> go_error + unit \<times> store" where
  "stmt_update f s = Inr ((), f s)"

definition stmt_query :: "(store \<Rightarrow> 'a) \<Rightarrow> store \<Rightarrow> go_error + 'a \<times> store" where
  "stmt_query f s = Inr (f s, s)"

section \<open>Lemmas\<close>

text \<open>The script is consumed whatever happens; \<open>tail_fates\<close> is the store a statement starts in.\<close>

definition tail_fates :: "store \<Rightarrow> store" where
  "tail_fates s = s\<lparr>st_fates := tl (st_fates s)\<rparr>"

lemma tail_fates_sel [simp]:
  "st_now (tail_fates s) = st_now s" "st_keeper (tail_fates s) = st_keeper s"
  "st_seq (tail_fates s) = st_seq s" "st_domains (tail_fates s) = st_domains s"
  "st_keys (tail_fates s) = st_keys s" "st_messages (tail_fates s) = st_messages s"
  "st_events (tail_fates s) = st_events s" "st_idem (tail_fates s) = st_idem s"
  "st_endpoints (tail_fates s) = st_endpoints s"
  "st_deliveries (tail_fates s) = st_deliveries s" "st_dkim (tail_fates s) = st_dkim s"
  "st_suppressions (tail_fates s) = st_suppressions s"
  "st_fates (tail_fates s) = tl (st_fates s)"
  by (simp_all add: tail_fates_def)

text \<open>
  The four ways a round trip ends. Every proof about a store operation splits on this rule and
  never looks at the script again.
\<close>

lemma exec_cases:
  obtains (refused) e where "exec texts stmt s = (Inl e, tail_fates s)"
  | (violated) e where "list_all text_ok texts" "stmt (tail_fates s) = Inl e"
      "exec texts stmt s = (Inl e, tail_fates s)"
  | (answered) a s' where "list_all text_ok texts" "stmt (tail_fates s) = Inr (a, s')"
      "exec texts stmt s = (Inr a, s')"
  | (lost) a s' e where "list_all text_ok texts" "stmt (tail_fates s) = Inr (a, s')"
      "exec texts stmt s = (Inl e, s')"
proof -
  have t: "(case st_fates s of [] \<Rightarrow> (Done, s) | f # fs \<Rightarrow> (f, s\<lparr>st_fates := fs\<rparr>))
      = (case st_fates s of [] \<Rightarrow> Done | f # fs \<Rightarrow> f, tail_fates s)"
    by (cases "st_fates s") (simp_all add: tail_fates_def)
  show thesis
    using refused violated answered lost unfolding exec_def t
    by (cases "list_all text_ok texts"; cases "case st_fates s of [] \<Rightarrow> Done | f # fs \<Rightarrow> f";
        cases "stmt (tail_fates s)") auto
qed

lemma exec_answering:
  assumes "st_fates s = []" "list_all text_ok texts"
  shows "exec texts stmt s =
    (case stmt s of Inl e \<Rightarrow> (Inl e, s) | Inr (a, s') \<Rightarrow> (Inr a, s'))"
  using assms by (simp add: exec_def)

lemma run_wrapped_answering:
  assumes "st_fates s = []" "list_all text_ok texts"
  shows "run_wrapped what texts stmt s =
    (case stmt s of Inl e \<Rightarrow> (Inl (Wrapped what e), s) | Inr (a, s') \<Rightarrow> (Inr a, s'))"
  using assms by (simp add: run_wrapped_def exec_answering split: sum.splits)

lemma run_wrapped_cases:
  obtains (refused) e where "run_wrapped what texts stmt s = (Inl e, tail_fates s)"
  | (answered) a s' where "list_all text_ok texts" "stmt (tail_fates s) = Inr (a, s')"
      "run_wrapped what texts stmt s = (Inr a, s')"
  | (lost) a s' e where "list_all text_ok texts" "stmt (tail_fates s) = Inr (a, s')"
      "run_wrapped what texts stmt s = (Inl e, s')"
  by (rule exec_cases [of texts stmt s]) (auto simp: run_wrapped_def)

text \<open>A relation that holds across the script's step and the statement holds across the trip.\<close>

lemma run_wrapped_rel:
  assumes "R s (tail_fates s)"
    and "\<And>a s'. stmt (tail_fates s) = Inr (a, s') \<Longrightarrow> R s s'"
  shows "R s (snd (run_wrapped what texts stmt s))"
  by (rule run_wrapped_cases [of what texts stmt s]) (use assms in auto)

lemma run_wrapped_InrD:
  assumes "run_wrapped what texts stmt s = (Inr a, s')"
  shows "list_all text_ok texts \<and> stmt (tail_fates s) = Inr (a, s')"
  by (rule run_wrapped_cases [of what texts stmt s]) (use assms in auto)

lemma run_wrapped_fates:
  assumes "\<And>a s'. stmt (tail_fates s) = Inr (a, s') \<Longrightarrow> st_fates s' = tl (st_fates s)"
  shows "st_fates (snd (run_wrapped what texts stmt s)) = tl (st_fates s)"
  by (rule run_wrapped_cases [of what texts stmt s]) (use assms in auto)

text \<open>A query leaves the tables alone, answered or not; answered, it is evaluated on them.\<close>

lemma snd_query [simp]: "snd (run_wrapped what texts (stmt_query q) s) = tail_fates s"
  by (rule run_wrapped_cases [of what texts "stmt_query q" s]) (auto simp: stmt_query_def)

lemma query_InrD:
  "run_wrapped what texts (stmt_query q) s = (Inr a, s') \<Longrightarrow> a = q (tail_fates s) \<and> s' = tail_fates s"
  by (drule run_wrapped_InrD) (auto simp: stmt_query_def)

lemma update_where_simps [simp]:
  "update_where p f [] = []"
  "update_where p f (r # rows) = (if p r then f r else r) # update_where p f rows"
  by (simp_all add: update_where_def)

lemma length_update_where [simp]: "length (update_where p f rows) = length rows"
  by (simp add: update_where_def)

lemma set_update_where:
  "set (update_where p f rows) = (\<lambda>r. if p r then f r else r) ` set rows"
  by (simp add: update_where_def)

lemma map_update_where:
  assumes "\<And>r. k (f r) = k r"
  shows "map k (update_where p f rows) = map k rows"
  using assms by (simp add: update_where_def)

lemma update_where_none:
  assumes "\<And>r. r \<in> set rows \<Longrightarrow> \<not> p r"
  shows "update_where p f rows = rows"
  using assms by (induction rows) auto

lemma find_update_where:
  assumes "\<And>r. k (f r) = k r"
  shows "List.find (\<lambda>r. k r = x) (update_where p f rows)
    = map_option (\<lambda>r. if p r then f r else r) (List.find (\<lambda>r. k r = x) rows)"
  using assms by (induction rows) auto

text \<open>UTF-8 and text parameters.\<close>

lemma text_ok_ascii: "is_ascii s \<Longrightarrow> CHR 0x00 \<notin> set s \<Longrightarrow> text_ok s"
  by (simp add: text_ok_def valid_utf8_ascii)

end
