(* ===== verification/Envelope.thy ===== *)
theory Envelope
  imports Store_Base
begin

text \<open>
  Package crypto, internal/crypto/envelope.go: AES-256-GCM under the master key. A ciphertext is
  the nonce followed by the sealed body. The cipher is the library's; its one documented law the
  results use, that opening what was sealed gives it back, is the hypothesis \<open>gcm_law\<close>.
\<close>

section \<open>Model\<close>

definition ErrNoPlaintext :: go_error where "ErrNoPlaintext = Msg ''nothing to encrypt''"
definition ErrBadCiphertext :: go_error where
  "ErrBadCiphertext = Msg ''value could not be decrypted''"

definition nonce_size :: nat where "nonce_size = 12"

text \<open>An Envelope is its master key; the ciphers of a 32-byte key always exist.\<close>

definition NewEnvelope :: "bytes \<Rightarrow> go_error + bytes" where
  "NewEnvelope masterKey =
     (if length masterKey \<noteq> 32 then
        Inl (Msg (''master key must be 32 bytes, got '' @ itoa_nat (length masterKey)))
      else Inr masterKey)"

text \<open>io.ReadFull from a source that fails or holds the given bytes.\<close>

definition ReadFull :: "nat \<Rightarrow> go_error + bytes \<Rightarrow> go_error + bytes" where
  "ReadFull n source =
     (case source of
        Inl e \<Rightarrow> Inl e
      | Inr b \<Rightarrow>
          if length b < n then Inl (Msg (if b = [] then ''EOF'' else ''unexpected EOF'')) else Inr (take n b))"

text \<open>The second argument is what rand.Reader gives: an error, or the bytes of the nonce.\<close>

definition Wrap :: "golib \<Rightarrow> go_error + bytes \<Rightarrow> bytes \<Rightarrow> bytes \<Rightarrow> go_error + bytes" where
  "Wrap L rand key plaintext =
     (if plaintext = [] then Inl ErrNoPlaintext
      else case ReadFull nonce_size rand of
        Inl e \<Rightarrow> Inl (Wrapped ''generating nonce'' e)
      | Inr nonce \<Rightarrow> Inr (nonce @ gcm_seal L key nonce plaintext))"

definition Unwrap :: "golib \<Rightarrow> bytes \<Rightarrow> bytes \<Rightarrow> go_error + bytes" where
  "Unwrap L key ciphertext =
     (if length ciphertext < nonce_size then Inl ErrBadCiphertext
      else case gcm_open L key (take nonce_size ciphertext) (drop nonce_size ciphertext) of
        None \<Rightarrow> Inl ErrBadCiphertext
      | Some plaintext \<Rightarrow> Inr plaintext)"

section \<open>Properties\<close>

definition gcm_law :: "golib \<Rightarrow> bool" where
  "gcm_law L \<longleftrightarrow> (\<forall>k n p. gcm_open L k n (gcm_seal L k n p) = Some p)"

lemma gcm_law_sample: "gcm_law sample_lib"
  by (simp add: gcm_law_def sample_lib_def)

lemma Wrap_InrD:
  assumes "Wrap L rand key p = Inr c"
  obtains nonce where "p \<noteq> []" "length nonce = nonce_size" "c = nonce @ gcm_seal L key nonce p"
  using assms by (auto simp: Wrap_def ReadFull_def split: if_splits sum.splits)

lemma ReadFull_exact [simp]: "length b = n \<Longrightarrow> ReadFull n (Inr b) = Inr b"
  by (simp add: ReadFull_def)

text \<open>
  Unwrap gives back what Wrap sealed, for every plaintext and every nonce of twelve bytes,
  and the two sides fail only as documented: nothing to seal, a ciphertext shorter than a nonce,
  or one the cipher refuses.
\<close>

theorem Unwrap_Wrap:
  assumes "gcm_law L" "length nonce = nonce_size"
  shows "Wrap L (Inr nonce) key p =
           (if p = [] then Inl ErrNoPlaintext else Inr (nonce @ gcm_seal L key nonce p))
     \<and> (\<forall>c. Wrap L (Inr nonce) key p = Inr c \<longrightarrow> Unwrap L key c = Inr p)
     \<and> (\<forall>c e. Unwrap L key c = Inl e \<longrightarrow> e = ErrBadCiphertext)"
  using assms by (auto simp: Wrap_def Unwrap_def gcm_law_def split: option.splits)

end
