(* ===== verification/Store_Suppressions.thy ===== *)
theory Store_Suppressions
  imports Envelope
begin

text \<open>
  internal/store/suppressions.go: the addresses that must not be written to again, found by the
  hash of their normal form.
\<close>

section \<open>Model\<close>

definition normalizeAddress :: "golib \<Rightarrow> bytes \<Rightarrow> bytes" where
  "normalizeAddress L address = ToLower L (TrimSpace address)"

definition SuppressionHash :: "golib \<Rightarrow> bytes \<Rightarrow> bytes" where
  "SuppressionHash L address = sha256 L (normalizeAddress L address)"

record suppression =
  sup_address :: bytes
  sup_reason :: bytes
  sup_detail :: bytes
  sup_created_at :: instant

text \<open>The CHECK constraint on the column reason.\<close>

definition suppression_reasons :: "bytes list" where
  "suppression_reasons = [''hard_bounce'', ''complaint'', ''manual'', ''unsubscribe'', ''spam_trap'']"

text \<open>
  The INSERT of Suppress: the CHECK constraint first, then the conflict on address_hash, and the
  reference to messages only for a row that is inserted.
\<close>

definition insert_suppression ::
  "golib \<Rightarrow> bytes \<Rightarrow> bytes \<Rightarrow> bytes \<Rightarrow> bytes \<Rightarrow> store \<Rightarrow> go_error + unit \<times> store" where
  "insert_suppression L address reason detail messageID s =
     (let (i, s1) = nextval Suppressions s;
          h = SuppressionHash L address;
          ref = (if messageID = [] then None else Some messageID) in
      if reason \<notin> set suppression_reasons then Inl pg_check
      else if h \<in> p_hash ` set (st_suppressions s) then Inr ((), s1)
      else if ref \<noteq> None \<and> messageID \<notin> m_id ` set (st_messages s) then Inl pg_foreign_key
      else Inr ((), s1\<lparr>st_suppressions := st_suppressions s1 @
             [\<lparr>p_id = i, p_address = normalizeAddress L address, p_hash = h, p_reason = reason,
               p_detail = detail, p_message_id = ref, p_created_at = st_now s1\<rparr>]\<rparr>))"

definition Suppress ::
  "golib \<Rightarrow> bytes \<Rightarrow> bytes \<Rightarrow> bytes \<Rightarrow> bytes \<Rightarrow> store \<Rightarrow> (go_error + unit) \<times> store" where
  "Suppress L address reason detail messageID s =
     run_wrapped ''suppressing address'' [normalizeAddress L address, reason, detail, messageID]
       (insert_suppression L address reason detail messageID) s"

definition IsSuppressed :: "golib \<Rightarrow> bytes \<Rightarrow> store \<Rightarrow> (go_error + bool) \<times> store" where
  "IsSuppressed L address s =
     run_wrapped ''checking suppression'' []
       (stmt_query (\<lambda>s. list_ex (\<lambda>r. p_hash r = SuppressionHash L address) (st_suppressions s))) s"

definition FilterSuppressed ::
  "golib \<Rightarrow> bytes list \<Rightarrow> store \<Rightarrow> (go_error + bytes list \<times> bytes list) \<times> store" where
  "FilterSuppressed L addresses s =
     (if addresses = [] then (Inr ([], []), s)
      else
        let hashes = map (SuppressionHash L) addresses in
        case run_wrapped ''loading suppressions'' []
               (stmt_query (\<lambda>s. filter (\<lambda>h. h \<in> set hashes) (map p_hash (st_suppressions s)))) s of
          (Inl e, s') \<Rightarrow> (Inl e, s')
        | (Inr found, s') \<Rightarrow>
            (Inr (filter (\<lambda>a. SuppressionHash L a \<notin> set found) addresses,
                  filter (\<lambda>a. SuppressionHash L a \<in> set found) addresses), s'))"

definition Unsuppress :: "golib \<Rightarrow> bytes \<Rightarrow> store \<Rightarrow> (go_error + unit) \<times> store" where
  "Unsuppress L address s =
     run_wrapped ''removing suppression'' []
       (stmt_update (\<lambda>s. s\<lparr>st_suppressions :=
          filter (\<lambda>r. p_hash r \<noteq> SuppressionHash L address) (st_suppressions s)\<rparr>)) s"

definition ListSuppressions :: "nat \<Rightarrow> store \<Rightarrow> (go_error + suppression list) \<times> store" where
  "ListSuppressions limit s =
     run_wrapped ''listing suppressions'' []
       (stmt_query (\<lambda>s. map (\<lambda>r. \<lparr>sup_address = p_address r, sup_reason = p_reason r,
                                  sup_detail = p_detail r, sup_created_at = p_created_at r\<rparr>)
          (take limit (sort_key (\<lambda>r. - p_created_at r) (st_suppressions s))))) s"

section \<open>The contract\<close>

text \<open>
  What the API and the worker rely on: a list of addresses up to an equivalence, to which an
  answered call adds or from which it removes one class, and a filter that splits by membership
  and keeps the order.
\<close>

locale suppression_list =
  fixes suppress :: "bytes \<Rightarrow> bytes \<Rightarrow> bytes \<Rightarrow> bytes \<Rightarrow> 's \<Rightarrow> (go_error + unit) \<times> 's"
    and unsuppress :: "bytes \<Rightarrow> 's \<Rightarrow> (go_error + unit) \<times> 's"
    and split :: "bytes list \<Rightarrow> 's \<Rightarrow> (go_error + bytes list \<times> bytes list) \<times> 's"
    and listed :: "'s \<Rightarrow> bytes \<Rightarrow> bool"
    and same :: "bytes \<Rightarrow> bytes \<Rightarrow> bool"
  assumes same_refl: "same a a"
    and suppress_answered:
      "suppress a r d m s = (Inr (), s') \<Longrightarrow> listed s' b \<longleftrightarrow> listed s b \<or> same a b"
    and suppress_only_adds:
      "listed s b \<Longrightarrow> listed (snd (suppress a r d m s)) b"
    and unsuppress_answered:
      "unsuppress a s = (Inr (), s') \<Longrightarrow> listed s' b \<longleftrightarrow> listed s b \<and> \<not> same a b"
    and unsuppress_only_its_own:
      "listed s b \<Longrightarrow> \<not> same a b \<Longrightarrow> listed (snd (unsuppress a s)) b"
    and split_answered:
      "split xs s = (Inr (al, bl), s') \<Longrightarrow>
         al = filter (\<lambda>x. \<not> listed s x) xs \<and> bl = filter (listed s) xs"
    and split_changes_nothing: "listed (snd (split xs s)) b \<longleftrightarrow> listed s b"
begin

text \<open>The operations a run of the program makes on the list, in any order, answered or not.\<close>

fun run_op ::
  "(bytes \<times> bytes \<times> bytes \<times> bytes) + bytes + bytes list \<Rightarrow> 's \<Rightarrow> 's" where
  "run_op (Inl (a, r, d, m)) s = snd (suppress a r d m s)"
| "run_op (Inr (Inl a)) s = snd (unsuppress a s)"
| "run_op (Inr (Inr xs)) s = snd (split xs s)"

definition spares :: "bytes \<Rightarrow> (bytes \<times> bytes \<times> bytes \<times> bytes) + bytes + bytes list \<Rightarrow> bool" where
  "spares b op \<longleftrightarrow> (case op of Inr (Inl a) \<Rightarrow> \<not> same a b | _ \<Rightarrow> True)"

lemma listed_run:
  assumes "listed s b" "list_all (spares b) ops"
  shows "listed (fold run_op ops s) b"
  using assms
proof (induction ops arbitrary: s)
  case (Cons op ops)
  have "listed (run_op op s) b"
    using Cons.prems suppress_only_adds unsuppress_only_its_own split_changes_nothing
    by (cases "(op, s)" rule: run_op.cases) (auto simp: spares_def)
  with Cons show ?case by simp
qed simp

lemma stays_blocked:
  assumes "suppress a r d m s = (Inr (), s1)" "same a b" "list_all (spares b) ops"
    and "split xs (fold run_op ops s1) = (Inr (al, bl), s')"
  shows "b \<notin> set al" and "b \<in> set xs \<Longrightarrow> b \<in> set bl"
proof -
  have "listed s1 b" using suppress_answered [OF assms(1)] assms(2) by simp
  then have "listed (fold run_op ops s1) b" using assms(3) by (rule listed_run)
  then show "b \<notin> set al" and "b \<in> set xs \<Longrightarrow> b \<in> set bl"
    using split_answered [OF assms(4)] by auto
qed

end

section \<open>The store keeps the contract\<close>

definition listed :: "golib \<Rightarrow> store \<Rightarrow> bytes \<Rightarrow> bool" where
  "listed L s a \<longleftrightarrow> SuppressionHash L a \<in> p_hash ` set (st_suppressions s)"

definition same_address :: "golib \<Rightarrow> bytes \<Rightarrow> bytes \<Rightarrow> bool" where
  "same_address L a b \<longleftrightarrow> SuppressionHash L a = SuppressionHash L b"

lemma insert_suppression_hashes:
  assumes "insert_suppression L a r d m s = Inr ((), s')"
  shows "p_hash ` set (st_suppressions s') = insert (SuppressionHash L a) (p_hash ` set (st_suppressions s))"
  using assms
  by (auto simp: insert_suppression_def nextval_def Let_def split: if_splits)

lemma Suppress_answered:
  assumes "Suppress L a r d m s = (Inr (), s')"
  shows "listed L s' b \<longleftrightarrow> listed L s b \<or> same_address L a b"
  using insert_suppression_hashes [of L a r d m "tail_fates s" s'] run_wrapped_InrD [OF assms [unfolded Suppress_def]]
  by (auto simp: listed_def same_address_def)

lemma Suppress_only_adds:
  assumes "listed L s b"
  shows "listed L (snd (Suppress L a r d m s)) b"
  unfolding Suppress_def
  by (rule run_wrapped_rel [where R = "\<lambda>s s'. listed L s' b"])
     (use assms insert_suppression_hashes in \<open>auto simp: listed_def\<close>)

lemma Unsuppress_answered:
  assumes "Unsuppress L a s = (Inr (), s')"
  shows "listed L s' b \<longleftrightarrow> listed L s b \<and> \<not> same_address L a b"
  using run_wrapped_InrD [OF assms [unfolded Unsuppress_def]]
  by (auto simp: stmt_update_def listed_def same_address_def)

lemma Unsuppress_only_its_own:
  assumes "listed L s b" "\<not> same_address L a b"
  shows "listed L (snd (Unsuppress L a s)) b"
  unfolding Unsuppress_def
  by (rule run_wrapped_rel [where R = "\<lambda>s s'. listed L s' b"])
     (use assms in \<open>auto simp: listed_def same_address_def stmt_update_def\<close>)

lemma FilterSuppressed_answered:
  assumes "FilterSuppressed L xs s = (Inr (al, bl), s')"
  shows "al = filter (\<lambda>x. \<not> listed L s x) xs \<and> bl = filter (listed L s) xs"
proof (cases "xs = []")
  case False
  with assms obtain found where
    f: "run_wrapped ''loading suppressions'' [] (stmt_query (\<lambda>s. filter
          (\<lambda>h. h \<in> set (map (SuppressionHash L) xs)) (map p_hash (st_suppressions s)))) s = (Inr found, s')"
    and "al = filter (\<lambda>a. SuppressionHash L a \<notin> set found) xs"
    and "bl = filter (\<lambda>a. SuppressionHash L a \<in> set found) xs"
    by (auto simp: FilterSuppressed_def Let_def split: prod.splits sum.splits)
  moreover from run_wrapped_InrD [OF f]
  have "SuppressionHash L a \<in> set found \<longleftrightarrow> listed L s a" if "a \<in> set xs" for a
    using that by (auto simp: stmt_query_def listed_def) (metis imageI)
  ultimately show ?thesis by (auto intro: filter_cong)
qed (use assms in \<open>simp add: FilterSuppressed_def\<close>)

lemma FilterSuppressed_frame: "listed L (snd (FilterSuppressed L xs s)) b \<longleftrightarrow> listed L s b"
  by (auto simp: FilterSuppressed_def Let_def case_prod_unfold listed_def split: sum.splits)

interpretation suppressions: suppression_list
  "Suppress L" "Unsuppress L" "FilterSuppressed L" "listed L" "same_address L" for L
  by unfold_locales
     (simp add: same_address_def,
      rule Suppress_answered, assumption, rule Suppress_only_adds, assumption,
      rule Unsuppress_answered, assumption, rule Unsuppress_only_its_own, assumption, assumption,
      rule FilterSuppressed_answered, assumption, rule FilterSuppressed_frame)

section \<open>Properties\<close>

text \<open>
  C30. Once Suppress has answered for an address, FilterSuppressed puts every address with the
  same normal form (case and surrounding white space ignored) among the blocked ones, whatever
  calls are made in between, as long as none of them removes it, and even when any of them
  fails; the allowed and the blocked addresses are the ones passed in, in their order.
\<close>

theorem Suppress_is_lasting:
  assumes "Suppress L a reason detail messageID s = (Inr (), s1)"
    and "normalizeAddress L b = normalizeAddress L a"
    and "list_all (suppressions.spares L b) ops"
    and "FilterSuppressed L xs (fold (suppressions.run_op L) ops s1) = (Inr (allowed, blocked), s')"
  shows "b \<notin> set allowed \<and> (b \<in> set xs \<longrightarrow> b \<in> set blocked)
     \<and> (\<exists>P. allowed = filter (\<lambda>x. \<not> P x) xs \<and> blocked = filter P xs)"
proof -
  have "same_address L a b" using assms(2) by (simp add: same_address_def SuppressionHash_def)
  from suppressions.stays_blocked [OF assms(1) this assms(3,4)] FilterSuppressed_answered [OF assms(4)]
  show ?thesis by blast
qed

definition sample_suppressed :: store where
  "sample_suppressed = snd (Suppress sample_lib ''Ann@Example.org'' ''manual'' [] [] empty_store)"

lemma Suppress_is_lasting_witness:
  "''ann@example.org'' \<notin> set [''bob@example.org'']
   \<and> FilterSuppressed sample_lib [''bob@example.org'', ''ann@example.org''] sample_suppressed
     = (Inr ([''bob@example.org''], [''ann@example.org'']), sample_suppressed)"
proof -
  have s: "Suppress sample_lib ''Ann@Example.org'' ''manual'' [] [] empty_store = (Inr (), sample_suppressed)"
    by code_simp
  have n: "normalizeAddress sample_lib ''ann@example.org'' = normalizeAddress sample_lib ''Ann@Example.org''"
    by code_simp
  have f: "FilterSuppressed sample_lib [''bob@example.org'', ''ann@example.org''] sample_suppressed
      = (Inr ([''bob@example.org''], [''ann@example.org'']), sample_suppressed)"
    by code_simp
  then show ?thesis using Suppress_is_lasting [OF s n, of "[]" "[''bob@example.org'', ''ann@example.org'']"]
    by simp
qed

end
