(* ===== verification/Store_Messages.thy ===== *)
theory Store_Messages
  imports Store_Suppressions
begin

text \<open>
  internal/store: messages.go, recipients.go and queue.go. A message is accepted by
  EnqueueMessage in one transaction, claimed by ClaimMessages and moved on by the Mark
  operations; RecordEvent appends to its history.
\<close>

section \<open>Recipients\<close>

text \<open>
  packRecipients: ciphertext, hashes, clear text. \<open>rand\<close> is the nonce the keeper draws.
\<close>

definition packRecipients ::
  "golib \<Rightarrow> go_error + bytes \<Rightarrow> bytes option \<Rightarrow> bytes list
   \<Rightarrow> go_error + bytes option \<times> bytes list \<times> bytes list option" where
  "packRecipients L rand keeper recipients =
     (let hashes = map (SuppressionHash L) recipients in
      case keeper of
        None \<Rightarrow> Inr (None, hashes, Some recipients)
      | Some key \<Rightarrow>
          (case Wrap L rand key (json_strings_enc L recipients) of
             Inl e \<Rightarrow> Inl (Wrapped ''encrypting recipients'' e)
           | Inr encrypted \<Rightarrow> Inr (Some encrypted, hashes, None)))"

definition unpackRecipients ::
  "golib \<Rightarrow> bytes option \<Rightarrow> bytes option \<Rightarrow> bytes list option \<Rightarrow> go_error + bytes list" where
  "unpackRecipients L keeper encrypted clear =
     (case encrypted of
        None \<Rightarrow> Inr (case clear of None \<Rightarrow> [] | Some rs \<Rightarrow> rs)
      | Some [] \<Rightarrow> Inr (case clear of None \<Rightarrow> [] | Some rs \<Rightarrow> rs)
      | Some ciphertext \<Rightarrow>
          (case keeper of
             None \<Rightarrow> Inl (Msg ''recipients are encrypted but no master key is configured'')
           | Some key \<Rightarrow>
               (case Unwrap L key ciphertext of
                  Inl e \<Rightarrow> Inl (Wrapped ''decrypting recipients'' e)
                | Inr payload \<Rightarrow>
                    (case json_strings_dec L payload of
                       None \<Rightarrow> Inl (Msg ''decoding recipients: invalid JSON'')
                     | Some recipients \<Rightarrow> Inr recipients))))"

section \<open>Accepting a message\<close>

record domain =
  dom_id :: int
  dom_name :: bytes
  dom_status :: domain_status

definition DomainByName :: "bytes \<Rightarrow> store \<Rightarrow> (go_error + domain) \<times> store" where
  "DomainByName name s =
     (case run_wrapped ''loading domain'' [name]
             (stmt_query (\<lambda>s. List.find (\<lambda>d. d_name d = name) (st_domains s))) s of
        (Inl e, s') \<Rightarrow> (Inl e, s')
      | (Inr None, s') \<Rightarrow> (Inl ErrNotFound, s')
      | (Inr (Some d), s') \<Rightarrow>
          (Inr \<lparr>dom_id = d_id d, dom_name = d_name d, dom_status = d_status d\<rparr>, s'))"

record new_message =
  n_id :: bytes
  n_api_key_id :: int
  n_domain_id :: int
  n_from :: bytes
  n_recipients :: "bytes list"
  n_subject :: bytes
  n_html :: bytes
  n_text :: bytes
  n_headers :: bytes
  n_tags :: bytes
  n_scheduled_at :: "instant option"
  n_idempotency_key :: bytes
  n_request_hash :: bytes

record message =
  msg_id :: bytes
  msg_status :: message_status
  msg_created_at :: instant

definition message_of :: "message_row \<Rightarrow> message" where
  "message_of m = \<lparr>msg_id = m_id m, msg_status = m_status m, msg_created_at = m_created_at m\<rparr>"

text \<open>A rolled back transaction leaves the tables as they were; the script is not rewound.\<close>

definition rollback :: "store \<Rightarrow> store \<Rightarrow> store" where
  "rollback s0 s = s0\<lparr>st_fates := st_fates s\<rparr>"

text \<open>Commit: what the transaction did in \<open>s\<close> becomes visible over \<open>s0\<close>, or not.\<close>

definition commit :: "bytes \<Rightarrow> store \<Rightarrow> store \<Rightarrow> (go_error + unit) \<times> store" where
  "commit what s0 s =
     run_wrapped what [] (\<lambda>t. Inr ((), s\<lparr>st_fates := st_fates t\<rparr>)) (rollback s0 s)"

text \<open>The INSERT of claimIdempotency: whether a row was inserted.\<close>

definition insert_idempotency :: "new_message \<Rightarrow> store \<Rightarrow> go_error + bool \<times> store" where
  "insert_idempotency in' s =
     (if list_ex (\<lambda>r. i_api_key_id r = n_api_key_id in' \<and> i_key r = n_idempotency_key in') (st_idem s)
      then Inr (False, s)
      else if n_api_key_id in' \<notin> k_id ` set (st_keys s) then Inl pg_foreign_key
      else Inr (True, s\<lparr>st_idem := st_idem s @
             [\<lparr>i_api_key_id = n_api_key_id in', i_key = n_idempotency_key in',
               i_request_hash = n_request_hash in', i_message_id = None,
               i_created_at = st_now s, i_expires_at = st_now s + 24 * Hour\<rparr>]\<rparr>))"

text \<open>The SELECT of claimIdempotency: the stored hash and the message it joins to.\<close>

definition load_idempotency ::
  "new_message \<Rightarrow> store \<Rightarrow> (bytes \<times> message option) option" where
  "load_idempotency in' s =
     (case List.find (\<lambda>r. i_api_key_id r = n_api_key_id in' \<and> i_key r = n_idempotency_key in') (st_idem s) of
        None \<Rightarrow> None
      | Some r \<Rightarrow>
          Some (i_request_hash r,
                (case i_message_id r of
                   None \<Rightarrow> None
                 | Some i \<Rightarrow> map_option message_of (List.find (\<lambda>m. m_id m = i) (st_messages s)))))"

definition equalBytes :: "bytes \<Rightarrow> bytes \<Rightarrow> bool" where
  "equalBytes a b \<longleftrightarrow> length a = length b \<and> list_all (\<lambda>i. a ! i = b ! i) [0..<length a]"

lemma equalBytes_iff [simp]: "equalBytes a b \<longleftrightarrow> a = b"
  unfolding equalBytes_def list_all_iff list_eq_iff_nth_eq [of a b] by auto

definition claimIdempotency ::
  "new_message \<Rightarrow> store \<Rightarrow> (go_error + message option) \<times> store" where
  "claimIdempotency in' s =
     (case run_wrapped ''claiming idempotency key'' [n_idempotency_key in'] (insert_idempotency in') s of
        (Inl e, s1) \<Rightarrow> (Inl e, s1)
      | (Inr True, s1) \<Rightarrow> (Inr None, s1)
      | (Inr False, s1) \<Rightarrow>
          (case run_wrapped ''loading idempotency record'' [n_idempotency_key in']
                  (stmt_query (load_idempotency in')) s1 of
             (Inl e, s2) \<Rightarrow> (Inl e, s2)
           | (Inr None, s2) \<Rightarrow> (Inl (Msg ''loading idempotency record: no rows in result set''), s2)
           | (Inr (Some (storedHash, existing)), s2) \<Rightarrow>
               if \<not> equalBytes storedHash (n_request_hash in') then (Inl ErrIdempotencyMismatch, s2)
               else (case existing of
                       None \<Rightarrow> (Inl ErrIdempotencyInFlight, s2)
                     | Some m \<Rightarrow> (Inr (Some m), s2))))"

definition new_row ::
  "new_message \<Rightarrow> bytes option \<Rightarrow> bytes list \<Rightarrow> bytes list option \<Rightarrow> bytes \<Rightarrow> bytes \<Rightarrow> instant \<Rightarrow> message_row" where
  "new_row in' encrypted hashes clear headers tags now =
     \<lparr>m_id = n_id in', m_api_key_id = Some (n_api_key_id in'), m_domain_id = n_domain_id in',
      m_status = Queued, m_from = n_from in', m_recipients = clear, m_encrypted = encrypted,
      m_hashes = hashes, m_subject = n_subject in', m_html = n_html in', m_text = n_text in',
      m_headers = headers, m_tags = tags, m_attempts = 0, m_scheduled_at = n_scheduled_at in',
      m_locked_until = None, m_last_error = None, m_signed_at = None, m_created_at = now,
      m_updated_at = now\<rparr>"

definition insert_row ::
  "golib \<Rightarrow> new_message \<Rightarrow> bytes option \<Rightarrow> bytes list \<Rightarrow> bytes list option \<Rightarrow> store
   \<Rightarrow> go_error + message \<times> store" where
  "insert_row L in' encrypted hashes clear s =
     (case (jsonb_in L (n_headers in'), jsonb_in L (n_tags in')) of
        (Some headers, Some tags) \<Rightarrow>
          if n_id in' \<in> m_id ` set (st_messages s) then Inl pg_unique
          else if n_api_key_id in' \<notin> k_id ` set (st_keys s)
                  \<or> n_domain_id in' \<notin> d_id ` set (st_domains s) then Inl pg_foreign_key
          else
            let row = new_row in' encrypted hashes clear headers tags (st_now s) in
            Inr (message_of row, s\<lparr>st_messages := st_messages s @ [row]\<rparr>)
      | _ \<Rightarrow> Inl (Msg ''ERROR: invalid input syntax for type json (SQLSTATE 22P02)''))"

definition insertMessage ::
  "golib \<Rightarrow> go_error + bytes \<Rightarrow> new_message \<Rightarrow> store \<Rightarrow> (go_error + message) \<times> store" where
  "insertMessage L rand in' s =
     (case packRecipients L rand (st_keeper s) (n_recipients in') of
        Inl e \<Rightarrow> (Inl e, s)
      | Inr (encrypted, hashes, clear) \<Rightarrow>
          run_wrapped ''inserting message''
            ([n_id in', n_from in', n_subject in', n_html in', n_text in', n_headers in', n_tags in']
             @ (case clear of None \<Rightarrow> [] | Some rs \<Rightarrow> rs))
            (insert_row L in' encrypted hashes clear) s)"

definition link_idempotency :: "new_message \<Rightarrow> bytes \<Rightarrow> store \<Rightarrow> store" where
  "link_idempotency in' id' s =
     s\<lparr>st_idem := update_where
          (\<lambda>r. i_api_key_id r = n_api_key_id in' \<and> i_key r = n_idempotency_key in')
          (\<lambda>r. r\<lparr>i_message_id := Some id'\<rparr>) (st_idem s)\<rparr>"

text \<open>
  EnqueueMessage: the message, and whether it is the replay of an earlier one. The deferred
  Rollback undoes whatever an early return leaves in the transaction.
\<close>

definition EnqueueMessage ::
  "golib \<Rightarrow> go_error + bytes \<Rightarrow> new_message \<Rightarrow> store \<Rightarrow> (go_error + message \<times> bool) \<times> store" where
  "EnqueueMessage L rand in' s0 =
     (case run_wrapped ''beginning transaction'' [] (stmt_query (\<lambda>_. ())) s0 of
        (Inl e, s1) \<Rightarrow> (Inl e, s1)
      | (Inr _, s1) \<Rightarrow>
          (case (if n_idempotency_key in' \<noteq> [] then claimIdempotency in' s1 else (Inr None, s1)) of
             (Inl e, s2) \<Rightarrow> (Inl e, rollback s0 s2)
           | (Inr (Some existing), s2) \<Rightarrow>
               (case commit ''committing replay'' s0 s2 of
                  (Inl e, s3) \<Rightarrow> (Inl e, s3)
                | (Inr _, s3) \<Rightarrow> (Inr (existing, True), s3))
           | (Inr None, s2) \<Rightarrow>
               (case insertMessage L rand in' s2 of
                  (Inl e, s3) \<Rightarrow> (Inl e, rollback s0 s3)
                | (Inr msg, s3) \<Rightarrow>
                    (case (if n_idempotency_key in' \<noteq> [] then
                             run_wrapped ''linking idempotency record''
                               [n_idempotency_key in', msg_id msg]
                               (stmt_update (link_idempotency in' (msg_id msg))) s3
                           else (Inr (), s3)) of
                       (Inl e, s4) \<Rightarrow> (Inl e, rollback s0 s4)
                     | (Inr _, s4) \<Rightarrow>
                         (case commit ''committing message'' s0 s4 of
                            (Inl e, s5) \<Rightarrow> (Inl e, s5)
                          | (Inr _, s5) \<Rightarrow> (Inr (msg, False), s5))))))"

definition MessageByID :: "bytes \<Rightarrow> store \<Rightarrow> (go_error + message) \<times> store" where
  "MessageByID id' s =
     (case run_wrapped ''loading message'' [id']
             (stmt_query (\<lambda>s. List.find (\<lambda>m. m_id m = id') (st_messages s))) s of
        (Inl e, s') \<Rightarrow> (Inl e, s')
      | (Inr None, s') \<Rightarrow> (Inl ErrNotFound, s')
      | (Inr (Some m), s') \<Rightarrow> (Inr (message_of m), s'))"

section \<open>The queue\<close>

record claimed =
  c_id :: bytes
  c_from :: bytes
  c_recipients :: "bytes list"
  c_subject :: bytes
  c_html :: bytes
  c_text :: bytes
  c_headers :: bytes
  c_attempts :: int

text \<open>The WHERE clause of ClaimMessages.\<close>

definition due :: "instant \<Rightarrow> message_row \<Rightarrow> bool" where
  "due now m \<longleftrightarrow>
     (m_status m = Queued \<or> m_status m = Deferred)
     \<and> (case m_scheduled_at m of None \<Rightarrow> True | Some t \<Rightarrow> t \<le> now)
     \<and> (case m_locked_until m of None \<Rightarrow> True | Some t \<Rightarrow> t < now)"

text \<open>ORDER BY created_at LIMIT; rows created at the same instant keep the order of the table.\<close>

definition claim_ids :: "nat \<Rightarrow> store \<Rightarrow> bytes list" where
  "claim_ids limit s =
     map m_id (take limit (sort_key m_created_at (filter (due (st_now s)) (st_messages s))))"

definition claim_row :: "instant \<Rightarrow> duration \<Rightarrow> message_row \<Rightarrow> message_row" where
  "claim_row now lockFor m =
     m\<lparr>m_status := Sending, m_attempts := m_attempts m + 1, m_locked_until := Some (now + lockFor),
       m_updated_at := now\<rparr>"

definition claim_update :: "nat \<Rightarrow> duration \<Rightarrow> store \<Rightarrow> go_error + message_row list \<times> store" where
  "claim_update limit lockFor s =
     (let ids = claim_ids limit s;
          rows = update_where (\<lambda>m. m_id m \<in> set ids) (claim_row (st_now s) lockFor) (st_messages s) in
      Inr (filter (\<lambda>m. m_id m \<in> set ids) rows, s\<lparr>st_messages := rows\<rparr>))"

text \<open>The loop over the returned rows; an error abandons the rest.\<close>

fun read_claimed :: "golib \<Rightarrow> bytes option \<Rightarrow> message_row list \<Rightarrow> go_error + claimed list" where
  "read_claimed L keeper [] = Inr []"
| "read_claimed L keeper (m # ms) =
     (case unpackRecipients L keeper (m_encrypted m) (m_recipients m) of
        Inl e \<Rightarrow> Inl e
      | Inr recipients \<Rightarrow>
          (case read_claimed L keeper ms of
             Inl e \<Rightarrow> Inl e
           | Inr cs \<Rightarrow>
               Inr (\<lparr>c_id = m_id m, c_from = m_from m, c_recipients = recipients,
                     c_subject = m_subject m, c_html = m_html m, c_text = m_text m,
                     c_headers = m_headers m, c_attempts = m_attempts m\<rparr> # cs)))"

definition ClaimMessages ::
  "golib \<Rightarrow> nat \<Rightarrow> duration \<Rightarrow> store \<Rightarrow> (go_error + claimed list) \<times> store" where
  "ClaimMessages L limit lockFor s =
     (case run_wrapped ''claiming messages'' [] (claim_update limit lockFor) s of
        (Inl e, s') \<Rightarrow> (Inl e, s')
      | (Inr rows, s') \<Rightarrow> (read_claimed L (st_keeper s') rows, s'))"

definition truncate' :: "bytes \<Rightarrow> nat \<Rightarrow> bytes" where
  "truncate' s n = (if length s \<le> n then s else take n s)"

definition json_rune :: "nat \<Rightarrow> bytes" where
  "json_rune r =
     (if r = 34 then [CHR 0x5C, CHR 0x22]
      else if r = 92 then [CHR 0x5C, CHR 0x5C]
      else if r = 10 then [CHR 0x5C, CHR ''n'']
      else if r = 13 then [CHR 0x5C, CHR ''r'']
      else if r = 9 then [CHR 0x5C, CHR ''t'']
      else if r < 32 then '' ''
      else encode_rune r)"

definition appendJSONString :: "bytes \<Rightarrow> bytes \<Rightarrow> bytes" where
  "appendJSONString dst s = dst @ [CHR 0x22] @ concat (map json_rune (runes s)) @ [CHR 0x22]"

definition mustJSONString :: "bytes \<Rightarrow> bytes" where
  "mustJSONString reason =
     appendJSONString ([CHR ''{'', CHR 0x22] @ ''reason'' @ [CHR 0x22, CHR '':'']) reason @ ''}''"

definition insert_event :: "bytes \<Rightarrow> bytes \<Rightarrow> bytes \<Rightarrow> store \<Rightarrow> go_error + unit \<times> store" where
  "insert_event messageID eventType payload s =
     (if messageID \<notin> m_id ` set (st_messages s) then Inl pg_foreign_key
      else
        let (i, s1) = nextval Message_events s in
        Inr ((), s1\<lparr>st_events := st_events s1 @
          [\<lparr>ev_id = i, ev_message_id = messageID, ev_type = eventType, ev_detail = payload,
            ev_occurred_at = st_now s1\<rparr>]\<rparr>))"

definition event_payload :: "bytes \<Rightarrow> bytes" where
  "event_payload detail = (if detail \<noteq> [] then mustJSONString (truncate' detail 500) else ''{}'')"

definition RecordEvent :: "bytes \<Rightarrow> bytes \<Rightarrow> bytes \<Rightarrow> store \<Rightarrow> (go_error + unit) \<times> store" where
  "RecordEvent messageID eventType detail s =
     run_wrapped ''recording event'' [messageID, eventType, event_payload detail]
       (insert_event messageID eventType (event_payload detail)) s"

definition set_status ::
  "message_status \<Rightarrow> bytes option \<Rightarrow> bytes \<Rightarrow> store \<Rightarrow> store" where
  "set_status status errText id' s =
     s\<lparr>st_messages := update_where (\<lambda>m. m_id m = id')
         (\<lambda>m. m\<lparr>m_status := status, m_locked_until := None, m_last_error := errText,
                m_updated_at := st_now s\<rparr>) (st_messages s)\<rparr>"

definition transition ::
  "bytes \<Rightarrow> message_status \<Rightarrow> bytes \<Rightarrow> bytes option \<Rightarrow> store \<Rightarrow> (go_error + unit) \<times> store" where
  "transition id' status event reason s =
     (let errText = map_option (\<lambda>r. truncate' r 500) reason in
      case run_wrapped ''updating message status''
             ([id', status_text status] @ (case errText of None \<Rightarrow> [] | Some t \<Rightarrow> [t]))
             (stmt_update (set_status status errText id')) s of
        (Inl e, s') \<Rightarrow> (Inl e, s')
      | (Inr _, s') \<Rightarrow> RecordEvent id' event (case reason of None \<Rightarrow> [] | Some r \<Rightarrow> r) s')"

definition MarkSent :: "bytes \<Rightarrow> store \<Rightarrow> (go_error + unit) \<times> store" where
  "MarkSent id' s = transition id' Sent ''email.sent'' None s"

definition MarkFailed :: "bytes \<Rightarrow> bytes \<Rightarrow> store \<Rightarrow> (go_error + unit) \<times> store" where
  "MarkFailed id' reason s = transition id' Failed ''email.failed'' (Some reason) s"

definition defer_update :: "bytes \<Rightarrow> instant \<Rightarrow> bytes \<Rightarrow> store \<Rightarrow> store" where
  "defer_update id' retryAt errText s =
     s\<lparr>st_messages := update_where (\<lambda>m. m_id m = id')
         (\<lambda>m. m\<lparr>m_status := Deferred, m_scheduled_at := Some retryAt, m_locked_until := None,
                m_last_error := Some errText, m_updated_at := st_now s\<rparr>) (st_messages s)\<rparr>"

definition MarkDeferred ::
  "bytes \<Rightarrow> instant \<Rightarrow> bytes \<Rightarrow> store \<Rightarrow> (go_error + unit) \<times> store" where
  "MarkDeferred id' retryAt reason s =
     (case run_wrapped ''deferring message'' [id', truncate' reason 500]
             (stmt_update (defer_update id' retryAt (truncate' reason 500))) s of
        (Inl e, s') \<Rightarrow> (Inl e, s')
      | (Inr _, s') \<Rightarrow> RecordEvent id' ''email.deferred'' reason s')"

definition recent :: "instant \<Rightarrow> instant \<Rightarrow> bool" where
  "recent now t \<longleftrightarrow> now - Hour < t"

definition sent_events :: "store \<Rightarrow> nat" where
  "sent_events s =
     length (filter (\<lambda>e. ev_type e = ''email.sent'' \<and> recent (st_now s) (ev_occurred_at e)) (st_events s))"

definition SentInLastHour :: "store \<Rightarrow> (go_error + nat) \<times> store" where
  "SentInLastHour s = run_wrapped ''counting recent dispatches'' [] (stmt_query sent_events) s"

text \<open>
  \<open>detail->>'reason'\<close> on the payloads the program writes: the characters of the string literal
  that follows the key, up to the closing quote, with its escapes undone.
\<close>

fun json_unescape :: "bytes \<Rightarrow> bytes" where
  "json_unescape [] = []"
| "json_unescape [c] = (if c = CHR 0x22 then [] else [c])"
| "json_unescape (c # d # s) =
     (if c = CHR 0x22 then []
      else if c = CHR 0x5C then
        (if d = CHR ''n'' then CHR 0x0A else if d = CHR ''r'' then CHR 0x0D
         else if d = CHR ''t'' then CHR 0x09 else d) # json_unescape s
      else c # json_unescape (d # s))"

definition detail_reason :: "bytes \<Rightarrow> bytes option" where
  "detail_reason payload =
     (let key = [CHR ''{'', CHR 0x22] @ ''reason'' @ [CHR 0x22, CHR '':'', CHR 0x22] in
      if HasPrefix payload key then Some (json_unescape (drop (length key) payload)) else None)"

record event =
  evt_type :: bytes
  evt_detail :: bytes
  evt_occurred_at :: instant

definition EventsForMessage :: "bytes \<Rightarrow> store \<Rightarrow> (go_error + event list) \<times> store" where
  "EventsForMessage messageID s =
     run_wrapped ''loading events'' [messageID]
       (stmt_query (\<lambda>s. map
          (\<lambda>e. \<lparr>evt_type = ev_type e,
                evt_detail = (case detail_reason (ev_detail e) of None \<Rightarrow> [] | Some r \<Rightarrow> r),
                evt_occurred_at = ev_occurred_at e\<rparr>)
          (sort_key ev_occurred_at (sort_key ev_id
             (filter (\<lambda>e. ev_message_id e = messageID) (st_events s)))))) s"

section \<open>What EnqueueMessage does\<close>

definition matches :: "new_message \<Rightarrow> idem_row \<Rightarrow> bool" where
  "matches in' r \<longleftrightarrow> i_api_key_id r = n_api_key_id in' \<and> i_key r = n_idempotency_key in'"

text \<open>The tables after a message was accepted.\<close>

definition linked_row :: "new_message \<Rightarrow> instant \<Rightarrow> idem_row" where
  "linked_row in' now =
     \<lparr>i_api_key_id = n_api_key_id in', i_key = n_idempotency_key in',
      i_request_hash = n_request_hash in', i_message_id = Some (n_id in'),
      i_created_at = now, i_expires_at = now + 24 * Hour\<rparr>"

definition accept :: "new_message \<Rightarrow> message_row \<Rightarrow> store \<Rightarrow> store" where
  "accept in' row s =
     s\<lparr>st_messages := st_messages s @ [row],
       st_idem := st_idem s @ (if n_idempotency_key in' = [] then [] else [linked_row in' (st_now s)])\<rparr>"

definition acceptable ::
  "golib \<Rightarrow> go_error + bytes \<Rightarrow> new_message \<Rightarrow> store \<Rightarrow> message_row \<Rightarrow> bool" where
  "acceptable L rand in' s row \<longleftrightarrow>
     (\<exists>encrypted hashes clear headers tags.
        packRecipients L rand (st_keeper s) (n_recipients in') = Inr (encrypted, hashes, clear)
        \<and> jsonb_in L (n_headers in') = Some headers \<and> jsonb_in L (n_tags in') = Some tags
        \<and> row = new_row in' encrypted hashes clear headers tags (st_now s))
     \<and> n_id in' \<notin> m_id ` set (st_messages s)
     \<and> n_api_key_id in' \<in> k_id ` set (st_keys s) \<and> n_domain_id in' \<in> d_id ` set (st_domains s)
     \<and> (n_idempotency_key in' \<noteq> [] \<longrightarrow> \<not> list_ex (matches in') (st_idem s))"

lemma rollback_fates [simp]:
  "rollback s (tail_fates s') = s\<lparr>st_fates := tl (st_fates s')\<rparr>"
  "rollback s (s'\<lparr>st_fates := f\<rparr>) = s\<lparr>st_fates := f\<rparr>"
  by (simp_all add: rollback_def)

lemma rollback_tail: "rollback s s' = s\<lparr>st_fates := st_fates s'\<rparr>"
  by (simp add: rollback_def)

lemma commit_cases:
  obtains (committed) f where "commit what s0 s = (Inr (), s\<lparr>st_fates := f\<rparr>)"
  | (undone) e f where "commit what s0 s = (Inl e, s0\<lparr>st_fates := f\<rparr>)"
  | (unknown) e f where "commit what s0 s = (Inl e, s\<lparr>st_fates := f\<rparr>)"
  by (rule run_wrapped_cases [of what "[]" "\<lambda>t. Inr ((), s\<lparr>st_fates := st_fates t\<rparr>)" "rollback s0 s"])
     (auto simp: commit_def rollback_def tail_fates_def)

lemma load_idempotency_tail [simp]: "load_idempotency in' (tail_fates s) = load_idempotency in' s"
  by (simp add: load_idempotency_def cong: option.case_cong)

lemma claimIdempotency_cases:
  obtains (failed) e s' where "claimIdempotency in' s = (Inl e, s')"
  | (fresh) "claimIdempotency in' s =
        (Inr None, (tail_fates s)\<lparr>st_idem := st_idem s @ [(linked_row in' (st_now s))\<lparr>i_message_id := None\<rparr>]\<rparr>)"
      "\<not> list_ex (matches in') (st_idem s)"
  | (replay) r row where "claimIdempotency in' s = (Inr (Some (message_of row)), tail_fates (tail_fates s))"
      "List.find (matches in') (st_idem s) = Some r" "i_request_hash r = n_request_hash in'"
      "i_message_id r = Some (m_id row)"
      "List.find (\<lambda>m. m_id m = m_id row) (st_messages s) = Some row"
proof -
  let ?ins = "run_wrapped ''claiming idempotency key'' [n_idempotency_key in'] (insert_idempotency in') s"
  have m: "(\<lambda>r. i_api_key_id r = n_api_key_id in' \<and> i_key r = n_idempotency_key in') = matches in'"
    by (simp add: matches_def fun_eq_iff)
  show thesis
  proof (rule run_wrapped_cases [of "''claiming idempotency key''" "[n_idempotency_key in']"
        "insert_idempotency in'" s])
    fix e assume "?ins = (Inl e, tail_fates s)"
    then show thesis by (intro failed) (simp add: claimIdempotency_def)
  next
    fix a s' e assume "?ins = (Inl e, s')"
    then show thesis by (intro failed) (simp add: claimIdempotency_def)
  next
    fix a s1 assume i: "insert_idempotency in' (tail_fates s) = Inr (a, s1)" "?ins = (Inr a, s1)"
    show thesis
    proof (cases a)
      case True
      with i have "s1 = (tail_fates s)\<lparr>st_idem := st_idem s @
            [(linked_row in' (st_now s))\<lparr>i_message_id := None\<rparr>]\<rparr>" "\<not> list_ex (matches in') (st_idem s)"
        by (auto simp: insert_idempotency_def m linked_row_def split: if_splits)
      with i True show thesis by (intro fresh) (simp_all add: claimIdempotency_def)
    next
      case False
      with i have s1: "s1 = tail_fates s" by (auto simp: insert_idempotency_def split: if_splits)
      let ?load = "run_wrapped ''loading idempotency record'' [n_idempotency_key in']
          (stmt_query (load_idempotency in')) s1"
      have c: "claimIdempotency in' s = (case ?load of
          (Inl e, s2) \<Rightarrow> (Inl e, s2)
        | (Inr None, s2) \<Rightarrow> (Inl (Msg ''loading idempotency record: no rows in result set''), s2)
        | (Inr (Some (h, x)), s2) \<Rightarrow> if \<not> equalBytes h (n_request_hash in') then (Inl ErrIdempotencyMismatch, s2)
            else (case x of None \<Rightarrow> (Inl ErrIdempotencyInFlight, s2) | Some m \<Rightarrow> (Inr (Some m), s2)))"
        using i(2) False by (simp add: claimIdempotency_def)
      show thesis
      proof (cases "\<exists>m s2. claimIdempotency in' s = (Inr (Some m), s2)")
        case True
        then obtain mm s2 where mm: "claimIdempotency in' s = (Inr (Some mm), s2)" by blast
        with c obtain q s2' where load: "?load = (Inr q, s2')" by (cases ?load; cases "fst ?load") auto
        with query_InrD [OF load] s1
        have q: "q = load_idempotency in' s" "s2' = tail_fates (tail_fates s)"
          by simp_all
        with c mm load have "load_idempotency in' s = Some (n_request_hash in', Some mm)" "s2 = s2'"
          by (auto split: option.splits if_splits)
        then obtain r row where "List.find (matches in') (st_idem s) = Some r"
          "i_request_hash r = n_request_hash in'" "i_message_id r = Some (m_id row)"
          "List.find (\<lambda>m. m_id m = m_id row) (st_messages s) = Some row" "mm = message_of row"
          by (auto simp: load_idempotency_def m split: option.splits dest: find_SomeD)
        with mm q \<open>s2 = s2'\<close> show thesis by (intro replay) auto
      next
        case no: False
        have "\<exists>e s'. claimIdempotency in' s = (Inl e, s')"
          using no unfolding c by (auto split: prod.splits sum.splits option.splits if_splits)
        then show thesis using failed by blast
      qed
    qed
  qed
qed

lemma insertMessage_cases:
  obtains (failed) e s' where "insertMessage L rand in' s = (Inl e, s')"
  | (inserted) encrypted hashes clear headers tags where
      "packRecipients L rand (st_keeper s) (n_recipients in') = Inr (encrypted, hashes, clear)"
      "jsonb_in L (n_headers in') = Some headers" "jsonb_in L (n_tags in') = Some tags"
      "n_id in' \<notin> m_id ` set (st_messages s)" "n_api_key_id in' \<in> k_id ` set (st_keys s)"
      "n_domain_id in' \<in> d_id ` set (st_domains s)"
      "insertMessage L rand in' s =
         (Inr (message_of (new_row in' encrypted hashes clear headers tags (st_now s))),
          (tail_fates s)\<lparr>st_messages := st_messages s @
             [new_row in' encrypted hashes clear headers tags (st_now s)]\<rparr>)"
proof (cases "\<exists>m s'. insertMessage L rand in' s = (Inr m, s')")
  case False
  then have "\<exists>e s'. insertMessage L rand in' s = (Inl e, s')"
    by (metis obj_sumE surj_pair)
  then show thesis using failed by blast
next
  case True
  then obtain m s' encrypted hashes clear where
    p: "packRecipients L rand (st_keeper s) (n_recipients in') = Inr (encrypted, hashes, clear)"
    and r: "run_wrapped ''inserting message''
            ([n_id in', n_from in', n_subject in', n_html in', n_text in', n_headers in', n_tags in']
             @ (case clear of None \<Rightarrow> [] | Some rs \<Rightarrow> rs))
            (insert_row L in' encrypted hashes clear) s = (Inr m, s')"
    and i: "insertMessage L rand in' s = (Inr m, s')"
    by (auto simp: insertMessage_def split: sum.splits prod.splits)
  from run_wrapped_InrD [OF r] have row: "insert_row L in' encrypted hashes clear (tail_fates s) = Inr (m, s')"
    by simp
  then obtain headers tags where j: "jsonb_in L (n_headers in') = Some headers"
    "jsonb_in L (n_tags in') = Some tags"
    by (auto simp: insert_row_def split: option.splits)
  show thesis
    by (rule inserted [OF p j]) (use row j i in \<open>auto simp: insert_row_def Let_def split: if_splits\<close>)
qed

text \<open>EnqueueMessage after the key was claimed, in the transaction's state \<open>s2\<close>.\<close>

definition enqueue_rest ::
  "golib \<Rightarrow> go_error + bytes \<Rightarrow> new_message \<Rightarrow> store \<Rightarrow> store
   \<Rightarrow> (go_error + message \<times> bool) \<times> store" where
  "enqueue_rest L rand in' s0 s2 =
     (case insertMessage L rand in' s2 of
        (Inl e, s3) \<Rightarrow> (Inl e, rollback s0 s3)
      | (Inr msg, s3) \<Rightarrow>
          (case (if n_idempotency_key in' \<noteq> [] then
                   run_wrapped ''linking idempotency record'' [n_idempotency_key in', msg_id msg]
                     (stmt_update (link_idempotency in' (msg_id msg))) s3
                 else (Inr (), s3)) of
             (Inl e, s4) \<Rightarrow> (Inl e, rollback s0 s4)
           | (Inr _, s4) \<Rightarrow>
               (case commit ''committing message'' s0 s4 of
                  (Inl e, s5) \<Rightarrow> (Inl e, s5)
                | (Inr _, s5) \<Rightarrow> (Inr (msg, False), s5))))"

lemma link_fresh:
  assumes "\<not> list_ex (matches in') (st_idem s)"
  shows "update_where (\<lambda>r. i_api_key_id r = n_api_key_id in' \<and> i_key r = n_idempotency_key in')
       (\<lambda>r. r\<lparr>i_message_id := Some (n_id in')\<rparr>)
       (st_idem s @ [(linked_row in' now)\<lparr>i_message_id := None\<rparr>]) = st_idem s @ [linked_row in' now]"
  using assms unfolding update_where_def
  by (auto simp: list_ex_iff matches_def linked_row_def intro!: map_idI)

lemma enqueue_rest_cases:
  assumes idem: "idem = (if n_idempotency_key in' = [] then []
                  else [(linked_row in' (st_now s))\<lparr>i_message_id := None\<rparr>])"
    and s2: "s2 = s\<lparr>st_fates := st_fates s2, st_idem := st_idem s @ idem\<rparr>"
    and free: "n_idempotency_key in' \<noteq> [] \<Longrightarrow> \<not> list_ex (matches in') (st_idem s)"
  obtains (kept) e f where "enqueue_rest L rand in' s s2 = (Inl e, s\<lparr>st_fates := f\<rparr>)"
  | (accepted) row f ret where "enqueue_rest L rand in' s s2 = (ret, (accept in' row s)\<lparr>st_fates := f\<rparr>)"
      "acceptable L rand in' s row" "ret = Inr (message_of row, False) \<or> isl ret"
proof (cases rule: insertMessage_cases [of L rand in' s2])
  case (failed e s')
  then show thesis by (intro kept) (simp add: enqueue_rest_def rollback_def)
next
  case (inserted encrypted hashes clear headers tags)
  define row where "row = new_row in' encrypted hashes clear headers tags (st_now s)"
  have sel: "st_now s2 = st_now s" "st_messages s2 = st_messages s" "st_keeper s2 = st_keeper s"
    "st_keys s2 = st_keys s" "st_domains s2 = st_domains s"
    by (subst s2, simp)+
  have ok: "acceptable L rand in' s row"
    using inserted free unfolding acceptable_def row_def sel by blast
  define s3 where "s3 = (tail_fates s2)\<lparr>st_messages := st_messages s @ [row]\<rparr>"
  have ins: "insertMessage L rand in' s2 = (Inr (message_of row), s3)"
    using inserted(7) unfolding row_def s3_def sel .
  have mid: "msg_id (message_of row) = n_id in'" by (simp add: row_def message_of_def new_row_def)
  let ?link = "if n_idempotency_key in' \<noteq> [] then
       run_wrapped ''linking idempotency record'' [n_idempotency_key in', n_id in']
         (stmt_update (link_idempotency in' (n_id in'))) s3 else (Inr (), s3)"
  have eq: "enqueue_rest L rand in' s s2 = (case ?link of
      (Inl e, s4) \<Rightarrow> (Inl e, rollback s s4)
    | (Inr _, s4) \<Rightarrow> (case commit ''committing message'' s s4 of
         (Inl e, s5) \<Rightarrow> (Inl e, s5) | (Inr _, s5) \<Rightarrow> (Inr (message_of row, False), s5)))"
    unfolding enqueue_rest_def ins by (simp only: prod.case sum.case mid)
  have s3': "s3 = s\<lparr>st_messages := st_messages s @ [row], st_idem := st_idem s @ idem, st_fates := st_fates s3\<rparr>"
    unfolding s3_def by (subst s2, rule store.equality) (simp_all add: tail_fates_def)
  consider e s4 where "?link = (Inl e, s4)"
    | s4 where "?link = (Inr (), s4)" "s4 = (accept in' row s)\<lparr>st_fates := st_fates s4\<rparr>"
  proof (cases "n_idempotency_key in' = []")
    case True
    then show thesis using that(2) s3' by (simp add: accept_def idem)
  next
    case False
    have acc: "link_idempotency in' (n_id in') (tail_fates s3)
        = (accept in' row s)\<lparr>st_fates := st_fates (tail_fates s3)\<rparr>"
      unfolding link_idempotency_def tail_fates_def
      by (subst (1 2 3) s3') (simp add: accept_def False idem link_fresh [OF free [OF False]])
    show thesis
      by (rule run_wrapped_cases [of "''linking idempotency record''" "[n_idempotency_key in', n_id in']"
            "stmt_update (link_idempotency in' (n_id in'))" s3])
         (use that False acc in \<open>auto simp: stmt_update_def\<close>)
  qed
  then show thesis
  proof cases
    case (1 e s4)
    then show thesis by (intro kept) (simp only: eq prod.case sum.case rollback_def)
  next
    case (2 s4)
    have f: "s4\<lparr>st_fates := f\<rparr> = (accept in' row s)\<lparr>st_fates := f\<rparr>" for f
      by (subst 2(2)) simp
    show thesis
      by (rule commit_cases [of "''committing message''" s s4])
         (use ok in \<open>auto simp only: eq 2(1) prod.case sum.case f sum.disc intro: kept accepted\<close>)
  qed
qed

text \<open>
  The three ways EnqueueMessage ends: nothing changed, the replay of an earlier acceptance, or
  the message and its idempotency record added together, with the answer lost or not.
\<close>

lemma EnqueueMessage_cases:
  obtains (kept) e f where "EnqueueMessage L rand in' s = (Inl e, s\<lparr>st_fates := f\<rparr>)"
  | (replay) r row f where "EnqueueMessage L rand in' s = (Inr (message_of row, True), s\<lparr>st_fates := f\<rparr>)"
      "n_idempotency_key in' \<noteq> []" "List.find (matches in') (st_idem s) = Some r"
      "i_request_hash r = n_request_hash in'" "i_message_id r = Some (m_id row)"
      "List.find (\<lambda>m. m_id m = m_id row) (st_messages s) = Some row"
  | (accepted) row f ret where "EnqueueMessage L rand in' s = (ret, (accept in' row s)\<lparr>st_fates := f\<rparr>)"
      "acceptable L rand in' s row" "ret = Inr (message_of row, False) \<or> isl ret"
proof -
  let ?open = "run_wrapped ''beginning transaction'' [] (stmt_query (\<lambda>_. ())) s"
  have b: "snd ?open = tail_fates s" by simp
  show thesis
  proof (cases "fst ?open")
    case (Inl e)
    with b have "?open = (Inl e, tail_fates s)" by (simp add: prod_eq_iff)
    then show thesis by (intro kept) (simp add: EnqueueMessage_def tail_fates_def)
  next
    case (Inr u)
    with b have bb: "?open = (Inr (), tail_fates s)" by (simp add: prod_eq_iff)
    let ?c = "if n_idempotency_key in' \<noteq> [] then claimIdempotency in' (tail_fates s)
              else (Inr None, tail_fates s)"
    have enq: "EnqueueMessage L rand in' s = (case ?c of
             (Inl e, s2) \<Rightarrow> (Inl e, rollback s s2)
           | (Inr (Some existing), s2) \<Rightarrow>
               (case commit ''committing replay'' s s2 of
                  (Inl e, s3) \<Rightarrow> (Inl e, s3) | (Inr _, s3) \<Rightarrow> (Inr (existing, True), s3))
           | (Inr None, s2) \<Rightarrow> enqueue_rest L rand in' s s2)"
      unfolding EnqueueMessage_def bb enqueue_rest_def by simp
    show thesis
    proof (cases "n_idempotency_key in' = []")
      case True
      with enq have "EnqueueMessage L rand in' s = enqueue_rest L rand in' s (tail_fates s)" by simp
      then show thesis
        by (rule_tac enqueue_rest_cases [where L = L and rand = rand and in' = in' and s = s
                and ?s2.0 = "tail_fates s" and idem = "[]"])
           (auto simp: True tail_fates_def intro: kept accepted)
    next
      case key: False
      show thesis
      proof (rule claimIdempotency_cases [of in' "tail_fates s"])
        fix e s' assume "claimIdempotency in' (tail_fates s) = (Inl e, s')"
        with enq key show thesis by (intro kept) (simp add: rollback_def)
      next
        fix r row assume r: "claimIdempotency in' (tail_fates s) =
            (Inr (Some (message_of row)), tail_fates (tail_fates (tail_fates s)))"
          "List.find (matches in') (st_idem (tail_fates s)) = Some r" "i_request_hash r = n_request_hash in'"
          "i_message_id r = Some (m_id row)"
          "List.find (\<lambda>m. m_id m = m_id row) (st_messages (tail_fates s)) = Some row"
        let ?s = "tail_fates (tail_fates (tail_fates s))"
        have t: "?s\<lparr>st_fates := f\<rparr> = s\<lparr>st_fates := f\<rparr>" for f by (simp add: tail_fates_def)
        show thesis
          by (rule commit_cases [of "''committing replay''" s ?s])
             (use r key enq replay kept in \<open>auto simp: t\<close>)
      next
        assume c: "claimIdempotency in' (tail_fates s) = (Inr None, (tail_fates (tail_fates s))
            \<lparr>st_idem := st_idem (tail_fates s) @ [(linked_row in' (st_now (tail_fates s)))\<lparr>i_message_id := None\<rparr>]\<rparr>)"
          "\<not> list_ex (matches in') (st_idem (tail_fates s))"
        let ?s = "(tail_fates (tail_fates s))
            \<lparr>st_idem := st_idem s @ [(linked_row in' (st_now s))\<lparr>i_message_id := None\<rparr>]\<rparr>"
        from enq c key have "EnqueueMessage L rand in' s = enqueue_rest L rand in' s ?s" by simp
        then show thesis
          by (rule_tac enqueue_rest_cases [where L = L and rand = rand and in' = in' and s = s
                and ?s2.0 = ?s and idem = "[(linked_row in' (st_now s))\<lparr>i_message_id := None\<rparr>]"])
             (use c key in \<open>auto simp: tail_fates_def intro: kept accepted\<close>)
      qed
    qed
  qed
qed

section \<open>What the queue operations do\<close>

text \<open>The tables the queue operations never touch.\<close>

definition queue_frame :: "store \<Rightarrow> store \<Rightarrow> bool" where
  "queue_frame s s' \<longleftrightarrow>
     st_now s' = st_now s \<and> st_keeper s' = st_keeper s \<and> st_domains s' = st_domains s
     \<and> st_keys s' = st_keys s \<and> st_endpoints s' = st_endpoints s
     \<and> st_deliveries s' = st_deliveries s \<and> st_dkim s' = st_dkim s
     \<and> st_suppressions s' = st_suppressions s"

lemma queue_frame_refl [simp]: "queue_frame s s"
  by (simp add: queue_frame_def)

lemma queue_frame_tail [simp]: "queue_frame s (tail_fates s)"
  by (simp add: queue_frame_def)

lemma queue_frame_trans [trans]: "queue_frame s s' \<Longrightarrow> queue_frame s' s'' \<Longrightarrow> queue_frame s s''"
  by (simp add: queue_frame_def)

definition event_of :: "bytes \<Rightarrow> bytes \<Rightarrow> bytes \<Rightarrow> store \<Rightarrow> event_row" where
  "event_of id' type detail s =
     \<lparr>ev_id = st_seq s Message_events, ev_message_id = id', ev_type = type,
      ev_detail = event_payload detail, ev_occurred_at = st_now s\<rparr>"

lemma insert_event_InrD:
  assumes "insert_event id' type (event_payload detail) s = Inr (a, s')"
  shows "id' \<in> m_id ` set (st_messages s) \<and> queue_frame s s' \<and> st_messages s' = st_messages s
    \<and> st_idem s' = st_idem s \<and> st_events s' = st_events s @ [event_of id' type detail s]
    \<and> st_seq s' = (st_seq s)(Message_events := st_seq s Message_events + 1)"
  using assms
  by (auto simp: insert_event_def nextval_def event_of_def queue_frame_def Let_def split: if_splits)

lemma event_of_tail [simp]: "event_of id' type detail (tail_fates s) = event_of id' type detail s"
  by (simp add: event_of_def)

lemma RecordEvent_cases:
  obtains (kept) e where "RecordEvent id' type detail s = (Inl e, tail_fates s)"
  | (recorded) ret s' where "RecordEvent id' type detail s = (ret, s')"
      "id' \<in> m_id ` set (st_messages s)" "queue_frame s s'" "st_messages s' = st_messages s"
      "st_idem s' = st_idem s" "st_events s' = st_events s @ [event_of id' type detail s]"
      "st_seq s' = (st_seq s)(Message_events := st_seq s Message_events + 1)"
proof (rule run_wrapped_cases [of "''recording event''" "[id', type, event_payload detail]"
      "insert_event id' type (event_payload detail)" s])
  fix e assume "run_wrapped ''recording event'' [id', type, event_payload detail]
      (insert_event id' type (event_payload detail)) s = (Inl e, tail_fates s)"
  then show thesis by (intro kept) (simp add: RecordEvent_def)
next
  fix a s' assume i: "insert_event id' type (event_payload detail) (tail_fates s) = Inr (a, s')"
    "run_wrapped ''recording event'' [id', type, event_payload detail]
      (insert_event id' type (event_payload detail)) s = (Inr a, s')"
  show thesis
    by (rule recorded [of "Inr a" s']) (use i insert_event_InrD [OF i(1)] in \<open>auto simp: RecordEvent_def queue_frame_def\<close>)
next
  fix a s' e assume i: "insert_event id' type (event_payload detail) (tail_fates s) = Inr (a, s')"
    "run_wrapped ''recording event'' [id', type, event_payload detail]
      (insert_event id' type (event_payload detail)) s = (Inl e, s')"
  show thesis
    by (rule recorded [of "Inl e" s']) (use i insert_event_InrD [OF i(1)] in \<open>auto simp: RecordEvent_def queue_frame_def\<close>)
qed

text \<open>MarkSent, MarkFailed and MarkDeferred are one pattern: an UPDATE of the row, then the event.\<close>

definition mark ::
  "bytes \<Rightarrow> bytes list \<Rightarrow> (instant \<Rightarrow> message_row \<Rightarrow> message_row) \<Rightarrow> bytes \<Rightarrow> bytes \<Rightarrow> bytes \<Rightarrow> store
   \<Rightarrow> (go_error + unit) \<times> store" where
  "mark what texts h id' event detail s =
     (case run_wrapped what texts (stmt_update (\<lambda>s. s\<lparr>st_messages :=
             update_where (\<lambda>m. m_id m = id') (h (st_now s)) (st_messages s)\<rparr>)) s of
        (Inl e, s') \<Rightarrow> (Inl e, s')
      | (Inr _, s') \<Rightarrow> RecordEvent id' event detail s')"

definition status_row ::
  "message_status \<Rightarrow> bytes option \<Rightarrow> instant \<Rightarrow> message_row \<Rightarrow> message_row" where
  "status_row status errText now m =
     m\<lparr>m_status := status, m_locked_until := None, m_last_error := errText, m_updated_at := now\<rparr>"

definition defer_row :: "instant \<Rightarrow> bytes \<Rightarrow> instant \<Rightarrow> message_row \<Rightarrow> message_row" where
  "defer_row retryAt errText now m =
     m\<lparr>m_status := Deferred, m_scheduled_at := Some retryAt, m_locked_until := None,
       m_last_error := Some errText, m_updated_at := now\<rparr>"

lemma set_status_row: "set_status status errText id' = (\<lambda>s. s\<lparr>st_messages :=
    update_where (\<lambda>m. m_id m = id') (status_row status errText (st_now s)) (st_messages s)\<rparr>)"
  by (simp add: fun_eq_iff set_status_def status_row_def [abs_def])

lemma defer_update_row: "defer_update id' retryAt errText = (\<lambda>s. s\<lparr>st_messages :=
    update_where (\<lambda>m. m_id m = id') (defer_row retryAt errText (st_now s)) (st_messages s)\<rparr>)"
  by (simp add: fun_eq_iff defer_update_def defer_row_def [abs_def])

lemma MarkSent_mark:
  "MarkSent id' = mark ''updating message status'' [id', ''sent''] (status_row Sent None) id' ''email.sent'' []"
  by (simp add: fun_eq_iff MarkSent_def transition_def mark_def set_status_row status_text_def
      split: prod.splits sum.splits)

lemma MarkFailed_mark:
  "MarkFailed id' reason = mark ''updating message status'' [id', ''failed'', truncate' reason 500]
     (status_row Failed (Some (truncate' reason 500))) id' ''email.failed'' reason"
  by (simp add: fun_eq_iff MarkFailed_def transition_def mark_def set_status_row status_text_def
      split: prod.splits sum.splits)

lemma MarkDeferred_mark:
  "MarkDeferred id' retryAt reason = mark ''deferring message'' [id', truncate' reason 500]
     (defer_row retryAt (truncate' reason 500)) id' ''email.deferred'' reason"
  by (simp add: fun_eq_iff MarkDeferred_def mark_def defer_update_row)

lemmas mark_simps = MarkSent_mark MarkFailed_mark MarkDeferred_mark

lemma status_row_id [simp]: "m_id (status_row st e now m) = m_id m"
  by (simp add: status_row_def)

lemma defer_row_id [simp]: "m_id (defer_row r e now m) = m_id m"
  by (simp add: defer_row_def)

lemma claim_row_id [simp]: "m_id (claim_row now d m) = m_id m"
  by (simp add: claim_row_def)

lemma update_where_ids:
  assumes "\<And>m. m_id (h m) = m_id m"
  shows "m_id ` set (update_where p h ms) = m_id ` set ms"
  using map_update_where [of m_id h p ms] assms by (metis list.set_map)

lemma mark_cases:
  assumes id: "\<And>now m. m_id (h now m) = m_id m"
  obtains (kept) e where "mark what texts h id' event detail s = (Inl e, tail_fates s)"
  | (moved) ret s' evs where "mark what texts h id' event detail s = (ret, s')"
      "queue_frame s s'" "st_idem s' = st_idem s"
      "st_messages s' = update_where (\<lambda>m. m_id m = id') (h (st_now s)) (st_messages s)"
      "st_events s' = st_events s @ evs"
      "evs = [] \<and> isl ret \<or> id' \<in> m_id ` set (st_messages s) \<and> evs = [event_of id' event detail s]"
      "st_seq s' = (st_seq s)(Message_events := st_seq s Message_events + int (length evs))"
proof -
  let ?upd = "\<lambda>s. s\<lparr>st_messages := update_where (\<lambda>m. m_id m = id') (h (st_now s)) (st_messages s)\<rparr>"
  let ?s = "?upd (tail_fates s)"
  note ids = update_where_ids [of "h (st_now s)", OF id]
  show thesis
  proof (rule run_wrapped_cases [of what texts "stmt_update ?upd" s])
    fix e assume "run_wrapped what texts (stmt_update ?upd) s = (Inl e, tail_fates s)"
    then show thesis by (intro kept) (simp add: mark_def)
  next
    fix a s1 e assume "stmt_update ?upd (tail_fates s) = Inr (a, s1)"
      "run_wrapped what texts (stmt_update ?upd) s = (Inl e, s1)"
    then show thesis by (intro moved [of "Inl e" s1 "[]"]) (auto simp: mark_def stmt_update_def queue_frame_def)
  next
    fix a s1 assume "stmt_update ?upd (tail_fates s) = Inr (a, s1)"
      "run_wrapped what texts (stmt_update ?upd) s = (Inr a, s1)"
    then have s1: "s1 = ?s" and m: "mark what texts h id' event detail s = RecordEvent id' event detail s1"
      by (auto simp: mark_def stmt_update_def)
    show thesis
    proof (cases rule: RecordEvent_cases [of id' event detail s1])
      case (kept e)
      then show thesis
        by (intro moved [of "Inl e" "tail_fates s1" "[]"]) (simp_all add: m s1 queue_frame_def)
    next
      case (recorded ret s')
      then show thesis
        by (intro moved [of ret s' "[event_of id' event detail s]"])
           (simp_all add: m s1 queue_frame_def ids event_of_def)
    qed
  qed
qed

end
