(* ===== verification/Store_Queue.thy ===== *)
theory Store_Queue
  imports Store_Messages "HOL-Library.Multiset"
begin

text \<open>
  The queue of internal/store as its callers rely on it: the invariant of the message tables, the
  contract of claiming and marking, and the histories the operations can produce.
\<close>

section \<open>The invariant of the message tables\<close>

definition message_ids :: "store \<Rightarrow> bytes set" where
  "message_ids s = m_id ` set (st_messages s)"

definition messages_ok :: "store \<Rightarrow> bool" where
  "messages_ok s \<longleftrightarrow>
     distinct (map m_id (st_messages s))
     \<and> (\<forall>e \<in> set (st_events s). ev_message_id e \<in> message_ids s \<and> ev_id e < st_seq s Message_events)
     \<and> distinct (map ev_id (st_events s))
     \<and> distinct (map (\<lambda>r. (i_api_key_id r, i_key r)) (st_idem s))
     \<and> (\<forall>r \<in> set (st_idem s). \<exists>i \<in> message_ids s. i_message_id r = Some i)"

lemma messages_okD:
  assumes "messages_ok s"
  shows "distinct (map m_id (st_messages s))"
    and "e \<in> set (st_events s) \<Longrightarrow> ev_message_id e \<in> message_ids s"
    and "r \<in> set (st_idem s) \<Longrightarrow> \<exists>i \<in> message_ids s. i_message_id r = Some i"
  using assms by (auto simp: messages_ok_def)

lemma messages_ok_tail [simp]: "messages_ok (tail_fates s) = messages_ok s"
  by (simp add: messages_ok_def message_ids_def)

lemma messages_ok_fates [simp]: "messages_ok (s\<lparr>st_fates := f\<rparr>) = messages_ok s"
  by (simp add: messages_ok_def message_ids_def)

lemma messages_ok_now [simp]: "messages_ok (s\<lparr>st_now := t\<rparr>) = messages_ok s"
  by (simp add: messages_ok_def message_ids_def)

text \<open>Changing rows without changing their ids, and appending an event, keep the invariant.\<close>

lemma messages_ok_update:
  assumes ok: "messages_ok s" and ids: "map m_id (st_messages s') = map m_id (st_messages s)"
    and idem: "st_idem s' = st_idem s"
    and ev: "st_events s' = st_events s @ evs" "evs = [] \<or> (\<exists>ty d. evs = [event_of id' ty d s])"
    and fk: "evs \<noteq> [] \<Longrightarrow> id' \<in> message_ids s"
    and sq: "st_seq s' = (st_seq s)(Message_events := st_seq s Message_events + int (length evs))"
  shows "messages_ok s'"
proof -
  have i: "message_ids s' = message_ids s" unfolding message_ids_def using ids by (metis list.set_map)
  have "ev_id e < st_seq s Message_events" if "e \<in> set (st_events s)" for e
    using ok that by (auto simp: messages_ok_def)
  then show ?thesis
    using ok ids idem ev fk sq i by (fastforce simp: messages_ok_def event_of_def)
qed

lemma RecordEvent_ok:
  assumes "messages_ok s"
  shows "messages_ok (snd (RecordEvent id' type detail s))"
proof (cases rule: RecordEvent_cases [of id' type detail s])
  case (recorded ret s')
  have "messages_ok s'"
    by (rule messages_ok_update [where s = s and evs = "[event_of id' type detail s]" and id' = id'])
       (use assms recorded in \<open>auto simp: message_ids_def\<close>)
  with recorded(1) show ?thesis by simp
qed (use assms in simp)

lemma mark_ok:
  assumes "messages_ok s" and id: "\<And>now m. m_id (h now m) = m_id m"
  shows "messages_ok (snd (mark what texts h id' event detail s))"
proof (rule mark_cases [of h what texts id' event detail s])
  fix now m show "m_id (h now m) = m_id m" by (rule id)
next
  fix e assume "mark what texts h id' event detail s = (Inl e, tail_fates s)"
  with assms(1) show ?thesis by simp
next
  fix ret s' evs
  assume m: "mark what texts h id' event detail s = (ret, s')" "st_idem s' = st_idem s"
    "st_messages s' = update_where (\<lambda>m. m_id m = id') (h (st_now s)) (st_messages s)"
    "st_events s' = st_events s @ evs"
    "evs = [] \<and> isl ret \<or> id' \<in> m_id ` set (st_messages s) \<and> evs = [event_of id' event detail s]"
    "st_seq s' = (st_seq s)(Message_events := st_seq s Message_events + int (length evs))"
  have "map m_id (st_messages s') = map m_id (st_messages s)"
    unfolding m(3) by (rule map_update_where) (rule id)
  moreover have "evs = [] \<or> (\<exists>ty d. evs = [event_of id' ty d s])" "evs \<noteq> [] \<Longrightarrow> id' \<in> message_ids s"
    using m(5) by (blast, auto simp: message_ids_def)
  ultimately have "messages_ok s'" using messages_ok_update assms(1) m(2,4,6) by blast
  with m(1) show ?thesis by simp
qed

lemma accept_ok:
  assumes "messages_ok s" "acceptable L rand in' s row"
  shows "messages_ok (accept in' row s)"
proof -
  have "m_id row = n_id in'" using assms(2) by (auto simp: acceptable_def new_row_def)
  with assms show ?thesis
    by (fastforce simp: messages_ok_def acceptable_def accept_def message_ids_def linked_row_def
        list_ex_iff matches_def)
qed

lemma EnqueueMessage_ok: "messages_ok s \<Longrightarrow> messages_ok (snd (EnqueueMessage L rand in' s))"
  by (cases rule: EnqueueMessage_cases [of L rand in' s]) (simp_all add: accept_ok)

section \<open>Claiming\<close>

definition claim_batch :: "nat \<Rightarrow> store \<Rightarrow> message_row list" where
  "claim_batch limit s =
     take limit (sort_key m_created_at (filter (due (st_now s)) (st_messages s)))"

lemma claim_ids_batch: "claim_ids limit s = map m_id (claim_batch limit s)"
  by (simp add: claim_ids_def claim_batch_def)

lemma claim_batch_tail [simp]: "claim_batch limit (tail_fates s) = claim_batch limit s"
  by (simp add: claim_batch_def)

lemma claim_batch_due:
  "m \<in> set (claim_batch limit s) \<Longrightarrow> m \<in> set (st_messages s) \<and> due (st_now s) m"
  by (auto simp: claim_batch_def dest!: in_set_takeD)

lemma length_claim_batch:
  "length (claim_batch limit s) = min limit (length (filter (due (st_now s)) (st_messages s)))"
  by (simp add: claim_batch_def)

lemma claim_batch_first:
  assumes "m \<in> set (claim_batch limit s)" "m' \<in> set (st_messages s)" "due (st_now s) m'"
    "m' \<notin> set (claim_batch limit s)"
  shows "m_created_at m \<le> m_created_at m'"
proof -
  let ?d = "sort_key m_created_at (filter (due (st_now s)) (st_messages s))"
  have "m' \<in> set (take limit ?d @ drop limit ?d)" using assms(2,3) by simp
  with assms(4) have "m' \<in> set (drop limit ?d)" by (simp add: claim_batch_def del: append_take_drop_id)
  moreover have "sorted (map m_created_at (take limit ?d @ drop limit ?d))" by simp
  ultimately show ?thesis
    using assms(1) unfolding map_append sorted_append claim_batch_def by auto
qed

lemma in_batch_iff:
  assumes "messages_ok s" "m \<in> set (st_messages s)"
  shows "m_id m \<in> set (claim_ids limit s) \<longleftrightarrow> m \<in> set (claim_batch limit s)"
proof
  assume "m_id m \<in> set (claim_ids limit s)"
  then obtain m' where m': "m' \<in> set (claim_batch limit s)" "m_id m' = m_id m"
    by (auto simp: claim_ids_batch)
  moreover have "inj_on m_id (set (st_messages s))"
    using messages_okD(1) [OF assms(1)] by (simp add: distinct_map)
  ultimately have "m' = m" using claim_batch_due assms(2) by (metis inj_onD)
  with m' show "m \<in> set (claim_batch limit s)" by simp
qed (simp add: claim_ids_batch)

lemma distinct_claim_ids:
  assumes "messages_ok s"
  shows "distinct (claim_ids limit s)"
proof -
  let ?d = "sort_key m_created_at (filter (due (st_now s)) (st_messages s))"
  have "distinct (st_messages s)" "inj_on m_id (set (st_messages s))"
    using messages_okD(1) [OF assms] by (simp_all add: distinct_map)
  then have "distinct (map m_id ?d)"
    by (auto simp: distinct_map intro: inj_on_subset)
  then show ?thesis unfolding claim_ids_def take_map [symmetric] by simp
qed

text \<open>
  What a round trip of ClaimMessages does to the rows: nothing, or the whole batch. The second
  case covers an answer that was lost and an answer whose recipients cannot be decrypted: the
  rows are claimed although the caller gets an error.
\<close>

lemma read_claimed_InrD:
  "read_claimed L k rows = Inr cs \<Longrightarrow>
     map c_id cs = map m_id rows \<and> map c_attempts cs = map m_attempts rows
     \<and> list_all2 (\<lambda>c m. c_from c = m_from m \<and> c_subject c = m_subject m \<and> c_html c = m_html m
          \<and> c_text c = m_text m \<and> c_headers c = m_headers m
          \<and> unpackRecipients L k (m_encrypted m) (m_recipients m) = Inr (c_recipients c)) cs rows"
  by (induction L k rows arbitrary: cs rule: read_claimed.induct) (auto split: sum.splits)

definition claimed_rows :: "nat \<Rightarrow> duration \<Rightarrow> store \<Rightarrow> message_row list" where
  "claimed_rows limit lockFor s =
     update_where (\<lambda>m. m_id m \<in> set (claim_ids limit s)) (claim_row (st_now s) lockFor) (st_messages s)"

lemma claim_update_eq:
  "claim_update limit lockFor (tail_fates s) =
     Inr (filter (\<lambda>m. m_id m \<in> set (claim_ids limit s)) (claimed_rows limit lockFor s),
          (tail_fates s)\<lparr>st_messages := claimed_rows limit lockFor s\<rparr>)"
  by (simp add: claim_update_def claimed_rows_def Let_def claim_ids_batch)

lemma ClaimMessages_cases:
  obtains (kept) e where "ClaimMessages L limit lockFor s = (Inl e, tail_fates s)"
  | (claimed) r where
      "ClaimMessages L limit lockFor s =
         (r, (tail_fates s)\<lparr>st_messages := claimed_rows limit lockFor s\<rparr>)"
      "\<not> isl r \<Longrightarrow> read_claimed L (st_keeper s)
         (filter (\<lambda>m. m_id m \<in> set (claim_ids limit s)) (claimed_rows limit lockFor s)) = r"
  by (rule run_wrapped_cases [of "''claiming messages''" "[]" "claim_update limit lockFor" s])
     (auto simp: ClaimMessages_def claim_update_eq)

lemma map_id_claimed_rows [simp]: "map m_id (claimed_rows limit lockFor s) = map m_id (st_messages s)"
  unfolding claimed_rows_def by (rule map_update_where) simp

lemma ClaimMessages_ok:
  assumes "messages_ok s"
  shows "messages_ok (snd (ClaimMessages L limit lockFor s))"
proof (cases rule: ClaimMessages_cases [of L limit lockFor s])
  case (claimed r)
  have "messages_ok ((tail_fates s)\<lparr>st_messages := claimed_rows limit lockFor s\<rparr>)"
    by (rule messages_ok_update [where s = s and evs = "[]"]) (use assms in auto)
  with claimed show ?thesis by simp
qed (use assms in simp)

lemma filter_claimed_rows:
  assumes "messages_ok s"
  shows "filter (\<lambda>m. m_id m \<in> set (claim_ids limit s)) (claimed_rows limit lockFor s)
    = map (claim_row (st_now s) lockFor) (filter (\<lambda>m. m_id m \<in> set (claim_ids limit s)) (st_messages s))"
  unfolding claimed_rows_def update_where_def by (induction "st_messages s" rule: list.induct)
     (simp_all add: filter_map o_def)

section \<open>The contract of the queue\<close>

text \<open>
  What a worker may rely on, stated over the status and the attempts of each message: a claim
  moves at most the asked number of waiting messages to Sending and counts the attempt; a mark
  that answers moved exactly its message; one that fails moved it or did nothing; only MarkSent
  adds to the dispatches of the last hour.
\<close>

type_synonym qrow = "message_status \<times> int"

definition moved :: "message_status \<Rightarrow> bytes \<Rightarrow> (bytes \<Rightarrow> qrow option) \<Rightarrow> bytes \<Rightarrow> qrow option" where
  "moved st i f = f(i := map_option (\<lambda>(_, n). (st, n)) (f i))"

definition taken :: "bytes list \<Rightarrow> (bytes \<Rightarrow> qrow option) \<Rightarrow> bytes \<Rightarrow> qrow option" where
  "taken ids f = (\<lambda>i. if i \<in> set ids then map_option (\<lambda>(_, n). (Sending, n + 1)) (f i) else f i)"

definition waiting :: "qrow option \<Rightarrow> bool" where
  "waiting x \<longleftrightarrow> (\<exists>n. x = Some (Queued, n) \<or> x = Some (Deferred, n))"

locale message_queue =
  fixes ok :: "'s \<Rightarrow> bool"
    and rows :: "'s \<Rightarrow> bytes \<Rightarrow> qrow option"
    and dispatched :: "'s \<Rightarrow> nat"
    and claim :: "nat \<Rightarrow> duration \<Rightarrow> 's \<Rightarrow> (go_error + claimed list) \<times> 's"
    and mark_sent :: "bytes \<Rightarrow> 's \<Rightarrow> (go_error + unit) \<times> 's"
    and mark_deferred :: "bytes \<Rightarrow> instant \<Rightarrow> bytes \<Rightarrow> 's \<Rightarrow> (go_error + unit) \<times> 's"
    and mark_failed :: "bytes \<Rightarrow> bytes \<Rightarrow> 's \<Rightarrow> (go_error + unit) \<times> 's"
    and count_sent :: "'s \<Rightarrow> (go_error + nat) \<times> 's"
  assumes claim_law:
      "ok s \<Longrightarrow> claim limit d s = (batch, s') \<Longrightarrow>
         ok s' \<and> dispatched s' = dispatched s
         \<and> (\<exists>ids. distinct ids \<and> length ids \<le> limit \<and> (\<forall>i \<in> set ids. waiting (rows s i))
              \<and> rows s' = taken ids (rows s)
              \<and> (\<forall>cs. batch = Inr cs \<longrightarrow> map c_id cs = ids
                   \<and> (\<forall>c \<in> set cs. rows s' (c_id c) = Some (Sending, c_attempts c))))"
    and sent_law:
      "ok s \<Longrightarrow> mark_sent i s = (r, s') \<Longrightarrow>
         ok s' \<and> (rows s' = moved Sent i (rows s) \<or> isl r \<and> rows s' = rows s)
         \<and> dispatched s' \<le> dispatched s + 1
         \<and> (\<not> isl r \<longrightarrow> rows s i \<noteq> None \<and> dispatched s' = dispatched s + 1)"
    and deferred_law:
      "ok s \<Longrightarrow> mark_deferred i at reason s = (r, s') \<Longrightarrow>
         ok s' \<and> (rows s' = moved Deferred i (rows s) \<or> isl r \<and> rows s' = rows s)
         \<and> dispatched s' = dispatched s"
    and failed_law:
      "ok s \<Longrightarrow> mark_failed i reason s = (r, s') \<Longrightarrow>
         ok s' \<and> (rows s' = moved Failed i (rows s) \<or> isl r \<and> rows s' = rows s)
         \<and> dispatched s' = dispatched s"
    and count_law:
      "ok s \<Longrightarrow> count_sent s = (counted, s') \<Longrightarrow>
         ok s' \<and> rows s' = rows s \<and> dispatched s' = dispatched s
         \<and> (\<forall>n. counted = Inr n \<longrightarrow> n = dispatched s)"

section \<open>The store keeps the contract\<close>

definition row_of :: "store \<Rightarrow> bytes \<Rightarrow> qrow option" where
  "row_of s i = map_option (\<lambda>m. (m_status m, m_attempts m)) (List.find (\<lambda>m. m_id m = i) (st_messages s))"

lemma row_of_tail [simp]: "row_of (tail_fates s) = row_of s"
  by (simp add: row_of_def fun_eq_iff)

lemma row_of_None: "row_of s i = None \<longleftrightarrow> i \<notin> message_ids s"
  by (auto simp: row_of_def find_None_iff message_ids_def)

lemma row_of_Some:
  assumes "messages_ok s" "m \<in> set (st_messages s)"
  shows "row_of s (m_id m) = Some (m_status m, m_attempts m)"
  using find_unique [OF messages_okD(1) [OF assms(1)] assms(2)] by (simp add: row_of_def)

lemma row_of_moved:
  assumes "st_messages s' = update_where (\<lambda>m. m_id m = i) h (st_messages s)"
    and "\<And>m. m_id (h m) = m_id m" "\<And>m. m_status (h m) = st" "\<And>m. m_attempts (h m) = m_attempts m"
  shows "row_of s' = moved st i (row_of s)"
proof
  fix j
  show "row_of s' j = moved st i (row_of s) j"
    unfolding row_of_def moved_def assms(1) find_update_where [of m_id h, OF assms(2)]
    by (cases "List.find (\<lambda>m. m_id m = j) (st_messages s)") (auto simp: assms(3,4) dest: find_SomeD)
qed

lemma row_of_taken:
  assumes "st_messages s' = claimed_rows limit d s"
  shows "row_of s' = taken (claim_ids limit s) (row_of s)"
proof
  fix j
  show "row_of s' j = taken (claim_ids limit s) (row_of s) j"
    unfolding row_of_def taken_def assms claimed_rows_def
      find_update_where [of m_id, OF claim_row_id]
    by (cases "List.find (\<lambda>m. m_id m = j) (st_messages s)") (auto simp: claim_row_def dest: find_SomeD)
qed

lemma sent_events_append:
  assumes "st_events s' = st_events s @ evs" "st_now s' = st_now s"
  shows "sent_events s' = sent_events s
    + length (filter (\<lambda>e. ev_type e = ''email.sent'' \<and> recent (st_now s) (ev_occurred_at e)) evs)"
  using assms by (simp add: sent_events_def)

lemma mark_law:
  assumes h: "\<And>now m. m_id (h now m) = m_id m" "\<And>now m. m_status (h now m) = st"
      "\<And>now m. m_attempts (h now m) = m_attempts m"
    and ok: "messages_ok s" and m: "mark what texts h i event detail s = (r, s')"
  shows "messages_ok s'" "row_of s' = moved st i (row_of s) \<or> isl r \<and> row_of s' = row_of s"
    "event \<noteq> ''email.sent'' \<Longrightarrow> sent_events s' = sent_events s"
    "sent_events s' \<le> sent_events s + 1"
    "event = ''email.sent'' \<Longrightarrow> \<not> isl r \<Longrightarrow> row_of s i \<noteq> None \<and> sent_events s' = sent_events s + 1"
proof -
  show "messages_ok s'" using mark_ok [of s h what texts i event detail, OF ok h(1)] m by simp
  have rec: "recent t t" for t by (simp add: recent_def)
  have "(row_of s' = moved st i (row_of s) \<or> isl r \<and> row_of s' = row_of s)
    \<and> (event \<noteq> ''email.sent'' \<longrightarrow> sent_events s' = sent_events s) \<and> sent_events s' \<le> sent_events s + 1
    \<and> (event = ''email.sent'' \<longrightarrow> \<not> isl r \<longrightarrow> row_of s i \<noteq> None \<and> sent_events s' = sent_events s + 1)"
  proof (rule mark_cases [of h what texts i event detail s])
    fix e assume "mark what texts h i event detail s = (Inl e, tail_fates s)"
    with m show ?thesis by (auto simp: sent_events_def)
  next
    fix r' s1 evs assume a: "mark what texts h i event detail s = (r', s1)" "queue_frame s s1"
      "st_messages s1 = update_where (\<lambda>m. m_id m = i) (h (st_now s)) (st_messages s)"
      "st_events s1 = st_events s @ evs"
      "evs = [] \<and> isl r' \<or> i \<in> m_id ` set (st_messages s) \<and> evs = [event_of i event detail s]"
    from a(1) m have [simp]: "r' = r" "s1 = s'" by auto
    have "row_of s' = moved st i (row_of s)" using row_of_moved a(3) h by simp
    moreover have "sent_events s' = sent_events s + length (filter
        (\<lambda>e. ev_type e = ''email.sent'' \<and> recent (st_now s) (ev_occurred_at e)) evs)"
      using sent_events_append a(2,4) by (simp add: queue_frame_def)
    ultimately show ?thesis
      using a(5) rec row_of_None [of s i] by (auto simp: event_of_def message_ids_def)
  qed (rule h(1))
  then show "row_of s' = moved st i (row_of s) \<or> isl r \<and> row_of s' = row_of s"
    "event \<noteq> ''email.sent'' \<Longrightarrow> sent_events s' = sent_events s"
    "sent_events s' \<le> sent_events s + 1"
    "event = ''email.sent'' \<Longrightarrow> \<not> isl r \<Longrightarrow> row_of s i \<noteq> None \<and> sent_events s' = sent_events s + 1"
    by blast+
qed

lemma claim_law_store:
  assumes ok: "messages_ok s" and c: "ClaimMessages L limit d s = (r, s')"
  shows "messages_ok s' \<and> sent_events s' = sent_events s
         \<and> (\<exists>ids. distinct ids \<and> length ids \<le> limit \<and> (\<forall>i \<in> set ids. waiting (row_of s i))
              \<and> row_of s' = taken ids (row_of s)
              \<and> (\<forall>cs. r = Inr cs \<longrightarrow> map c_id cs = ids
                   \<and> (\<forall>c \<in> set cs. row_of s' (c_id c) = Some (Sending, c_attempts c))))"
proof (cases rule: ClaimMessages_cases [of L limit d s])
  case (kept e)
  with c ok show ?thesis by (auto simp: sent_events_def taken_def intro!: exI [of _ "[]"])
next
  case (claimed r')
  let ?P = "\<lambda>m. m_id m \<in> set (claim_ids limit s)"
  let ?ids = "map m_id (filter ?P (st_messages s))"
  from claimed(1) c have r: "r' = r" and s': "s' = (tail_fates s)\<lparr>st_messages := claimed_rows limit d s\<rparr>"
    by auto
  have rows: "row_of s' = taken (claim_ids limit s) (row_of s)" using row_of_taken s' by simp
  have sub: "set (claim_ids limit s) \<subseteq> m_id ` set (st_messages s)"
    using claim_batch_due by (auto simp: claim_ids_batch)
  then have set: "set ?ids = set (claim_ids limit s)" by auto
  have dist: "distinct ?ids" by (rule distinct_map_filterI) (rule messages_okD(1) [OF ok])
  have len: "length ?ids \<le> limit"
    using set dist distinct_claim_ids [OF ok] distinct_card
    by (metis claim_ids_batch length_claim_batch length_map min.cobounded1)
  have wait: "waiting (row_of s i)" if i: "i \<in> set ?ids" for i
  proof -
    from i obtain m where m: "m \<in> set (st_messages s)" "m_id m = i" "m \<in> set (claim_batch limit s)"
      using in_batch_iff [OF ok] by auto
    with claim_batch_due row_of_Some [OF ok m(1)] show ?thesis by (auto simp: due_def waiting_def)
  qed
  have ok': "messages_ok s'" using ClaimMessages_ok [OF ok, of L limit d] c by simp
  have "map c_id cs = ?ids \<and> (\<forall>c \<in> set cs. row_of s' (c_id c) = Some (Sending, c_attempts c))"
    if "r = Inr cs" for cs
  proof -
    from that r claimed(2) read_claimed_InrD filter_claimed_rows [OF ok]
    have cs: "map c_id cs = map m_id (map (claim_row (st_now s) d) (filter ?P (st_messages s)))"
      "map c_attempts cs = map m_attempts (map (claim_row (st_now s) d) (filter ?P (st_messages s)))"
      by (metis sum.disc(2))+
    have "row_of s' (c_id (cs ! k)) = Some (Sending, c_attempts (cs ! k))" if "k < length cs" for k
    proof -
      let ?m = "map (claim_row (st_now s) d) (filter ?P (st_messages s)) ! k"
      have k: "k < length (filter ?P (st_messages s))" using that cs(1) by (metis length_map)
      then have "?m \<in> set (filter ?P (claimed_rows limit d s))"
        unfolding filter_claimed_rows [OF ok] by (metis length_map nth_mem)
      then have "?m \<in> set (st_messages s')" using s' by simp
      moreover have "m_status ?m = Sending" using k by (simp add: claim_row_def)
      moreover have "c_id (cs ! k) = m_id ?m" "c_attempts (cs ! k) = m_attempts ?m"
        using cs that k by (metis length_map nth_map)+
      ultimately show ?thesis using row_of_Some [OF ok'] by metis
    qed
    with cs(1) show ?thesis by (auto simp: o_def in_set_conv_nth)
  qed
  moreover have "row_of s' = taken ?ids (row_of s)" using rows set by (simp add: taken_def)
  moreover have "sent_events s' = sent_events s" using s' by (simp add: sent_events_def)
  ultimately show ?thesis using ok' dist len wait by blast
qed

lemma status_row_sel [simp]:
  "m_status (status_row st e now m) = st" "m_attempts (status_row st e now m) = m_attempts m"
  "m_status (defer_row r x now m) = Deferred" "m_attempts (defer_row r x now m) = m_attempts m"
  by (simp_all add: status_row_def defer_row_def)

lemma count_law_store:
  assumes "SentInLastHour s = (r, s')"
  shows "s' = tail_fates s" "r = Inr n \<Longrightarrow> n = sent_events s"
proof -
  have "snd (SentInLastHour s) = tail_fates s" by (simp add: SentInLastHour_def)
  with assms show "s' = tail_fates s" by simp
  show "r = Inr n \<Longrightarrow> n = sent_events s"
    using query_InrD [of _ _ sent_events s n s'] assms by (simp add: SentInLastHour_def sent_events_def)
qed

interpretation store_queue: message_queue messages_ok row_of sent_events
  "ClaimMessages L" MarkSent MarkDeferred MarkFailed SentInLastHour for L
proof
  fix s limit d batch s' assume "messages_ok s" "ClaimMessages L limit d s = (batch, s')"
  then show "messages_ok s' \<and> sent_events s' = sent_events s
         \<and> (\<exists>ids. distinct ids \<and> length ids \<le> limit \<and> (\<forall>i \<in> set ids. waiting (row_of s i))
              \<and> row_of s' = taken ids (row_of s)
              \<and> (\<forall>cs. batch = Inr cs \<longrightarrow> map c_id cs = ids
                   \<and> (\<forall>c \<in> set cs. row_of s' (c_id c) = Some (Sending, c_attempts c))))"
    by (rule claim_law_store)
next
  fix s i r s' assume "messages_ok s" "MarkSent i s = (r, s')"
  then show "messages_ok s' \<and> (row_of s' = moved Sent i (row_of s) \<or> isl r \<and> row_of s' = row_of s)
      \<and> sent_events s' \<le> sent_events s + 1
      \<and> (\<not> isl r \<longrightarrow> row_of s i \<noteq> None \<and> sent_events s' = sent_events s + 1)"
    using mark_law [where h = "status_row Sent None" and st = Sent] by (simp add: mark_simps)
next
  fix s i "at" reason r s' assume "messages_ok s" "MarkDeferred i at reason s = (r, s')"
  then show "messages_ok s' \<and> (row_of s' = moved Deferred i (row_of s) \<or> isl r \<and> row_of s' = row_of s)
      \<and> sent_events s' = sent_events s"
    using mark_law [where h = "defer_row at (truncate' reason 500)" and st = Deferred]
    by (simp add: mark_simps)
next
  fix s i reason r s' assume "messages_ok s" "MarkFailed i reason s = (r, s')"
  then show "messages_ok s' \<and> (row_of s' = moved Failed i (row_of s) \<or> isl r \<and> row_of s' = row_of s)
      \<and> sent_events s' = sent_events s"
    using mark_law [where h = "status_row Failed (Some (truncate' reason 500))" and st = Failed]
    by (simp add: mark_simps)
next
  fix s counted s' assume "messages_ok s" "SentInLastHour s = (counted, s')"
  then show "messages_ok s' \<and> row_of s' = row_of s \<and> sent_events s' = sent_events s
      \<and> (\<forall>n. counted = Inr n \<longrightarrow> n = sent_events s)"
    using count_law_store [of s counted s'] by (auto simp: sent_events_def)
qed

section \<open>Histories\<close>

text \<open>
  The steps that change the message tables, in any order and by any number of callers, and the
  environment's: time passes and the script of the connection is anything. The label names the
  message a step reports an outcome for.
\<close>

inductive queue_step :: "golib \<Rightarrow> bytes option \<Rightarrow> store \<Rightarrow> store \<Rightarrow> bool" for L where
  enqueue: "queue_step L None s (snd (EnqueueMessage L rand in' s))"
| claim: "queue_step L None s (snd (ClaimMessages L limit lockFor s))"
| sent: "queue_step L (Some i) s (snd (MarkSent i s))"
| deferred: "queue_step L (Some i) s (snd (MarkDeferred i retryAt reason s))"
| failed: "queue_step L (Some i) s (snd (MarkFailed i reason s))"
| event: "queue_step L None s (snd (RecordEvent i type detail s))"
| environment: "st_now s \<le> t \<Longrightarrow> queue_step L None s (s\<lparr>st_now := t, st_fates := f\<rparr>)"

definition queue_run :: "golib \<Rightarrow> store \<Rightarrow> store \<Rightarrow> bool" where
  "queue_run L = (\<lambda>s s'. \<exists>l. queue_step L l s s')\<^sup>*\<^sup>*"

text \<open>A run in which nobody reports an outcome for a message.\<close>

definition unattended_run :: "golib \<Rightarrow> bytes \<Rightarrow> store \<Rightarrow> store \<Rightarrow> bool" where
  "unattended_run L i = (\<lambda>s s'. \<exists>l. l \<noteq> Some i \<and> queue_step L l s s')\<^sup>*\<^sup>*"

lemma queue_step_ok: "queue_step L l s s' \<Longrightarrow> messages_ok s \<Longrightarrow> messages_ok s'"
  by (induction rule: queue_step.induct)
     (simp_all add: EnqueueMessage_ok ClaimMessages_ok RecordEvent_ok mark_simps mark_ok)

lemma queue_run_ok: "queue_run L s s' \<Longrightarrow> messages_ok s \<Longrightarrow> messages_ok s'"
  unfolding queue_run_def by (induction rule: rtranclp_induct) (auto intro: queue_step_ok)

text \<open>Messages and idempotency records are only ever added, and the ids and links of the old ones stay.\<close>

definition grows :: "store \<Rightarrow> store \<Rightarrow> bool" where
  "grows s s' \<longleftrightarrow>
     (\<exists>ms. map m_id (st_messages s') = map m_id (st_messages s) @ ms)
     \<and> (\<exists>rs. st_idem s' = st_idem s @ rs) \<and> (\<exists>es. st_events s' = st_events s @ es)"

lemma growsI:
  "map m_id (st_messages s') = map m_id (st_messages s) @ ms \<Longrightarrow> st_idem s' = st_idem s @ rs
   \<Longrightarrow> st_events s' = st_events s @ es \<Longrightarrow> grows s s'"
  unfolding grows_def by blast

lemma grows_refl [simp]: "grows s s"
  by (simp add: grows_def)

lemma grows_trans: "grows s s' \<Longrightarrow> grows s' s'' \<Longrightarrow> grows s s''"
  unfolding grows_def by (metis append.assoc)

lemma mark_grows:
  assumes id: "\<And>now m. m_id (h now m) = m_id m"
  shows "grows s (snd (mark what texts h i event detail s))"
proof (rule mark_cases [of h what texts i event detail s])
  fix ret s' evs assume "mark what texts h i event detail s = (ret, s')" "st_idem s' = st_idem s"
    "st_messages s' = update_where (\<lambda>m. m_id m = i) (h (st_now s)) (st_messages s)"
    "st_events s' = st_events s @ evs"
  then show ?thesis
    using map_update_where [of m_id "h (st_now s)", OF id]
    by (intro growsI [where ms = "[]" and rs = "[]" and es = evs]) auto
qed (simp_all add: id grows_def)

lemma queue_step_grows: "queue_step L l s s' \<Longrightarrow> grows s s'"
proof (induction rule: queue_step.induct)
  case (enqueue s rand in')
  show ?case
    by (cases rule: EnqueueMessage_cases [of L rand in' s]) (auto simp: grows_def accept_def)
next
  case (claim s limit lockFor)
  show ?case
    by (cases rule: ClaimMessages_cases [of L limit lockFor s]) (auto simp: grows_def)
next
  case (event s i type detail)
  show ?case
    by (cases rule: RecordEvent_cases [of i type detail s]) (auto simp: grows_def)
qed (simp_all add: mark_simps mark_grows, simp add: grows_def)

lemma queue_run_grows: "queue_run L s s' \<Longrightarrow> grows s s'"
  unfolding queue_run_def by (induction rule: rtranclp_induct) (auto intro: grows_trans queue_step_grows)

section \<open>Properties\<close>

lemma find_append: "List.find P (xs @ ys) = (case List.find P xs of None \<Rightarrow> List.find P ys | Some x \<Rightarrow> Some x)"
  by (induction xs) auto

lemma find_matches_linked:
  assumes "\<not> list_ex (matches in') rs" "n_api_key_id in2 = n_api_key_id in'"
    "n_idempotency_key in2 = n_idempotency_key in'"
  shows "List.find (matches in2) (rs @ [linked_row in' now]) = Some (linked_row in' now)"
proof -
  have "matches in2 = matches in'" using assms(2,3) by (simp add: fun_eq_iff matches_def)
  moreover have "List.find (matches in') rs = None" using assms(1) by (auto simp: find_None_iff list_ex_iff)
  ultimately show ?thesis by (simp add: find_append) (simp add: matches_def linked_row_def)
qed

text \<open>
  C14. An idempotency key accepts at most one message, for ever: after EnqueueMessage accepted a
  message under a key, whatever the queue goes through, another EnqueueMessage of the same API
  key and idempotency key adds no message; when it answers, the request was identical and the
  answer is the first message, marked as a replay, and a request that differs is refused.
\<close>

theorem EnqueueMessage_idempotent:
  assumes "n_idempotency_key in1 \<noteq> []"
    and "EnqueueMessage L rand1 in1 s = (Inr (m1, False), s1)"
    and "queue_run L s1 s2"
    and "n_api_key_id in2 = n_api_key_id in1" "n_idempotency_key in2 = n_idempotency_key in1"
    and "EnqueueMessage L rand2 in2 s2 = (r, s3)"
  shows "st_messages s3 = st_messages s2
     \<and> (\<forall>m replay. r = Inr (m, replay) \<longrightarrow>
          replay \<and> msg_id m = msg_id m1 \<and> msg_id m1 = n_id in1 \<and> n_request_hash in2 = n_request_hash in1)
     \<and> (n_request_hash in2 \<noteq> n_request_hash in1 \<longrightarrow> isl r)"
proof -
  obtain row f where row: "acceptable L rand1 in1 s row" "s1 = (accept in1 row s)\<lparr>st_fates := f\<rparr>"
    "m1 = message_of row"
    by (rule EnqueueMessage_cases [of L rand1 in1 s]) (use assms(2) in auto)
  then have m1: "msg_id m1 = n_id in1" by (auto simp: acceptable_def message_of_def new_row_def)
  from row assms(1) have nl: "\<not> list_ex (matches in1) (st_idem s)" by (simp add: acceptable_def)
  obtain rs where "st_idem s2 = st_idem s1 @ rs"
    using queue_run_grows [OF assms(3)] by (auto simp: grows_def)
  then have idem: "st_idem s2 = (st_idem s @ [linked_row in1 (st_now s)]) @ rs"
    using row(2) assms(1) by (simp add: accept_def)
  have found: "List.find (matches in2) (st_idem s2) = Some (linked_row in1 (st_now s))"
    unfolding idem find_append [of _ "st_idem s @ [linked_row in1 (st_now s)]"]
      find_matches_linked [OF nl assms(4,5)] by simp
  then have "list_ex (matches in2) (st_idem s2)" by (auto simp: list_ex_iff dest: find_SomeD)
  with assms(1,5) found assms(6) m1 show ?thesis
    by (cases rule: EnqueueMessage_cases [of L rand2 in2 s2])
       (auto simp: acceptable_def linked_row_def message_of_def)
qed

definition sample_store :: store where
  "sample_store = empty_store\<lparr>
     st_domains := [\<lparr>d_id = 1, d_name = ''example.org'', d_token = ''tok'', d_status = Verified,
       d_verified_at = Some 0, d_last_checked_at = Some 0, d_created_at = 0\<rparr>],
     st_keys := [\<lparr>k_id = 1, k_name = ''ci'', k_prefix = ''ak'', k_secret_hash = ''h'', k_scopes = [''send''],
       k_quota = 0, k_expires_at = 10, k_revoked_at = None, k_last_used_at = None,
       k_last_used_ip = None, k_created_at = 0\<rparr>]\<rparr>"

definition sample_new :: new_message where
  "sample_new = \<lparr>n_id = ''m1'', n_api_key_id = 1, n_domain_id = 1, n_from = ''a@example.org'',
     n_recipients = [''b@example.net''], n_subject = ''Hi'', n_html = [], n_text = ''Hello'',
     n_headers = ''{}'', n_tags = ''{}'', n_scheduled_at = None, n_idempotency_key = ''k1'',
     n_request_hash = ''h1''\<rparr>"

definition sample_queued :: store where
  "sample_queued = snd (EnqueueMessage sample_lib (Inr []) sample_new sample_store)"

lemma sample_enqueue:
  "EnqueueMessage sample_lib (Inr []) sample_new sample_store
     = (Inr (\<lparr>msg_id = ''m1'', msg_status = Queued, msg_created_at = 0\<rparr>, False), sample_queued)"
  by code_simp

lemma EnqueueMessage_idempotent_witness:
  "EnqueueMessage sample_lib (Inr []) (sample_new\<lparr>n_id := ''m2''\<rparr>) sample_queued
     = (Inr (\<lparr>msg_id = ''m1'', msg_status = Queued, msg_created_at = 0\<rparr>, True), sample_queued)
   \<and> st_messages sample_queued = st_messages sample_queued
   \<and> msg_id \<lparr>msg_id = ''m1'', msg_status = Queued, msg_created_at = 0\<rparr> = n_id sample_new"
proof -
  have e: "EnqueueMessage sample_lib (Inr []) (sample_new\<lparr>n_id := ''m2''\<rparr>) sample_queued
     = (Inr (\<lparr>msg_id = ''m1'', msg_status = Queued, msg_created_at = 0\<rparr>, True), sample_queued)"
    by code_simp
  have k: "n_idempotency_key sample_new \<noteq> []" by (simp add: sample_new_def)
  have run: "queue_run sample_lib sample_queued sample_queued" by (simp add: queue_run_def)
  from EnqueueMessage_idempotent [OF k sample_enqueue run _ _ e] e show ?thesis by auto
qed

text \<open>
  C13. EnqueueMessage is all or nothing under every behaviour of the connection: either no table
  changes, or the message and, with an idempotency key, its linked record appear together; the
  new row waits with no attempts, its id was free, and with a master key no recipient is stored
  in clear. An answer that is not a replay means it was added; a replay changes nothing.
\<close>

theorem EnqueueMessage_all_or_nothing:
  "\<exists>f. snd (EnqueueMessage L rand in' s) = s\<lparr>st_fates := f\<rparr>
        \<and> (isl (fst (EnqueueMessage L rand in' s))
           \<or> (\<exists>m. fst (EnqueueMessage L rand in' s) = Inr (m, True) \<and> msg_id m \<in> message_ids s))
     \<or> (\<exists>row. snd (EnqueueMessage L rand in' s) =
             s\<lparr>st_messages := st_messages s @ [row],
               st_idem := st_idem s @ (if n_idempotency_key in' = [] then []
                                       else [linked_row in' (st_now s)]),
               st_fates := f\<rparr>
          \<and> m_id row = n_id in' \<and> m_status row = Queued \<and> m_attempts row = 0
          \<and> n_id in' \<notin> message_ids s
          \<and> (st_keeper s = None \<or> m_recipients row = None \<and> m_encrypted row \<noteq> None)
          \<and> (isl (fst (EnqueueMessage L rand in' s))
             \<or> fst (EnqueueMessage L rand in' s) = Inr (message_of row, False)))"
proof (cases rule: EnqueueMessage_cases [of L rand in' s])
  case (kept e f)
  then show ?thesis by auto
next
  case (replay r row f)
  then have "msg_id (message_of row) \<in> message_ids s"
    by (auto simp: message_ids_def message_of_def dest: find_SomeD)
  with replay show ?thesis by auto
next
  case (accepted row f ret)
  from accepted(2) have "m_id row = n_id in' \<and> m_status row = Queued \<and> m_attempts row = 0
      \<and> n_id in' \<notin> message_ids s \<and> (st_keeper s = None \<or> m_recipients row = None \<and> m_encrypted row \<noteq> None)"
    by (auto simp: acceptable_def new_row_def message_ids_def packRecipients_def Let_def
        split: option.splits sum.splits)
  with accepted(1,3) show ?thesis by (auto simp: accept_def)
qed

text \<open>
  C15. ClaimMessages, when it answers, claimed as many due messages as the limit allows, the ones
  created first: every claimed message was due, and no message that stays behind although due is
  older. Exactly the claimed rows change: they are sending, locked until the lock expires, with
  one more attempt, which is the number the caller is given.
\<close>

theorem ClaimMessages_takes_the_oldest_due:
  assumes "messages_ok s" "ClaimMessages L limit lockFor s = (Inr cs, s')"
  shows "length cs = min limit (length (filter (due (st_now s)) (st_messages s)))
     \<and> st_messages s' = map (\<lambda>m. if m_id m \<in> c_id ` set cs
          then m\<lparr>m_status := Sending, m_attempts := m_attempts m + 1,
                 m_locked_until := Some (st_now s + lockFor), m_updated_at := st_now s\<rparr>
          else m) (st_messages s)
     \<and> (\<forall>m \<in> set (st_messages s). m_id m \<in> c_id ` set cs \<longrightarrow> due (st_now s) m
          \<and> (\<forall>m' \<in> set (st_messages s). due (st_now s) m' \<and> m_id m' \<notin> c_id ` set cs \<longrightarrow>
               m_created_at m \<le> m_created_at m'))
     \<and> (\<forall>c \<in> set cs. row_of s' (c_id c) = Some (Sending, c_attempts c))"
proof (cases rule: ClaimMessages_cases [of L limit lockFor s])
  case (kept e)
  with assms(2) show ?thesis by simp
next
  case (claimed r)
  let ?ids = "claim_ids limit s"
  from claimed assms(2) have s': "st_messages s' = claimed_rows limit lockFor s" and r: "r = Inr cs"
    by auto
  with claimed(2) have "read_claimed L (st_keeper s)
      (filter (\<lambda>m. m_id m \<in> set ?ids) (claimed_rows limit lockFor s)) = Inr cs" by simp
  from read_claimed_InrD [OF this, unfolded filter_claimed_rows [OF assms(1)]]
  have ids: "map c_id cs = map m_id (filter (\<lambda>m. m_id m \<in> set ?ids) (st_messages s))"
    by (simp add: o_def)
  have "set ?ids \<subseteq> m_id ` set (st_messages s)"
    using claim_batch_due by (auto simp: claim_ids_batch)
  then have set: "c_id ` set cs = set ?ids"
    unfolding set_map [symmetric] ids by auto
  have "distinct (map c_id cs)"
    unfolding ids by (rule distinct_map_filterI) (rule messages_okD(1) [OF assms(1)])
  then have "length cs = length ?ids"
    using distinct_card [OF distinct_claim_ids [OF assms(1), of limit]] distinct_card [of "map c_id cs"] set
    by simp
  then have len: "length cs = min limit (length (filter (due (st_now s)) (st_messages s)))"
    by (simp add: claim_ids_batch length_claim_batch)
  have first: "due (st_now s) m \<and> (\<forall>m' \<in> set (st_messages s). due (st_now s) m' \<and> m_id m' \<notin> set ?ids \<longrightarrow>
        m_created_at m \<le> m_created_at m')"
    if m: "m \<in> set (st_messages s)" "m_id m \<in> set ?ids" for m
    using m in_batch_iff [OF assms(1)] claim_batch_due claim_batch_first by blast
  have "st_messages s' = map (\<lambda>m. if m_id m \<in> set ?ids then claim_row (st_now s) lockFor m else m) (st_messages s)"
    unfolding s' claimed_rows_def update_where_def ..
  with len first claim_law_store [OF assms] set show ?thesis by (auto simp: claim_row_def)
qed

lemma ClaimMessages_takes_the_oldest_due_witness:
  "messages_ok sample_queued
   \<and> (\<exists>cs s'. ClaimMessages sample_lib 10 (5 * Minute) sample_queued = (Inr cs, s') \<and> length cs = 1)"
proof -
  have ok: "messages_ok sample_queued" by code_simp
  have "fst (ClaimMessages sample_lib 10 (5 * Minute) sample_queued)
      = Inr [\<lparr>c_id = ''m1'', c_from = ''a@example.org'', c_recipients = [''b@example.net''],
             c_subject = ''Hi'', c_html = [], c_text = ''Hello'', c_headers = ''{}'', c_attempts = 1\<rparr>]"
    (is "_ = Inr ?cs") by code_simp
  then obtain s' where c: "ClaimMessages sample_lib 10 (5 * Minute) sample_queued = (Inr ?cs, s')"
    by (metis prod.collapse)
  from ClaimMessages_takes_the_oldest_due [OF ok c] ok c show ?thesis by auto
qed

lemma claim_skips_sending:
  assumes "messages_ok s" "row_of s i = Some (Sending, n)" "ClaimMessages L limit d s = (r, s')"
  shows "row_of s' i = Some (Sending, n)" "r = Inr cs \<Longrightarrow> i \<notin> c_id ` set cs"
proof -
  from claim_law_store [OF assms(1,3)] obtain ids where
    w: "\<forall>i \<in> set ids. waiting (row_of s i)" "row_of s' = taken ids (row_of s)"
    "\<forall>cs. r = Inr cs \<longrightarrow> map c_id cs = ids" by blast
  from w(1) assms(2) have i: "i \<notin> set ids" by (auto simp: waiting_def)
  with w(2) assms(2) show "row_of s' i = Some (Sending, n)" by (simp add: taken_def)
  show "r = Inr cs \<Longrightarrow> i \<notin> c_id ` set cs" using w(3) i by (metis list.set_map)
qed

lemma queue_step_sending:
  assumes "queue_step L l s s'" "messages_ok s" "l \<noteq> Some i" "row_of s i = Some (Sending, n)"
  shows "row_of s' i = Some (Sending, n)"
  using assms
proof (induction rule: queue_step.induct)
  case (enqueue s rand in')
  then show ?case
    by (cases rule: EnqueueMessage_cases [of L rand in' s]) (auto simp: row_of_def accept_def find_append)
next
  case (claim s limit lockFor)
  then show ?case using claim_skips_sending(1) by (metis prod.collapse)
next
  case (sent j s)
  then show ?case using store_queue.sent_law [of s j "fst (MarkSent j s)" "snd (MarkSent j s)"]
    by (auto simp: moved_def)
next
  case (deferred j s retryAt reason)
  then show ?case
    using store_queue.deferred_law [of s j retryAt reason "fst (MarkDeferred j retryAt reason s)"
        "snd (MarkDeferred j retryAt reason s)"]
    by (auto simp: moved_def)
next
  case (failed j s reason)
  then show ?case
    using store_queue.failed_law [of s j reason "fst (MarkFailed j reason s)" "snd (MarkFailed j reason s)"]
    by (auto simp: moved_def)
next
  case (event s j type detail)
  then show ?case
    by (cases rule: RecordEvent_cases [of j type detail s]) (auto simp: row_of_def)
qed (simp add: row_of_def)

text \<open>
  C37. A message left in Sending stays there: as long as nobody reports an outcome for it, no
  amount of time and no other operation, expired lock or not, makes ClaimMessages return it
  again. A worker that dies while it holds a message, or whose report is refused, strands it.
\<close>

theorem sending_is_never_reclaimed:
  assumes "messages_ok s" "row_of s i = Some (Sending, n)" "unattended_run L i s s'"
  shows "row_of s' i = Some (Sending, n)
     \<and> (\<forall>limit lockFor cs s''. ClaimMessages L limit lockFor s' = (Inr cs, s'') \<longrightarrow> i \<notin> c_id ` set cs)"
proof -
  from assms(3) have "messages_ok s' \<and> row_of s' i = Some (Sending, n)"
    unfolding unattended_run_def
    by (induction rule: rtranclp_induct) (auto simp: assms(1,2) intro: queue_step_ok queue_step_sending)
  then show ?thesis using claim_skips_sending(2) by blast
qed

definition sample_sending :: store where
  "sample_sending = snd (ClaimMessages sample_lib 10 (5 * Minute) sample_queued)"

lemma sending_is_never_reclaimed_witness:
  "row_of (sample_sending\<lparr>st_now := 1000 * Hour, st_fates := []\<rparr>) ''m1'' = Some (Sending, 1)"
proof -
  have ok: "messages_ok sample_sending" by code_simp
  have row: "row_of sample_sending ''m1'' = Some (Sending, 1)" by code_simp
  have "st_now sample_sending \<le> 1000 * Hour" by code_simp
  then have "queue_step sample_lib None sample_sending (sample_sending\<lparr>st_now := 1000 * Hour, st_fates := []\<rparr>)"
    by (rule queue_step.environment)
  then have "unattended_run sample_lib ''m1'' sample_sending
      (sample_sending\<lparr>st_now := 1000 * Hour, st_fates := []\<rparr>)"
    unfolding unattended_run_def by blast
  from sending_is_never_reclaimed [OF ok row this] show ?thesis by simp
qed

section \<open>The history of a message\<close>

text \<open>What of a reason survives the JSON encoding: every code point but the other controls.\<close>

definition readable_rune :: "nat \<Rightarrow> bytes" where
  "readable_rune r = (if r < 32 \<and> r \<noteq> 10 \<and> r \<noteq> 13 \<and> r \<noteq> 9 then '' '' else encode_rune r)"

definition readable :: "bytes \<Rightarrow> bytes" where
  "readable s = concat (map readable_rune (runes s))"

lemma encode_rune_bytes:
  assumes "c \<in> set (encode_rune r)"
  shows "r < 128 \<and> encode_rune r = [char_of r] \<or> 128 \<le> byte c"
  using assms by (auto simp: encode_rune_def RuneError_def Let_def split: if_splits)

lemma json_unescape_plain:
  "c \<noteq> CHR 0x22 \<Longrightarrow> c \<noteq> CHR 0x5C \<Longrightarrow> json_unescape (c # s) = c # json_unescape s"
  by (cases s) auto

lemma json_unescape_append:
  "\<forall>c \<in> set xs. c \<noteq> CHR 0x22 \<and> c \<noteq> CHR 0x5C \<Longrightarrow> json_unescape (xs @ s) = xs @ json_unescape s"
  by (induction xs) (auto simp: json_unescape_plain)

lemma char_of_escapes:
  "char_of (34::nat) = CHR 0x22" "char_of (92::nat) = CHR 0x5C" "char_of (10::nat) = CHR 0x0A"
  "char_of (13::nat) = CHR 0x0D" "char_of (9::nat) = CHR 0x09"
  by code_simp+

lemma encode_rune_ascii: "r < 128 \<Longrightarrow> encode_rune r = [char_of r]"
  by (simp add: encode_rune_def Let_def)

lemma json_unescape_rune:
  "json_unescape (json_rune r @ s) = readable_rune r @ json_unescape s"
proof (cases "r = 34 \<or> r = 92 \<or> r = 10 \<or> r = 13 \<or> r = 9")
  case True
  then show ?thesis
    by (elim disjE) (simp_all add: json_rune_def readable_rune_def encode_rune_ascii char_of_escapes)
next
  case False
  have plain: "\<forall>c \<in> set (encode_rune r). c \<noteq> CHR 0x22 \<and> c \<noteq> CHR 0x5C"
  proof
    fix c assume c: "c \<in> set (encode_rune r)"
    have "byte c \<noteq> 34 \<and> byte c \<noteq> 92"
    proof (cases "r < 128 \<and> encode_rune r = [char_of r]")
      case True
      with c have "byte c = r" by simp
      with False show ?thesis by simp
    next
      case big: False
      then have "128 \<le> byte c" using encode_rune_bytes [OF c] by blast
      then show ?thesis by linarith
    qed
    then show "c \<noteq> CHR 0x22 \<and> c \<noteq> CHR 0x5C" by auto
  qed
  show ?thesis
  proof (cases "r < 32")
    case True
    with False show ?thesis by (simp add: json_rune_def readable_rune_def json_unescape_plain)
  next
    case ge: False
    then have "json_rune r = encode_rune r" "readable_rune r = encode_rune r"
      using False by (simp_all add: json_rune_def readable_rune_def)
    then show ?thesis by (simp only: json_unescape_append [OF plain])
  qed
qed

lemma detail_reason_mustJSONString: "detail_reason (mustJSONString r) = Some (readable r)"
proof -
  have "json_unescape (concat (map json_rune rs) @ CHR 0x22 # s) = concat (map readable_rune rs)" for rs s
    by (induction rs) (simp_all add: json_unescape_rune, cases s, simp_all)
  then show ?thesis
    by (simp add: detail_reason_def mustJSONString_def appendJSONString_def HasPrefix_def readable_def)
qed

lemma detail_reason_payload:
  "(case detail_reason (event_payload detail) of None \<Rightarrow> [] | Some r \<Rightarrow> r) = readable (truncate' detail 500)"
proof (cases "detail = []")
  case True
  then show ?thesis
    by (simp add: event_payload_def detail_reason_def HasPrefix_def truncate'_def readable_def)
qed (simp add: event_payload_def detail_reason_mustJSONString)

definition event_view :: "event_row \<Rightarrow> event" where
  "event_view e = \<lparr>evt_type = ev_type e,
     evt_detail = (case detail_reason (ev_detail e) of None \<Rightarrow> [] | Some r \<Rightarrow> r),
     evt_occurred_at = ev_occurred_at e\<rparr>"

text \<open>
  The history reads back what was recorded: after RecordEvent answers, EventsForMessage
  returns the earlier events of the message and the new one, sorted by time; its detail is the
  first 500 bytes of the recorded one, read as code points, with every control other than tab,
  newline and carriage return replaced by a space.
\<close>

theorem RecordEvent_roundtrip:
  assumes "RecordEvent i type detail s = (Inr (), s1)" "EventsForMessage i s1 = (Inr es, s2)"
  shows "sorted (map evt_occurred_at es)
     \<and> mset es = add_mset \<lparr>evt_type = type, evt_detail = readable (truncate' detail 500),
                          evt_occurred_at = st_now s\<rparr>
          (mset (map event_view (filter (\<lambda>e. ev_message_id e = i) (st_events s))))"
proof -
  from query_InrD [OF assms(2) [unfolded EventsForMessage_def]]
  have es: "es = map event_view (sort_key ev_occurred_at (sort_key ev_id
             (filter (\<lambda>e. ev_message_id e = i) (st_events s1))))"
    by (simp add: event_view_def [abs_def])
  have "map evt_occurred_at es = map ev_occurred_at (sort_key ev_occurred_at (sort_key ev_id
             (filter (\<lambda>e. ev_message_id e = i) (st_events s1))))"
    by (simp add: es event_view_def)
  then have sorted: "sorted (map evt_occurred_at es)" by simp
  have "st_events s1 = st_events s @ [event_of i type detail s]"
    by (cases rule: RecordEvent_cases [of i type detail s]) (use assms(1) in auto)
  with sorted show ?thesis
    by (simp add: es event_of_def event_view_def detail_reason_payload)
qed

section \<open>Recipients at rest\<close>

text \<open>
  C35. What packRecipients stores, unpackRecipients reads back with the same master key; with a
  master key nothing is stored in clear and a store without the key refuses to read, without one
  the addresses are stored as they are; the lookup hashes are those of the suppression list.
\<close>

theorem recipients_roundtrip:
  assumes "gcm_law L" "json_strings_law L" "length nonce = nonce_size" "list_all valid_utf8 rs"
  shows "\<exists>encrypted hashes clear.
       packRecipients L (Inr nonce) keeper rs = Inr (encrypted, hashes, clear)
     \<and> unpackRecipients L keeper encrypted clear = Inr rs
     \<and> hashes = map (SuppressionHash L) rs
     \<and> (case keeper of
          None \<Rightarrow> encrypted = None \<and> clear = Some rs
        | Some key \<Rightarrow> clear = None \<and> isl (unpackRecipients L None encrypted clear))"
proof (cases keeper)
  case None
  then show ?thesis by (simp add: packRecipients_def unpackRecipients_def)
next
  case (Some key)
  have j: "json_strings_enc L rs \<noteq> []" "json_strings_dec L (json_strings_enc L rs) = Some rs"
    using assms(2,4) by (auto simp: json_strings_law_def)
  then obtain c where c: "Wrap L (Inr nonce) key (json_strings_enc L rs) = Inr c"
    "c = nonce @ gcm_seal L key nonce (json_strings_enc L rs)" by (simp add: Wrap_def assms(3))
  have u: "Unwrap L key c = Inr (json_strings_enc L rs)"
    using assms(1,3) by (simp add: c(2) Unwrap_def gcm_law_def)
  have "c \<noteq> []" using assms(3) c(2) by (auto simp: nonce_size_def)
  with Some c(1) u j show ?thesis
    by (cases c) (simp_all add: packRecipients_def unpackRecipients_def)
qed

lemma recipients_roundtrip_witness:
  "\<exists>encrypted hashes clear.
       packRecipients sample_lib (Inr ''abcdefghijkl'') (Some ''k'') [''b@example.net'']
         = Inr (encrypted, hashes, clear)
     \<and> unpackRecipients sample_lib (Some ''k'') encrypted clear = Inr [''b@example.net'']"
proof -
  have "length ''abcdefghijkl'' = nonce_size" "list_all valid_utf8 [''b@example.net'']" by code_simp+
  from recipients_roundtrip [OF gcm_law_sample json_strings_law_sample this, of "Some ''k''"]
  show ?thesis by blast
qed

end
