(* ===== verification/Store_Admin.thy ===== *)
theory Store_Admin
  imports Store_Queue
begin

text \<open>
  internal/store: keys.go, dkim.go, webhooks.go and console.go, the tables around the queue: API
  keys, signing keys, webhook endpoints and deliveries, the proofs of domains, and the listings
  the console shows.
\<close>

section \<open>API keys\<close>

record api_key =
  ak_id :: int
  ak_name :: bytes
  ak_prefix :: bytes
  ak_scopes :: "bytes list"
  ak_quota :: int
  ak_expires_at :: instant
  ak_revoked_at :: "instant option"
  ak_last_used_at :: "instant option"

definition api_key_of :: "key_row \<Rightarrow> api_key" where
  "api_key_of k =
     \<lparr>ak_id = k_id k, ak_name = k_name k, ak_prefix = k_prefix k, ak_scopes = k_scopes k,
      ak_quota = k_quota k, ak_expires_at = k_expires_at k, ak_revoked_at = k_revoked_at k,
      ak_last_used_at = k_last_used_at k\<rparr>"

definition HasScope :: "api_key \<Rightarrow> bytes \<Rightarrow> bool" where
  "HasScope k want = list_ex (\<lambda>s. s = want) (ak_scopes k)"

definition Revoked :: "api_key \<Rightarrow> bool" where
  "Revoked k \<longleftrightarrow> ak_revoked_at k \<noteq> None"

text \<open>\<open>!now.Before(k.ExpiresAt)\<close>.\<close>

definition Expired :: "api_key \<Rightarrow> instant \<Rightarrow> bool" where
  "Expired k now \<longleftrightarrow> \<not> now < ak_expires_at k"

record new_api_key =
  nk_name :: bytes
  nk_prefix :: bytes
  nk_secret_hash :: bytes
  nk_scopes :: "bytes list"
  nk_quota :: int
  nk_expires_at :: instant

definition insert_key :: "new_api_key \<Rightarrow> store \<Rightarrow> go_error + api_key \<times> store" where
  "insert_key in' s =
     (let (i, s1) = nextval Api_keys s;
          row = \<lparr>k_id = i, k_name = nk_name in', k_prefix = nk_prefix in',
                 k_secret_hash = nk_secret_hash in', k_scopes = nk_scopes in', k_quota = nk_quota in',
                 k_expires_at = nk_expires_at in', k_revoked_at = None, k_last_used_at = None,
                 k_last_used_ip = None, k_created_at = st_now s\<rparr> in
      if nk_quota in' < 0 then Inl pg_check
      else if nk_quota in' \<ge> 2 ^ 31 then Inl (Msg ''integer out of range (SQLSTATE 22003)'')
      else if nk_secret_hash in' \<in> k_secret_hash ` set (st_keys s) then Inl pg_unique
      else Inr (api_key_of row, s1\<lparr>st_keys := st_keys s @ [row]\<rparr>))"

definition CreateAPIKey :: "new_api_key \<Rightarrow> store \<Rightarrow> (go_error + api_key) \<times> store" where
  "CreateAPIKey in' s =
     run_wrapped ''creating api key'' ([nk_name in', nk_prefix in'] @ nk_scopes in') (insert_key in') s"

definition APIKeyByHash :: "bytes \<Rightarrow> store \<Rightarrow> (go_error + api_key) \<times> store" where
  "APIKeyByHash hash s =
     (case run_wrapped ''loading api key'' []
             (stmt_query (\<lambda>s. List.find (\<lambda>k. k_secret_hash k = hash) (st_keys s))) s of
        (Inl e, s') \<Rightarrow> (Inl e, s')
      | (Inr None, s') \<Rightarrow> (Inl ErrNotFound, s')
      | (Inr (Some k), s') \<Rightarrow> (Inr (api_key_of k), s'))"

text \<open>An address with a zone has no inet form; the zero Addr is stored as NULL.\<close>

definition touch_key :: "int \<Rightarrow> addr \<Rightarrow> store \<Rightarrow> go_error + unit \<times> store" where
  "touch_key i a s =
     (case a of
        Addr6 v zone \<Rightarrow>
          if zone \<noteq> [] then Inl (Msg ''ERROR: invalid input syntax for type inet (SQLSTATE 22P02)'')
          else Inr ((), s\<lparr>st_keys := update_where (\<lambda>k. k_id k = i)
                 (\<lambda>k. k\<lparr>k_last_used_at := Some (st_now s), k_last_used_ip := Some a\<rparr>) (st_keys s)\<rparr>)
      | _ \<Rightarrow>
          Inr ((), s\<lparr>st_keys := update_where (\<lambda>k. k_id k = i)
                 (\<lambda>k. k\<lparr>k_last_used_at := Some (st_now s),
                        k_last_used_ip := (if a = NoAddr then None else Some a)\<rparr>) (st_keys s)\<rparr>))"

definition TouchAPIKey :: "int \<Rightarrow> addr \<Rightarrow> store \<Rightarrow> (go_error + unit) \<times> store" where
  "TouchAPIKey i a s = run_wrapped ''recording key use'' [] (touch_key i a) s"

definition revoke_update :: "int \<Rightarrow> store \<Rightarrow> go_error + nat \<times> store" where
  "revoke_update i s =
     (let p = (\<lambda>k. k_id k = i \<and> k_revoked_at k = None) in
      Inr (length (filter p (st_keys s)),
           s\<lparr>st_keys := update_where p (\<lambda>k. k\<lparr>k_revoked_at := Some (st_now s)\<rparr>) (st_keys s)\<rparr>))"

definition RevokeAPIKey :: "int \<Rightarrow> store \<Rightarrow> (go_error + unit) \<times> store" where
  "RevokeAPIKey i s =
     (case run_wrapped ''revoking key'' [] (revoke_update i) s of
        (Inl e, s') \<Rightarrow> (Inl e, s')
      | (Inr n, s') \<Rightarrow> (if n = 0 then Inl ErrNotFound else Inr (), s'))"

definition sends_of :: "int \<Rightarrow> store \<Rightarrow> nat" where
  "sends_of keyID s =
     length (filter (\<lambda>m. m_api_key_id m = Some keyID \<and> recent (st_now s) (m_created_at m)) (st_messages s))"

definition SendsInLastHour :: "int \<Rightarrow> store \<Rightarrow> (go_error + nat) \<times> store" where
  "SendsInLastHour keyID s = run_wrapped ''counting recent sends'' [] (stmt_query (sends_of keyID)) s"

section \<open>Signing keys\<close>

record signing_key =
  sk_id :: int
  sk_domain_id :: int
  sk_domain :: bytes
  sk_selector :: bytes
  sk_algorithm :: bytes
  sk_wrapped :: bytes
  sk_record :: bytes

definition signing_key_of :: "bytes \<Rightarrow> dkim_row \<Rightarrow> signing_key" where
  "signing_key_of name k =
     \<lparr>sk_id = s_id k, sk_domain_id = s_domain_id k, sk_domain = name, sk_selector = s_selector k,
      sk_algorithm = s_algorithm k, sk_wrapped = s_wrapped k, sk_record = s_record k\<rparr>"

definition insert_signing_key ::
  "int \<Rightarrow> bytes \<Rightarrow> bytes \<Rightarrow> bytes \<Rightarrow> bytes \<Rightarrow> store \<Rightarrow> go_error + signing_key \<times> store" where
  "insert_signing_key domainID selector algorithm wrapped record' s =
     (let (i, s1) = nextval Dkim_keys s;
          row = \<lparr>s_id = i, s_domain_id = domainID, s_selector = selector, s_algorithm = algorithm,
                 s_wrapped = wrapped, s_record = record', s_active = True, s_created_at = st_now s\<rparr> in
      if algorithm \<noteq> ''ed25519'' \<and> algorithm \<noteq> ''rsa'' then Inl pg_check
      else if list_ex (\<lambda>k. s_domain_id k = domainID \<and> s_selector k = selector) (st_dkim s) then Inl pg_unique
      else if domainID \<notin> d_id ` set (st_domains s) then Inl pg_foreign_key
      else Inr (signing_key_of [] row, s1\<lparr>st_dkim := st_dkim s @ [row]\<rparr>))"

definition CreateSigningKey ::
  "int \<Rightarrow> bytes \<Rightarrow> bytes \<Rightarrow> bytes \<Rightarrow> bytes \<Rightarrow> store \<Rightarrow> (go_error + signing_key) \<times> store" where
  "CreateSigningKey domainID selector algorithm wrapped record' s =
     run_wrapped ''storing signing key'' [selector, algorithm, record']
       (insert_signing_key domainID selector algorithm wrapped record') s"

text \<open>The newest active key of a domain; of keys created at the same instant, the first row.\<close>

definition newest_key :: "int \<Rightarrow> store \<Rightarrow> dkim_row option" where
  "newest_key domainID s =
     (case sort_key (\<lambda>k. - s_created_at k)
             (filter (\<lambda>k. s_domain_id k = domainID \<and> s_active k) (st_dkim s)) of
        [] \<Rightarrow> None | k # _ \<Rightarrow> Some k)"

definition key_of_domain :: "int \<Rightarrow> store \<Rightarrow> signing_key option" where
  "key_of_domain domainID s =
     (case List.find (\<lambda>d. d_id d = domainID) (st_domains s) of
        None \<Rightarrow> None
      | Some d \<Rightarrow> map_option (signing_key_of (d_name d)) (newest_key domainID s))"

definition ActiveSigningKey :: "int \<Rightarrow> store \<Rightarrow> (go_error + signing_key) \<times> store" where
  "ActiveSigningKey domainID s =
     (case run_wrapped ''loading signing key'' [] (stmt_query (key_of_domain domainID)) s of
        (Inl e, s') \<Rightarrow> (Inl e, s')
      | (Inr None, s') \<Rightarrow> (Inl ErrNotFound, s')
      | (Inr (Some k), s') \<Rightarrow> (Inr k, s'))"

definition key_of_message :: "bytes \<Rightarrow> store \<Rightarrow> signing_key option" where
  "key_of_message messageID s =
     (case List.find (\<lambda>m. m_id m = messageID) (st_messages s) of
        None \<Rightarrow> None | Some m \<Rightarrow> key_of_domain (m_domain_id m) s)"

definition SigningKeyForMessage :: "bytes \<Rightarrow> store \<Rightarrow> (go_error + signing_key) \<times> store" where
  "SigningKeyForMessage messageID s =
     (case run_wrapped ''loading signing key for message'' [messageID]
             (stmt_query (key_of_message messageID)) s of
        (Inl e, s') \<Rightarrow> (Inl e, s')
      | (Inr None, s') \<Rightarrow> (Inl ErrNotFound, s')
      | (Inr (Some k), s') \<Rightarrow> (Inr k, s'))"

definition MarkSigned :: "bytes \<Rightarrow> store \<Rightarrow> (go_error + unit) \<times> store" where
  "MarkSigned messageID s =
     run_wrapped ''recording signature'' [messageID]
       (stmt_update (\<lambda>s. s\<lparr>st_messages := update_where (\<lambda>m. m_id m = messageID)
          (\<lambda>m. m\<lparr>m_signed_at := Some (st_now s)\<rparr>) (st_messages s)\<rparr>)) s"

section \<open>Webhooks\<close>

record endpoint =
  ep_id :: int
  ep_url :: bytes
  ep_secret :: bytes

definition endpoint_of :: "endpoint_row \<Rightarrow> endpoint" where
  "endpoint_of w = \<lparr>ep_id = w_id w, ep_url = w_url w, ep_secret = w_secret w\<rparr>"

definition insert_endpoint :: "bytes \<Rightarrow> bytes \<Rightarrow> store \<Rightarrow> go_error + endpoint \<times> store" where
  "insert_endpoint url secret s =
     (let (i, s1) = nextval Webhook_endpoints s;
          row = \<lparr>w_id = i, w_url = url, w_secret = secret, w_active = True, w_created_at = st_now s\<rparr> in
      Inr (endpoint_of row, s1\<lparr>st_endpoints := st_endpoints s @ [row]\<rparr>))"

definition CreateEndpoint :: "bytes \<Rightarrow> bytes \<Rightarrow> store \<Rightarrow> (go_error + endpoint) \<times> store" where
  "CreateEndpoint url secret s =
     run_wrapped ''creating endpoint'' [url] (insert_endpoint url secret) s"

definition ActiveEndpoints :: "store \<Rightarrow> (go_error + endpoint list) \<times> store" where
  "ActiveEndpoints s =
     run_wrapped ''loading endpoints'' []
       (stmt_query (\<lambda>s. map endpoint_of (sort_key w_id (filter w_active (st_endpoints s))))) s"

text \<open>
  The INSERT of EnqueueDelivery, one active endpoint after the other; a row with the same
  endpoint and event is skipped. A message_id that names no message violates the reference, but
  only when a row is inserted; every row draws a number from the sequence.
\<close>

fun fan_out :: "bytes \<Rightarrow> bytes \<Rightarrow> bytes \<Rightarrow> endpoint_row list \<Rightarrow> store \<Rightarrow> store" where
  "fan_out eventID messageID payload [] s = s"
| "fan_out eventID messageID payload (w # ws) s =
     (let (i, s1) = nextval Webhook_deliveries s in
      if list_ex (\<lambda>l. l_endpoint_id l = w_id w \<and> l_event_id l = eventID) (st_deliveries s1)
      then fan_out eventID messageID payload ws s1
      else fan_out eventID messageID payload ws (s1\<lparr>st_deliveries := st_deliveries s1 @
        [\<lparr>l_id = i, l_endpoint_id = w_id w, l_event_id = eventID, l_message_id = Some messageID,
          l_payload = payload, l_status = DPending, l_attempts = 0, l_next_attempt = st_now s1,
          l_locked_until = None, l_last_error = None, l_created_at = st_now s1\<rparr>]\<rparr>))"

definition insert_deliveries ::
  "golib \<Rightarrow> bytes \<Rightarrow> bytes \<Rightarrow> bytes \<Rightarrow> store \<Rightarrow> go_error + unit \<times> store" where
  "insert_deliveries L eventID messageID payload s =
     (case jsonb_in L payload of
        None \<Rightarrow> Inl (Msg ''ERROR: invalid input syntax for type json (SQLSTATE 22P02)'')
      | Some p \<Rightarrow>
          (let s' = fan_out eventID messageID p (filter w_active (st_endpoints s)) s in
           if st_deliveries s' \<noteq> st_deliveries s \<and> messageID \<notin> m_id ` set (st_messages s)
           then Inl pg_foreign_key else Inr ((), s')))"

definition EnqueueDelivery ::
  "golib \<Rightarrow> bytes \<Rightarrow> bytes \<Rightarrow> bytes \<Rightarrow> store \<Rightarrow> (go_error + unit) \<times> store" where
  "EnqueueDelivery L eventID messageID payload s =
     run_wrapped ''queueing webhook delivery'' [eventID, messageID, payload]
       (insert_deliveries L eventID messageID payload) s"

record pending_delivery =
  pd_id :: int
  pd_url :: bytes
  pd_secret :: bytes
  pd_payload :: bytes
  pd_attempts :: int

definition delivery_due :: "instant \<Rightarrow> delivery_row \<Rightarrow> bool" where
  "delivery_due now l \<longleftrightarrow>
     l_status l = DPending \<and> l_next_attempt l \<le> now
     \<and> (case l_locked_until l of None \<Rightarrow> True | Some t \<Rightarrow> t < now)"

definition claim_delivery_ids :: "nat \<Rightarrow> store \<Rightarrow> int list" where
  "claim_delivery_ids limit s =
     map l_id (take limit (sort_key l_next_attempt (filter (delivery_due (st_now s)) (st_deliveries s))))"

definition claim_delivery_row :: "instant \<Rightarrow> duration \<Rightarrow> delivery_row \<Rightarrow> delivery_row" where
  "claim_delivery_row now lockFor l =
     l\<lparr>l_status := DDelivering, l_attempts := l_attempts l + 1, l_locked_until := Some (now + lockFor)\<rparr>"

text \<open>Only a row whose endpoint exists is updated and returned: the UPDATE joins the endpoints.\<close>

definition delivery_view :: "store \<Rightarrow> delivery_row \<Rightarrow> pending_delivery option" where
  "delivery_view s l =
     map_option (\<lambda>w. \<lparr>pd_id = l_id l, pd_url = w_url w, pd_secret = w_secret w, pd_payload = l_payload l,
                      pd_attempts = l_attempts l\<rparr>)
       (List.find (\<lambda>w. w_id w = l_endpoint_id l) (st_endpoints s))"

definition claim_deliveries_update ::
  "nat \<Rightarrow> duration \<Rightarrow> store \<Rightarrow> go_error + pending_delivery list \<times> store" where
  "claim_deliveries_update limit lockFor s =
     (let p = (\<lambda>l. l_id l \<in> set (claim_delivery_ids limit s) \<and> delivery_view s l \<noteq> None);
          rows = update_where p (claim_delivery_row (st_now s) lockFor) (st_deliveries s) in
      Inr (List.map_filter (delivery_view s)
             (filter (\<lambda>l. l_id l \<in> set (claim_delivery_ids limit s)) rows),
           s\<lparr>st_deliveries := rows\<rparr>))"

definition ClaimDeliveries ::
  "nat \<Rightarrow> duration \<Rightarrow> store \<Rightarrow> (go_error + pending_delivery list) \<times> store" where
  "ClaimDeliveries limit lockFor s =
     run_wrapped ''claiming deliveries'' [] (claim_deliveries_update limit lockFor) s"

definition set_delivery :: "int \<Rightarrow> (delivery_row \<Rightarrow> delivery_row) \<Rightarrow> store \<Rightarrow> store" where
  "set_delivery i f s = s\<lparr>st_deliveries := update_where (\<lambda>l. l_id l = i) f (st_deliveries s)\<rparr>"

definition MarkDeliverySucceeded :: "int \<Rightarrow> store \<Rightarrow> (go_error + unit) \<times> store" where
  "MarkDeliverySucceeded i s =
     run_wrapped ''recording delivery'' []
       (stmt_update (set_delivery i (\<lambda>l. l\<lparr>l_status := DDelivered, l_locked_until := None\<rparr>))) s"

definition RescheduleDelivery ::
  "int \<Rightarrow> instant \<Rightarrow> bytes \<Rightarrow> store \<Rightarrow> (go_error + unit) \<times> store" where
  "RescheduleDelivery i at' reason s =
     run_wrapped ''rescheduling delivery'' [truncate' reason 500]
       (stmt_update (set_delivery i (\<lambda>l. l\<lparr>l_status := DPending, l_next_attempt := at',
          l_locked_until := None, l_last_error := Some (truncate' reason 500)\<rparr>))) s"

definition MarkDeliveryFailed :: "int \<Rightarrow> bytes \<Rightarrow> store \<Rightarrow> (go_error + unit) \<times> store" where
  "MarkDeliveryFailed i reason s =
     run_wrapped ''failing delivery'' [truncate' reason 500]
       (stmt_update (set_delivery i (\<lambda>l. l\<lparr>l_status := DFailed, l_locked_until := None,
          l_last_error := Some (truncate' reason 500)\<rparr>))) s"

section \<open>Domains\<close>

record domain_proof =
  dp_id :: int
  dp_name :: bytes
  dp_token :: bytes
  dp_status :: domain_status

definition recheck_due :: "duration \<Rightarrow> instant \<Rightarrow> domain_row \<Rightarrow> bool" where
  "recheck_due olderThan now d \<longleftrightarrow>
     (d_status d = Verified \<or> d_status d = Pending)
     \<and> (case d_last_checked_at d of None \<Rightarrow> True | Some t \<Rightarrow> t < now - olderThan)"

definition due_domains :: "duration \<Rightarrow> nat \<Rightarrow> store \<Rightarrow> domain_proof list" where
  "due_domains olderThan limit s =
     (let ds = filter (recheck_due olderThan (st_now s)) (st_domains s);
          nulls = filter (\<lambda>d. d_last_checked_at d = None) ds;
          others = sort_key (\<lambda>d. the (d_last_checked_at d)) (filter (\<lambda>d. d_last_checked_at d \<noteq> None) ds) in
      map (\<lambda>d. \<lparr>dp_id = d_id d, dp_name = d_name d, dp_token = d_token d, dp_status = d_status d\<rparr>)
        (take limit (nulls @ others)))"

definition DomainsDueForRecheck ::
  "duration \<Rightarrow> nat \<Rightarrow> store \<Rightarrow> (go_error + domain_proof list) \<times> store" where
  "DomainsDueForRecheck olderThan limit s =
     run_wrapped ''loading domains for recheck'' [] (stmt_query (due_domains olderThan limit)) s"

definition set_domain :: "int \<Rightarrow> (instant \<Rightarrow> domain_row \<Rightarrow> domain_row) \<Rightarrow> store \<Rightarrow> store" where
  "set_domain i f s = s\<lparr>st_domains := update_where (\<lambda>d. d_id d = i) (f (st_now s)) (st_domains s)\<rparr>"

definition MarkDomainVerified :: "int \<Rightarrow> store \<Rightarrow> (go_error + unit) \<times> store" where
  "MarkDomainVerified i s =
     run_wrapped ''marking domain verified'' []
       (stmt_update (set_domain i (\<lambda>now d. d\<lparr>d_status := Verified,
          d_verified_at := (case d_verified_at d of None \<Rightarrow> Some now | Some t \<Rightarrow> Some t),
          d_last_checked_at := Some now\<rparr>))) s"

definition SuspendDomain :: "int \<Rightarrow> store \<Rightarrow> (go_error + unit) \<times> store" where
  "SuspendDomain i s =
     run_wrapped ''suspending domain'' []
       (stmt_update (set_domain i (\<lambda>now d. d\<lparr>d_status := Suspended, d_last_checked_at := Some now\<rparr>))) s"

definition TouchDomainCheck :: "int \<Rightarrow> store \<Rightarrow> (go_error + unit) \<times> store" where
  "TouchDomainCheck i s =
     run_wrapped ''recording domain check'' []
       (stmt_update (set_domain i (\<lambda>now d. d\<lparr>d_last_checked_at := Some now\<rparr>))) s"

section \<open>Listings\<close>

record domain_listing =
  dl_id :: int
  dl_name :: bytes
  dl_status :: domain_status
  dl_token :: bytes
  dl_selector :: bytes
  dl_record :: bytes
  dl_verified_at :: "instant option"
  dl_last_checked_at :: "instant option"

text \<open>
  LEFT JOIN: a domain with no active key is listed once with empty key columns, one with several
  once for each. The order of names is the database's collation, given by its ranks.
\<close>

definition domain_listings :: "(bytes \<Rightarrow> int) \<Rightarrow> store \<Rightarrow> domain_listing list" where
  "domain_listings collation s =
     concat (map (\<lambda>d.
       let ks = filter (\<lambda>k. s_domain_id k = d_id d \<and> s_active k) (st_dkim s);
           view = (\<lambda>selector record'. \<lparr>dl_id = d_id d, dl_name = d_name d, dl_status = d_status d,
              dl_token = d_token d, dl_selector = selector, dl_record = record',
              dl_verified_at = d_verified_at d, dl_last_checked_at = d_last_checked_at d\<rparr>) in
       if ks = [] then [view [] []] else map (\<lambda>k. view (s_selector k) (s_record k)) ks)
     (sort_key (\<lambda>d. collation (d_name d)) (st_domains s)))"

definition ListDomains :: "(bytes \<Rightarrow> int) \<Rightarrow> store \<Rightarrow> (go_error + domain_listing list) \<times> store" where
  "ListDomains collation s = run_wrapped ''listing domains'' [] (stmt_query (domain_listings collation)) s"

record key_listing =
  kl_id :: int
  kl_name :: bytes
  kl_prefix :: bytes
  kl_scopes :: "bytes list"
  kl_quota :: int
  kl_expires_at :: instant
  kl_revoked_at :: "instant option"
  kl_last_used_at :: "instant option"
  kl_last_used_ip :: "addr option"

definition key_listing_of :: "key_row \<Rightarrow> key_listing" where
  "key_listing_of k = \<lparr>kl_id = k_id k, kl_name = k_name k, kl_prefix = k_prefix k,
     kl_scopes = k_scopes k, kl_quota = k_quota k, kl_expires_at = k_expires_at k,
     kl_revoked_at = k_revoked_at k, kl_last_used_at = k_last_used_at k, kl_last_used_ip = k_last_used_ip k\<rparr>"

definition ListAPIKeys :: "store \<Rightarrow> (go_error + key_listing list) \<times> store" where
  "ListAPIKeys s =
     run_wrapped ''listing keys'' []
       (stmt_query (\<lambda>s. map key_listing_of (sort_key (\<lambda>k. - k_created_at k) (st_keys s)))) s"

record message_listing =
  ml_id :: bytes
  ml_status :: message_status
  ml_from :: bytes
  ml_recipients :: "bytes list"
  ml_subject :: bytes
  ml_attempts :: int
  ml_last_error :: "bytes option"
  ml_signed_at :: "instant option"
  ml_created_at :: instant

fun read_listing :: "golib \<Rightarrow> bytes option \<Rightarrow> message_row list \<Rightarrow> go_error + message_listing list" where
  "read_listing L keeper [] = Inr []"
| "read_listing L keeper (m # ms) =
     (case unpackRecipients L keeper (m_encrypted m) (m_recipients m) of
        Inl e \<Rightarrow> Inl e
      | Inr recipients \<Rightarrow>
          (case read_listing L keeper ms of
             Inl e \<Rightarrow> Inl e
           | Inr out \<Rightarrow>
               Inr (\<lparr>ml_id = m_id m, ml_status = m_status m, ml_from = m_from m,
                     ml_recipients = recipients, ml_subject = m_subject m, ml_attempts = m_attempts m,
                     ml_last_error = m_last_error m, ml_signed_at = m_signed_at m,
                     ml_created_at = m_created_at m\<rparr> # out)))"

definition ListMessages ::
  "golib \<Rightarrow> bytes \<Rightarrow> nat \<Rightarrow> store \<Rightarrow> (go_error + message_listing list) \<times> store" where
  "ListMessages L status limit s =
     (case run_wrapped ''listing messages'' [status]
             (stmt_query (\<lambda>s. take limit (sort_key (\<lambda>m. - m_created_at m)
                (filter (\<lambda>m. status = [] \<or> status_text (m_status m) = status) (st_messages s))))) s of
        (Inl e, s') \<Rightarrow> (Inl e, s')
      | (Inr rows, s') \<Rightarrow> (read_listing L (st_keeper s') rows, s'))"

record counts =
  n_queued :: nat
  n_sent :: nat
  n_failed :: nat
  n_deferred :: nat
  n_last_hour :: nat
  n_endpoints :: nat

definition count_messages :: "(message_row \<Rightarrow> bool) \<Rightarrow> store \<Rightarrow> nat" where
  "count_messages p s = length (filter p (st_messages s))"

definition DashboardCounts :: "store \<Rightarrow> (go_error + counts) \<times> store" where
  "DashboardCounts s =
     (case run_wrapped ''counting messages'' [] (stmt_query (\<lambda>s.
             (count_messages (\<lambda>m. m_status m = Queued) s,
              count_messages (\<lambda>m. m_status m = Sent \<or> m_status m = Delivered) s,
              count_messages (\<lambda>m. m_status m = Failed) s,
              count_messages (\<lambda>m. m_status m = Deferred) s,
              count_messages (\<lambda>m. recent (st_now s) (m_created_at m)) s))) s of
        (Inl e, s1) \<Rightarrow> (Inl e, s1)
      | (Inr (q, t, f, d, h), s1) \<Rightarrow>
          (case run_wrapped ''counting endpoints'' []
                  (stmt_query (\<lambda>s. length (filter w_active (st_endpoints s)))) s1 of
             (Inl e, s2) \<Rightarrow> (Inl e, s2)
           | (Inr n, s2) \<Rightarrow>
               (Inr \<lparr>n_queued = q, n_sent = t, n_failed = f, n_deferred = d, n_last_hour = h,
                     n_endpoints = n\<rparr>, s2)))"

end
