(* ===== verification/Delivery.thy ===== *)
theory Delivery
  imports Store_Admin
begin

text \<open>
  Package delivery, internal/delivery/engine.go: the hand-over of a message to the sending engine
  over HTTP. What the engine answers is a script of the environment; every message posted is
  recorded.
\<close>

section \<open>Model\<close>

datatype engine_result = EngineSent | Temporary | Permanent

record response =
  re_result :: engine_result
  re_reason :: bytes

record delivery_message =
  dm_id :: bytes
  dm_from :: bytes
  dm_to :: "bytes list"
  dm_subject :: bytes
  dm_html :: bytes
  dm_text :: bytes
  dm_headers :: "(bytes \<times> bytes) list"
  dm_raw :: bytes

text \<open>What client.Do gives back: an error's text, or a response with a status code.\<close>

datatype http_outcome = Unreachable bytes | Status int

record network =
  net_script :: "http_outcome list"
  net_posts :: "delivery_message list"

definition http_do :: "delivery_message \<Rightarrow> network \<Rightarrow> http_outcome \<times> network" where
  "http_do msg net =
     (let net' = net\<lparr>net_script := tl (net_script net), net_posts := net_posts net @ [msg]\<rparr> in
      (case net_script net of [] \<Rightarrow> (Unreachable ''connection refused'', net') | x # _ \<Rightarrow> (x, net')))"

text \<open>The switch over the status code.\<close>

definition engine_response :: "int \<Rightarrow> response" where
  "engine_response code =
     (if 200 \<le> code \<and> code < 300 then \<lparr>re_result = EngineSent, re_reason = []\<rparr>
      else if code = 429 \<or> code \<ge> 500 then
        \<lparr>re_result = Temporary, re_reason = ''engine returned '' @ itoa code\<rparr>
      else \<lparr>re_result = Permanent, re_reason = ''engine rejected the message with '' @ itoa code\<rparr>)"

text \<open>
  Engine.Send. Encoding a message of strings cannot fail; a request cannot be built when the URL
  does not parse.
\<close>

definition engine_Send ::
  "golib \<Rightarrow> bytes \<Rightarrow> delivery_message \<Rightarrow> network \<Rightarrow> response \<times> network" where
  "engine_Send L baseURL msg net =
     (case url_parse L (baseURL @ ''/api/inject/v1'') of
        None \<Rightarrow> (\<lparr>re_result = Permanent, re_reason = ''building request: '' @ url_error L (baseURL @ ''/api/inject/v1'')\<rparr>, net)
      | Some _ \<Rightarrow>
          (case http_do msg net of
             (Unreachable e, net') \<Rightarrow>
               (\<lparr>re_result = Temporary, re_reason = ''engine unreachable: '' @ e\<rparr>, net')
           | (Status code, net') \<Rightarrow> (engine_response code, net')))"

section \<open>Properties\<close>

text \<open>
  The engine's answer decides: a message counts as sent exactly on a 2xx status, is retried
  exactly when the engine is unreachable, throttles or fails itself, and is given up exactly on
  every other status or when no request can be made. At most one request is posted, and it
  carries the message.
\<close>

theorem engine_Send_by_status:
  assumes "engine_Send L baseURL msg net = (r, net')"
  shows "(re_result r = EngineSent \<longleftrightarrow>
            url_parse L (baseURL @ ''/api/inject/v1'') \<noteq> None
            \<and> (\<exists>c rest. net_script net = Status c # rest \<and> 200 \<le> c \<and> c < 300))
     \<and> (re_result r = Temporary \<longleftrightarrow>
            url_parse L (baseURL @ ''/api/inject/v1'') \<noteq> None
            \<and> (net_script net = [] \<or> (\<exists>e rest. net_script net = Unreachable e # rest)
               \<or> (\<exists>c rest. net_script net = Status c # rest \<and> (c = 429 \<or> 500 \<le> c))))
     \<and> net_posts net' = net_posts net @ (if url_parse L (baseURL @ ''/api/inject/v1'') = None then [] else [msg])"
  using assms
  by (cases "net_script net"; cases "hd (net_script net)")
     (auto simp: engine_Send_def http_do_def engine_response_def Let_def split: option.splits if_splits)

definition sample_post :: delivery_message where
  "sample_post = \<lparr>dm_id = ''m1'', dm_from = ''a@example.org'', dm_to = [''b@example.net''],
     dm_subject = ''Hi'', dm_html = [], dm_text = ''Hello'', dm_headers = [], dm_raw = ''raw''\<rparr>"

end
