(* ===== verification/Encoding.thy ===== *)
theory Encoding
  imports Go_Library
begin

text \<open>
  The encodings of encoding/base64, encoding/base32 and encoding/hex the program uses. The
  decoders accept what Go's do: line breaks are skipped and the unused bits of a last group are
  not checked.
\<close>

section \<open>Model\<close>

definition std_alphabet :: bytes where
  "std_alphabet = ''ABCDEFGHIJKLMNOPQRSTUVWXYZabcdefghijklmnopqrstuvwxyz0123456789+/''"

definition url_alphabet :: bytes where
  "url_alphabet = ''ABCDEFGHIJKLMNOPQRSTUVWXYZabcdefghijklmnopqrstuvwxyz0123456789-_''"

definition b32_alphabet :: bytes where
  "b32_alphabet = ''ABCDEFGHIJKLMNOPQRSTUVWXYZ234567''"

text \<open>The position of a character in an alphabet.\<close>

fun index_of :: "char \<Rightarrow> bytes \<Rightarrow> nat option" where
  "index_of c [] = None"
| "index_of c (a # as) = (if c = a then Some 0 else map_option Suc (index_of c as))"

definition sym :: "bytes \<Rightarrow> nat \<Rightarrow> char" where
  "sym alphabet i = alphabet ! i"

fun b64_enc :: "bytes \<Rightarrow> bytes \<Rightarrow> bytes \<Rightarrow> bytes" where
  "b64_enc alphabet pad (a # b # c # s) =
     [sym alphabet (byte a div 4), sym alphabet ((byte a mod 4) * 16 + byte b div 16),
      sym alphabet ((byte b mod 16) * 4 + byte c div 64), sym alphabet (byte c mod 64)]
     @ b64_enc alphabet pad s"
| "b64_enc alphabet pad [a, b] =
     [sym alphabet (byte a div 4), sym alphabet ((byte a mod 4) * 16 + byte b div 16),
      sym alphabet ((byte b mod 16) * 4)] @ pad"
| "b64_enc alphabet pad [a] =
     [sym alphabet (byte a div 4), sym alphabet ((byte a mod 4) * 16)] @ pad @ pad"
| "b64_enc alphabet pad [] = []"

definition b64_group4 :: "nat \<Rightarrow> nat \<Rightarrow> nat \<Rightarrow> nat \<Rightarrow> bytes" where
  "b64_group4 w x y z =
     [char_of (w * 4 + x div 16), char_of ((x mod 16) * 16 + y div 4), char_of ((y mod 4) * 64 + z)]"

definition b64_group3 :: "nat \<Rightarrow> nat \<Rightarrow> nat \<Rightarrow> bytes" where
  "b64_group3 w x y = [char_of (w * 4 + x div 16), char_of ((x mod 16) * 16 + y div 4)]"

definition b64_group2 :: "nat \<Rightarrow> nat \<Rightarrow> bytes" where
  "b64_group2 w x = [char_of (w * 4 + x div 16)]"

text \<open>Without padding: a rest of two or three characters is a short last group.\<close>

fun b64_raw :: "bytes \<Rightarrow> bytes \<Rightarrow> bytes option" where
  "b64_raw alphabet [] = Some []"
| "b64_raw alphabet [p] = None"
| "b64_raw alphabet [p, q] =
     (case (index_of p alphabet, index_of q alphabet) of
        (Some w, Some x) \<Rightarrow> Some (b64_group2 w x) | _ \<Rightarrow> None)"
| "b64_raw alphabet [p, q, r] =
     (case (index_of p alphabet, index_of q alphabet, index_of r alphabet) of
        (Some w, Some x, Some y) \<Rightarrow> Some (b64_group3 w x y) | _ \<Rightarrow> None)"
| "b64_raw alphabet (p # q # r # t # s) =
     (case (index_of p alphabet, index_of q alphabet, index_of r alphabet, index_of t alphabet) of
        (Some w, Some x, Some y, Some z) \<Rightarrow> map_option (\<lambda>d. b64_group4 w x y z @ d) (b64_raw alphabet s)
      | _ \<Rightarrow> None)"

text \<open>With padding: groups of four, the last one may end in one or two equals signs.\<close>

fun b64_padded :: "bytes \<Rightarrow> bytes \<Rightarrow> bytes option" where
  "b64_padded alphabet [] = Some []"
| "b64_padded alphabet (p # q # r # t # s) =
     (if t = CHR ''='' then
        (if s \<noteq> [] then None
         else if r = CHR ''='' then b64_raw alphabet [p, q] else b64_raw alphabet [p, q, r])
      else
        (case (index_of p alphabet, index_of q alphabet, index_of r alphabet, index_of t alphabet) of
           (Some w, Some x, Some y, Some z) \<Rightarrow>
             map_option (\<lambda>d. b64_group4 w x y z @ d) (b64_padded alphabet s)
         | _ \<Rightarrow> None))"
| "b64_padded alphabet s = None"

definition no_breaks :: "bytes \<Rightarrow> bytes" where
  "no_breaks s = filter (\<lambda>c. c \<noteq> CHR 0x0D \<and> c \<noteq> CHR 0x0A) s"

definition RawURL_encode :: "bytes \<Rightarrow> bytes" where "RawURL_encode s = b64_enc url_alphabet [] s"
definition RawURL_decode :: "bytes \<Rightarrow> bytes option" where
  "RawURL_decode s = b64_raw url_alphabet (no_breaks s)"
definition RawStd_encode :: "bytes \<Rightarrow> bytes" where "RawStd_encode s = b64_enc std_alphabet [] s"
definition RawStd_decode :: "bytes \<Rightarrow> bytes option" where
  "RawStd_decode s = b64_raw std_alphabet (no_breaks s)"
definition Std_encode :: "bytes \<Rightarrow> bytes" where "Std_encode s = b64_enc std_alphabet ''='' s"
definition Std_decode :: "bytes \<Rightarrow> bytes option" where
  "Std_decode s = b64_padded std_alphabet (no_breaks s)"

text \<open>
  base32 without padding, as a number: the bits of the bytes in groups of five, the last group
  filled up with zeros.
\<close>

definition bits_of_byte :: "nat \<Rightarrow> bool list" where
  "bits_of_byte b = map (\<lambda>i. odd (b div 2 ^ i)) [7, 6, 5, 4, 3, 2, 1, 0]"

fun bits_value :: "bool list \<Rightarrow> nat \<Rightarrow> nat" where
  "bits_value [] acc = acc"
| "bits_value (b # bs) acc = bits_value bs (2 * acc + (if b then 1 else 0))"

fun b32_groups :: "bool list \<Rightarrow> bytes" where
  "b32_groups (a # b # c # d # e # bs) =
     sym b32_alphabet (bits_value [a, b, c, d, e] 0) # b32_groups bs"
| "b32_groups [] = []"
| "b32_groups bs = [sym b32_alphabet (bits_value (take 5 (bs @ replicate 4 False)) 0)]"

definition Base32_encode :: "bytes \<Rightarrow> bytes" where
  "Base32_encode s = b32_groups (concat (map (bits_of_byte \<circ> of_char) s))"

section \<open>A codec\<close>

text \<open>
  What the token formats rely on: decoding what was encoded gives it back, and an encoding is
  made of visible characters of an alphabet, so a separator outside it splits unambiguously.
\<close>

locale codec =
  fixes enc :: "bytes \<Rightarrow> bytes" and dec :: "bytes \<Rightarrow> bytes option" and symbols :: "char set"
  assumes dec_enc: "dec (enc s) = Some s"
    and enc_symbols: "set (enc s) \<subseteq> symbols"
begin

lemma enc_inj: "enc s = enc t \<Longrightarrow> s = t"
  using dec_enc by (metis option.inject)

lemma Cut_enc:
  assumes "sep \<notin> symbols"
  shows "Cut (enc s @ [sep] @ r) [sep] = Some (enc s, r)"
proof -
  have "sep \<notin> set (enc s)" using assms enc_symbols by blast
  then show ?thesis using Cut_append [of sep "enc s" r] by simp
qed

end

section \<open>The codecs of the program\<close>

text \<open>An alphabet of 64 different characters, none of them a line break or padding.\<close>

definition alphabet64 :: "bytes \<Rightarrow> bool" where
  "alphabet64 al \<longleftrightarrow> length al = 64 \<and> distinct al
     \<and> CHR 0x0D \<notin> set al \<and> CHR 0x0A \<notin> set al \<and> CHR ''='' \<notin> set al"

lemma alphabets: "alphabet64 std_alphabet" "alphabet64 url_alphabet"
  by code_simp+

lemma index_of_nth: "distinct al \<Longrightarrow> i < length al \<Longrightarrow> index_of (al ! i) al = Some i"
proof (induction al arbitrary: i)
  case (Cons a al)
  then show ?case by (cases i) auto
qed simp

lemma index_sym: "alphabet64 al \<Longrightarrow> i < 64 \<Longrightarrow> index_of (sym al i) al = Some i"
  by (simp add: sym_def alphabet64_def index_of_nth)

lemma sym_in: "alphabet64 al \<Longrightarrow> i < 64 \<Longrightarrow> sym al i \<in> set al"
  by (simp add: sym_def alphabet64_def)

text \<open>The arithmetic of a group, on bytes.\<close>

lemma byte_bounds:
  "byte a div 4 < 64" "(byte a mod 4) * 16 + byte b div 16 < 64"
  "(byte b mod 16) * 4 + byte c div 64 < 64" "byte c mod 64 < 64"
  "(byte b mod 16) * 4 < 64" "(byte a mod 4) * 16 < 64"
  using byte_less_256 [of a] byte_less_256 [of b] byte_less_256 [of c] by linarith+

lemma div_place: "r < n \<Longrightarrow> (m * n + r) div n = (m::nat)"
  by simp

lemma mod_place: "r < n \<Longrightarrow> (m * n + r) mod n = (r::nat)"
  by simp

lemma div_bounds: "b < 256 \<Longrightarrow> b div 16 < (16::nat)" "c < 256 \<Longrightarrow> c div 64 < (4::nat)"
  by (simp_all add: less_mult_imp_div_less)

lemma group1: "b < 256 \<Longrightarrow> a div 4 * 4 + (a mod 4 * 16 + b div 16) div 16 = (a::nat)"
  by (simp only: div_place [OF div_bounds(1)] div_mult_mod_eq)

lemma group2:
  "b < 256 \<Longrightarrow> c < 256 \<Longrightarrow>
     (a mod 4 * 16 + b div 16) mod 16 * 16 + (b mod 16 * 4 + c div 64) div 4 = (b::nat)"
  by (simp only: mod_place [OF div_bounds(1)] div_place [OF div_bounds(2)] div_mult_mod_eq)

lemma group3: "c < 256 \<Longrightarrow> (b mod 16 * 4 + c div 64) mod 4 * 64 + c mod 64 = (c::nat)"
  by (simp only: mod_place [OF div_bounds(2)] div_mult_mod_eq)

lemma group2': "b < 256 \<Longrightarrow> (a mod 4 * 16 + b div 16) mod 16 * 16 + (b mod 16 * 4) div 4 = (b::nat)"
  using group2 [of b 0 a] by simp

lemma group1': "a div 4 * 4 + (a mod 4 * 16) div 16 = (a::nat)"
  using group1 [of 0 a] by simp

lemma group4_bytes:
  "b64_group4 (byte a div 4) (byte a mod 4 * 16 + byte b div 16) (byte b mod 16 * 4 + byte c div 64)
     (byte c mod 64) = [a, b, c]"
  unfolding b64_group4_def
  by (simp only: group1 [OF byte_less_256] group2 [OF byte_less_256 byte_less_256]
      group3 [OF byte_less_256] char_of_char)

lemma group3_bytes:
  "b64_group3 (byte a div 4) (byte a mod 4 * 16 + byte b div 16) (byte b mod 16 * 4) = [a, b]"
  unfolding b64_group3_def by (simp only: group1 [OF byte_less_256] group2' [OF byte_less_256] char_of_char)

lemma group2_bytes: "b64_group2 (byte a div 4) (byte a mod 4 * 16) = [a]"
  unfolding b64_group2_def by (simp only: group1' char_of_char)

lemmas group_bytes = group4_bytes group3_bytes group2_bytes

lemma b64_raw_enc: "alphabet64 al \<Longrightarrow> b64_raw al (b64_enc al [] s) = Some s"
  by (induction al "[] :: bytes" s rule: b64_enc.induct)
     (simp_all add: index_sym byte_bounds group_bytes)

lemma sym_neq:
  assumes "alphabet64 al" "i < 64"
  shows "sym al i \<noteq> CHR ''=''" "sym al i \<noteq> CHR 0x0D" "sym al i \<noteq> CHR 0x0A"
  using sym_in [OF assms] assms(1) by (auto simp: alphabet64_def)

lemma b64_padded_enc: "alphabet64 al \<Longrightarrow> b64_padded al (b64_enc al ''='' s) = Some s"
  by (induction al "''=''" s rule: b64_enc.induct)
     (simp_all add: index_sym sym_neq byte_bounds group_bytes)

lemma set_b64_enc: "alphabet64 al \<Longrightarrow> set (b64_enc al pad s) \<subseteq> set al \<union> set pad"
  by (induction al pad s rule: b64_enc.induct) (auto simp: sym_in byte_bounds)

lemma no_breaks_id: "CHR 0x0D \<notin> set s \<Longrightarrow> CHR 0x0A \<notin> set s \<Longrightarrow> no_breaks s = s"
  unfolding no_breaks_def by (rule filter_True) auto

lemma no_breaks_enc:
  assumes "alphabet64 al" "pad = [] \<or> pad = ''=''"
  shows "no_breaks (b64_enc al pad s) = b64_enc al pad s"
  using set_b64_enc [OF assms(1), of pad s] assms
  by (intro no_breaks_id) (auto simp: alphabet64_def)

interpretation raw_url: codec RawURL_encode RawURL_decode "set url_alphabet"
  by unfold_locales
     (use set_b64_enc [OF alphabets(2), of "[]"] in
       \<open>simp_all add: RawURL_encode_def RawURL_decode_def no_breaks_enc b64_raw_enc alphabets\<close>)

interpretation raw_std: codec RawStd_encode RawStd_decode "set std_alphabet"
  by unfold_locales
     (use set_b64_enc [OF alphabets(1), of "[]"] in
       \<open>simp_all add: RawStd_encode_def RawStd_decode_def no_breaks_enc b64_raw_enc alphabets\<close>)

interpretation std: codec Std_encode Std_decode "insert (CHR ''='') (set std_alphabet)"
  by unfold_locales
     (use set_b64_enc [OF alphabets(1), of "''=''"] in
       \<open>simp_all add: Std_encode_def Std_decode_def no_breaks_enc b64_padded_enc alphabets\<close>)

lemma sep_not_in_alphabet [simp]:
  "CHR ''.'' \<notin> set url_alphabet" "CHR ''$'' \<notin> set std_alphabet" "CHR '':'' \<notin> set std_alphabet"
  by code_simp+

end
