(* ===== verification/Unsubscribe.thy ===== *)
theory Unsubscribe
  imports Encoding Store_Base
begin

text \<open>
  Package unsubscribe, internal/unsubscribe/token.go: the signed token of a one-click link, bound
  to one recipient of one message and to an expiry.
\<close>

section \<open>Model\<close>

definition Unsubscribe_Lifetime :: duration where "Unsubscribe_Lifetime = 90 * 24 * Hour"

datatype token_error = Malformed | TokenExpired | BadSignature

record token =
  t_message_id :: bytes
  t_address :: bytes
  t_expires_at :: instant

definition DeriveSecret :: "golib \<Rightarrow> bytes \<Rightarrow> bytes" where
  "DeriveSecret L masterKey = hmac_sha256 L masterKey ''aiemail/unsubscribe/v1''"

definition payloadOf :: "golib \<Rightarrow> bytes \<Rightarrow> bytes \<Rightarrow> int \<Rightarrow> bytes" where
  "payloadOf L messageID address expiry =
     messageID @ [CHR 0x00] @ ToLower L (TrimSpace address) @ [CHR 0x00] @ itoa expiry"

definition mac :: "golib \<Rightarrow> bytes \<Rightarrow> bytes \<Rightarrow> bytes" where
  "mac L secret payload = hmac_sha256 L secret payload"

definition unsubscribe_Sign :: "golib \<Rightarrow> bytes \<Rightarrow> bytes \<Rightarrow> bytes \<Rightarrow> instant \<Rightarrow> bytes" where
  "unsubscribe_Sign L secret messageID address now =
     (let expiry = unix_seconds (now + Unsubscribe_Lifetime);
          payload = payloadOf L messageID address expiry;
          sig = mac L secret payload in
      RawURL_encode payload @ ''.'' @ RawURL_encode sig)"

definition unsubscribe_Verify :: "golib \<Rightarrow> bytes \<Rightarrow> bytes \<Rightarrow> instant \<Rightarrow> token_error + token" where
  "unsubscribe_Verify L secret token now =
     (case Cut token ''.'' of
        None \<Rightarrow> Inl Malformed
      | Some (encodedPayload, encodedSig) \<Rightarrow>
          (case RawURL_decode encodedPayload of
             None \<Rightarrow> Inl Malformed
           | Some payload \<Rightarrow>
               (case RawURL_decode encodedSig of
                  None \<Rightarrow> Inl Malformed
                | Some sig \<Rightarrow>
                    if mac L secret payload \<noteq> sig then Inl BadSignature
                    else case SplitByte payload (CHR 0x00) of
                      [i, a, x] \<Rightarrow>
                        (case ParseInt64 x of
                           None \<Rightarrow> Inl Malformed
                         | Some expiry \<Rightarrow>
                             if now > from_unix expiry then Inl TokenExpired
                             else Inr \<lparr>t_message_id = i, t_address = a, t_expires_at = from_unix expiry\<rparr>)
                    | _ \<Rightarrow> Inl Malformed)))"

definition Link :: "bytes \<Rightarrow> bytes \<Rightarrow> bytes" where
  "Link baseURL token = TrimSuffix baseURL ''/'' @ ''/u/'' @ token"

definition Headers :: "bytes \<Rightarrow> bytes \<times> bytes" where
  "Headers link = (''<'' @ link @ ''>'', ''List-Unsubscribe=One-Click'')"

section \<open>Properties\<close>

lemma itoa_no_NUL: "CHR 0x00 \<notin> set (itoa i)"
proof -
  have "\<not> isDigit (CHR 0x00)" by (simp add: isDigit_def)
  then show ?thesis using itoa_nat_digits by (auto simp: itoa_def list_all_iff)
qed

lemma SplitByte_itoa: "SplitByte (itoa i) (CHR 0x00) = [itoa i]"
proof -
  have "c \<notin> set s \<Longrightarrow> SplitByte s c = [s]" for s c by (induction s) auto
  then show ?thesis using itoa_no_NUL by blast
qed

lemma SplitByte_payload:
  assumes "CHR 0x00 \<notin> set i" "CHR 0x00 \<notin> set (ToLower L (TrimSpace a))"
  shows "SplitByte (payloadOf L i a x) (CHR 0x00) = [i, ToLower L (TrimSpace a), itoa x]"
  unfolding payloadOf_def
  using assms by (simp add: SplitByte_append SplitByte_itoa)

lemma Verify_Sign:
  assumes "CHR 0x00 \<notin> set messageID" "CHR 0x00 \<notin> set (ToLower L (TrimSpace address))"
    and "- (2 ^ 63) \<le> unix_seconds (now + Unsubscribe_Lifetime)"
        "unix_seconds (now + Unsubscribe_Lifetime) < 2 ^ 63"
  shows "unsubscribe_Verify L secret (unsubscribe_Sign L secret messageID address now) later =
           (if later > from_unix (unix_seconds (now + Unsubscribe_Lifetime)) then Inl TokenExpired
            else Inr \<lparr>t_message_id = messageID, t_address = ToLower L (TrimSpace address),
                      t_expires_at = from_unix (unix_seconds (now + Unsubscribe_Lifetime))\<rparr>)"
proof -
  let ?x = "unix_seconds (now + Unsubscribe_Lifetime)"
  let ?p = "payloadOf L messageID address ?x"
  have "Cut (unsubscribe_Sign L secret messageID address now) ''.''
      = Some (RawURL_encode ?p, RawURL_encode (mac L secret ?p))"
    using raw_url.Cut_enc [of "CHR ''.''"] by (simp add: unsubscribe_Sign_def Let_def)
  then show ?thesis
    using assms SplitByte_payload [OF assms(1,2), of ?x]
    by (simp add: unsubscribe_Verify_def raw_url.dec_enc ParseInt64_itoa)
qed

text \<open>
  A link works for its recipient until it expires and not after: Verify of a token Sign made
  gives the message and the normalised address back, for 90 days, to the second below, whatever
  the hash function is; and Verify with any secret accepts only a token whose signature is the
  keyed hash of the very payload it returns the parts of.
\<close>

theorem unsubscribe_roundtrip:
  assumes "CHR 0x00 \<notin> set messageID" "CHR 0x00 \<notin> set (ToLower L (TrimSpace address))"
    and "- (2 ^ 63) \<le> unix_seconds (now + Unsubscribe_Lifetime)"
        "unix_seconds (now + Unsubscribe_Lifetime) < 2 ^ 63"
  shows "unsubscribe_Verify L secret (unsubscribe_Sign L secret messageID address now) later =
           (if later > from_unix (unix_seconds (now + Unsubscribe_Lifetime)) then Inl TokenExpired
            else Inr \<lparr>t_message_id = messageID, t_address = ToLower L (TrimSpace address),
                      t_expires_at = from_unix (unix_seconds (now + Unsubscribe_Lifetime))\<rparr>)
     \<and> (\<forall>other tok t. unsubscribe_Verify L other tok later = Inr t \<longrightarrow>
          (\<exists>payload sig x. RawURL_decode payload = Some (t_message_id t @ [CHR 0x00] @ t_address t @ [CHR 0x00] @ x)
             \<and> RawURL_decode sig = Some (mac L other (t_message_id t @ [CHR 0x00] @ t_address t @ [CHR 0x00] @ x))
             \<and> ParseInt64 x = Some (unix_seconds (t_expires_at t)) \<and> later \<le> t_expires_at t
             \<and> Cut tok ''.'' = Some (payload, sig)))"
proof (intro conjI allI impI)
  show "unsubscribe_Verify L secret (unsubscribe_Sign L secret messageID address now) later =
           (if later > from_unix (unix_seconds (now + Unsubscribe_Lifetime)) then Inl TokenExpired
            else Inr \<lparr>t_message_id = messageID, t_address = ToLower L (TrimSpace address),
                      t_expires_at = from_unix (unix_seconds (now + Unsubscribe_Lifetime))\<rparr>)"
    by (rule Verify_Sign [OF assms])
next
  fix other tok t assume "unsubscribe_Verify L other tok later = Inr t"
  then obtain payload sig p i a x expiry where
    v: "Cut tok ''.'' = Some (payload, sig)" "RawURL_decode payload = Some p"
      "RawURL_decode sig = Some (mac L other p)" "SplitByte p (CHR 0x00) = [i, a, x]"
      "ParseInt64 x = Some expiry" "later \<le> from_unix expiry"
      "t = \<lparr>t_message_id = i, t_address = a, t_expires_at = from_unix expiry\<rparr>"
    by (auto simp: unsubscribe_Verify_def not_less split: option.splits if_splits list.splits)
  have "p = i @ [CHR 0x00] @ a @ [CHR 0x00] @ x"
    using Join_SplitByte [of p "CHR 0x00"] v(4) by (simp add: Join_def)
  with v show "\<exists>payload sig x. RawURL_decode payload = Some (t_message_id t @ [CHR 0x00] @ t_address t @ [CHR 0x00] @ x)
             \<and> RawURL_decode sig = Some (mac L other (t_message_id t @ [CHR 0x00] @ t_address t @ [CHR 0x00] @ x))
             \<and> ParseInt64 x = Some (unix_seconds (t_expires_at t)) \<and> later \<le> t_expires_at t
             \<and> Cut tok ''.'' = Some (payload, sig)"
    by auto
qed

end
