(* ===== verification/Dkim.thy ===== *)
theory Dkim
  imports Encoding Envelope
begin

text \<open>
  Package dkim, internal/dkim/custody.go and sign.go: the signing keys of the domains, wrapped at
  rest, and the signature put on every message. The DKIM implementation itself and the PKCS #8
  parser are libraries: the record \<open>dkimlib\<close>.
\<close>

section \<open>Key custody\<close>

definition ErrNoKeyMaterial :: go_error where "ErrNoKeyMaterial = Msg ''no key material''"
definition ErrBadKeyCiphertext :: go_error where
  "ErrBadKeyCiphertext = Msg ''key material could not be decrypted''"

definition NewEnvelopeKeeper :: "bytes \<Rightarrow> go_error + bytes" where
  "NewEnvelopeKeeper masterKey =
     (if length masterKey \<noteq> 32 then
        Inl (Msg (''master key must be 32 bytes, got '' @ itoa_nat (length masterKey)))
      else Inr masterKey)"

definition keeper_Wrap :: "golib \<Rightarrow> go_error + bytes \<Rightarrow> bytes \<Rightarrow> bytes \<Rightarrow> go_error + bytes" where
  "keeper_Wrap L rand key plaintext =
     (if plaintext = [] then Inl ErrNoKeyMaterial
      else case ReadFull nonce_size rand of
        Inl e \<Rightarrow> Inl (Wrapped ''generating nonce'' e)
      | Inr nonce \<Rightarrow> Inr (nonce @ gcm_seal L key nonce plaintext))"

definition keeper_Unwrap :: "golib \<Rightarrow> bytes \<Rightarrow> bytes \<Rightarrow> go_error + bytes" where
  "keeper_Unwrap L key ciphertext =
     (if length ciphertext < nonce_size then Inl ErrBadKeyCiphertext
      else case gcm_open L key (take nonce_size ciphertext) (drop nonce_size ciphertext) of
        None \<Rightarrow> Inl ErrBadKeyCiphertext
      | Some plaintext \<Rightarrow> Inr plaintext)"

record key_pair =
  kp_selector :: bytes
  kp_algorithm :: bytes
  kp_wrapped :: bytes
  kp_record :: bytes

text \<open>
  Generate: the key pair ed25519.GenerateKey drew, or its error, and the nonce. An Ed25519
  private key is 64 bytes.
\<close>

definition dkim_Generate ::
  "golib \<Rightarrow> go_error + bytes \<times> bytes \<Rightarrow> go_error + bytes \<Rightarrow> bytes \<Rightarrow> bytes \<Rightarrow> go_error + key_pair" where
  "dkim_Generate L drawn rand key selector =
     (case drawn of
        Inl e \<Rightarrow> Inl (Wrapped ''generating key'' e)
      | Inr (pub, priv) \<Rightarrow>
          (case keeper_Wrap L rand key priv of
             Inl e \<Rightarrow> Inl e
           | Inr wrapped \<Rightarrow>
               Inr \<lparr>kp_selector = selector, kp_algorithm = ''ed25519'', kp_wrapped = wrapped,
                    kp_record = ''v=DKIM1; k=ed25519; p='' @ Std_encode pub\<rparr>))"

text \<open>GenerateRSA: the PKCS #8 form of the drawn key and the PKIX form of its public half.\<close>

definition GenerateRSA ::
  "golib \<Rightarrow> go_error + bytes \<times> bytes \<Rightarrow> go_error + bytes \<Rightarrow> bytes \<Rightarrow> bytes \<Rightarrow> go_error + key_pair" where
  "GenerateRSA L drawn rand key selector =
     (case drawn of
        Inl e \<Rightarrow> Inl (Wrapped ''generating rsa key'' e)
      | Inr (pubDER, der) \<Rightarrow>
          (case keeper_Wrap L rand key der of
             Inl e \<Rightarrow> Inl e
           | Inr wrapped \<Rightarrow>
               Inr \<lparr>kp_selector = selector, kp_algorithm = ''rsa'', kp_wrapped = wrapped,
                    kp_record = ''v=DKIM1; k=rsa; p='' @ Std_encode pubDER\<rparr>))"

definition DNSRecordName :: "bytes \<Rightarrow> bytes \<Rightarrow> bytes" where
  "DNSRecordName selector domain = selector @ ''._domainkey.'' @ domain"

section \<open>Signing\<close>

definition SignatureLifetime :: duration where "SignatureLifetime = 30 * Minute"

definition OversignedHeaders :: "bytes list" where
  "OversignedHeaders =
     [''From'', ''To'', ''Cc'', ''Bcc'', ''Subject'', ''Date'', ''Message-ID'',
      ''Reply-To'', ''Content-Type'', ''Content-Transfer-Encoding'',
      ''MIME-Version'', ''Sender'', ''List-Unsubscribe'', ''List-Unsubscribe-Post'']"

record dkim_key =
  dk_domain :: bytes
  dk_selector :: bytes
  dk_algorithm :: bytes
  dk_wrapped :: bytes

datatype material = Ed25519 bytes | RSA bytes

record sign_options =
  so_domain :: bytes
  so_selector :: bytes
  so_signer :: material
  so_header_keys :: "bytes list"
  so_expiration :: instant
  so_relaxed :: bool

record dkimlib =
  pkcs8_signer :: "bytes \<Rightarrow> bool"                     \<comment> \<open>x509.ParsePKCS8PrivateKey gives a crypto.Signer\<close>
  dkim_lib_sign :: "sign_options \<Rightarrow> bytes \<Rightarrow> go_error + bytes"  \<comment> \<open>go-msgauth's dkim.Sign\<close>

definition ed25519_private_size :: nat where "ed25519_private_size = 64"

definition unwrapSigner ::
  "golib \<Rightarrow> dkimlib \<Rightarrow> bytes \<Rightarrow> bytes \<Rightarrow> bytes \<Rightarrow> go_error + material" where
  "unwrapSigner L D key algorithm wrapped =
     (case keeper_Unwrap L key wrapped of
        Inl e \<Rightarrow> Inl e
      | Inr m \<Rightarrow>
          if algorithm = ''ed25519'' then
            (if length m \<noteq> ed25519_private_size then Inl ErrBadKeyCiphertext else Inr (Ed25519 m))
          else if algorithm = ''rsa'' then
            (if pkcs8_signer D m then Inr (RSA m) else Inl ErrBadKeyCiphertext)
          else Inl (Msg (''unknown signing algorithm '' @ quote L algorithm)))"

text \<open>strings.Split for the separator CR LF: the fields of a header section.\<close>

fun split_crlf :: "bytes \<Rightarrow> bytes list" where
  "split_crlf [] = [[]]"
| "split_crlf [c] = [[c]]"
| "split_crlf (c # d # s) =
     (if c = CHR 0x0D \<and> d = CHR 0x0A then [] # split_crlf s
      else (case split_crlf (d # s) of [] \<Rightarrow> [[c]] | w # ws \<Rightarrow> (c # w) # ws))"

definition length_tag :: "bytes \<Rightarrow> bool" where
  "length_tag tag \<longleftrightarrow> HasPrefix (TrimSpace tag) ''l=''"

definition assertNoBodyLengthTag :: "golib \<Rightarrow> bytes \<Rightarrow> go_error option" where
  "assertNoBodyLengthTag L signed' =
     (let header = (case Cut signed' [CHR 0x0D, CHR 0x0A, CHR 0x0D, CHR 0x0A] of
                      Some (h, _) \<Rightarrow> h | None \<Rightarrow> signed') in
      if list_ex (\<lambda>field. HasPrefix (ToLower L field) ''dkim-signature:''
                          \<and> list_ex length_tag (SplitByte field (CHR '';'')))
           (split_crlf header)
      then Some (Msg ''refusing to emit a DKIM signature with a body-length tag'')
      else None)"

text \<open>
  Signer.Sign; \<open>now\<close> is time.Now(). Both algorithms the switch knows set relaxed
  canonicalisation; any other was already refused by unwrapSigner.
\<close>

definition dkim_Sign ::
  "golib \<Rightarrow> dkimlib \<Rightarrow> bytes \<Rightarrow> instant \<Rightarrow> dkim_key \<Rightarrow> bytes \<Rightarrow> go_error + bytes" where
  "dkim_Sign L D keeper now key message =
     (if message = [] then Inl (Msg ''nothing to sign'')
      else case unwrapSigner L D keeper (dk_algorithm key) (dk_wrapped key) of
        Inl e \<Rightarrow> Inl e
      | Inr signer \<Rightarrow>
          (let options = \<lparr>so_domain = dk_domain key, so_selector = dk_selector key, so_signer = signer,
                          so_header_keys = OversignedHeaders, so_expiration = now + SignatureLifetime,
                          so_relaxed = (dk_algorithm key = ''ed25519'' \<or> dk_algorithm key = ''rsa'')\<rparr> in
           case dkim_lib_sign D options message of
             Inl e \<Rightarrow> Inl (Wrapped ''signing message'' e)
           | Inr signed' \<Rightarrow>
               (case assertNoBodyLengthTag L signed' of
                  Some e \<Rightarrow> Inl e
                | None \<Rightarrow> Inr signed')))"

section \<open>Properties\<close>


definition sample_dkim :: dkimlib where
  "sample_dkim = \<lparr>pkcs8_signer = (\<lambda>m. True),
     dkim_lib_sign = (\<lambda>o' m. Inr (''DKIM-Signature: v=1'' @ [CHR 0x0D, CHR 0x0A] @ m))\<rparr>"

definition sample_dkim_key :: dkim_key where
  "sample_dkim_key = \<lparr>dk_domain = ''example.org'', dk_selector = ''s1'', dk_algorithm = ''rsa'',
     dk_wrapped = ''abcdefghijklTkey''\<rparr>"


text \<open>
  The check looks at lines, not at header fields: a body-length tag on a continuation line of a
  folded DKIM-Signature header passes it.
\<close>

lemma folded_length_tag_passes:
  "assertNoBodyLengthTag sample_lib
     (''DKIM-Signature: v=1;'' @ [CHR 0x0D, CHR 0x0A] @ '' l=10; b=x'' @ [CHR 0x0D, CHR 0x0A]) = None"
  by code_simp

end
