(* ===== verification/Worker.thy ===== *)
theory Worker
  imports Delivery Mail_Build Bounce Unsubscribe Dkim
begin

text \<open>
  Package worker, internal/worker/worker.go: the loop that claims messages, signs them, hands them
  to the engine and records the outcome. The worker sees its collaborators through interfaces;
  they are records of operations on a common state here, whose type is a parameter.
\<close>

section \<open>Model\<close>

definition batchSize :: nat where "batchSize = 10"
definition lockDuration :: duration where "lockDuration = 5 * Minute"
definition idleInterval :: duration where "idleInterval = 5 * Second"
definition MaxAttempts :: int where "MaxAttempts = 8"

record 's queue =
  q_claim :: "nat \<Rightarrow> duration \<Rightarrow> 's \<Rightarrow> (go_error + claimed list) \<times> 's"
  q_sent :: "bytes \<Rightarrow> 's \<Rightarrow> (go_error + unit) \<times> 's"
  q_deferred :: "bytes \<Rightarrow> instant \<Rightarrow> bytes \<Rightarrow> 's \<Rightarrow> (go_error + unit) \<times> 's"
  q_failed :: "bytes \<Rightarrow> bytes \<Rightarrow> 's \<Rightarrow> (go_error + unit) \<times> 's"
  q_count :: "'s \<Rightarrow> (go_error + nat) \<times> 's"

record 's key_store =
  ks_key :: "bytes \<Rightarrow> 's \<Rightarrow> (go_error + signing_key) \<times> 's"
  ks_signed :: "bytes \<Rightarrow> 's \<Rightarrow> (go_error + unit) \<times> 's"

text \<open>
  The fields that are interface values are \<open>None\<close> for nil. \<open>wk_now\<close> is time.Now() and
  \<open>wk_boundary\<close> the boundary drawn for a multipart message.
\<close>

record 's worker =
  wk_queue :: "'s queue"
  wk_send :: "delivery_message \<Rightarrow> 's \<Rightarrow> response \<times> 's"
  wk_keys :: "'s key_store option"
  wk_signer :: "(dkim_key \<Rightarrow> bytes \<Rightarrow> 's \<Rightarrow> go_error + bytes) option"
  wk_events :: "(bytes \<Rightarrow> bytes \<Rightarrow> bytes \<Rightarrow> 's \<Rightarrow> (go_error + unit) \<times> 's) option"
  wk_suppress :: "(bytes \<Rightarrow> bytes \<Rightarrow> bytes \<Rightarrow> bytes \<Rightarrow> 's \<Rightarrow> (go_error + unit) \<times> 's) option"
  wk_secret :: bytes
  wk_base_url :: bytes
  wk_max_per_hour :: int
  wk_now :: "'s \<Rightarrow> instant"
  wk_boundary :: "'s \<Rightarrow> bytes"

text \<open>BuildPayload of webhooks.go; encoding strings cannot fail.\<close>

definition BuildPayload :: "golib \<Rightarrow> bytes \<Rightarrow> bytes \<Rightarrow> bytes \<Rightarrow> bytes \<Rightarrow> instant \<Rightarrow> bytes" where
  "BuildPayload L eventID eventType messageID reason at' =
     json_event_enc L eventID eventType (rfc3339 L at')
       ([(''email_id'', messageID)] @ (if reason \<noteq> [] then [(''reason'', reason)] else []))"

definition event_id :: "bytes \<Rightarrow> bytes \<Rightarrow> int \<Rightarrow> bytes" where
  "event_id messageID eventType attempt = messageID @ '':'' @ eventType @ '':'' @ itoa attempt"

definition publish ::
  "golib \<Rightarrow> 's worker \<Rightarrow> bytes \<Rightarrow> bytes \<Rightarrow> bytes \<Rightarrow> int \<Rightarrow> 's \<Rightarrow> 's" where
  "publish L w messageID eventType reason attempt s =
     (case wk_events w of
        None \<Rightarrow> s
      | Some enqueue \<Rightarrow>
          let eventID = event_id messageID eventType attempt in
          snd (enqueue eventID messageID
                 (BuildPayload L eventID eventType messageID reason (wk_now w s)) s))"

definition fail ::
  "golib \<Rightarrow> 's worker \<Rightarrow> claimed \<Rightarrow> bytes \<Rightarrow> 's \<Rightarrow> 's" where
  "fail L w msg reason s =
     (case q_failed (wk_queue w) (c_id msg) reason s of
        (Inl e, s') \<Rightarrow> s'
      | (Inr _, s') \<Rightarrow> publish L w (c_id msg) ''email.failed'' reason (c_attempts msg) s')"

text \<open>
  Backoff. The doubling is exact in a float64: a minute in nanoseconds times a power of two up to
  \<open>2 ^ 20\<close> is below \<open>2 ^ 56\<close> with at most 36 significant bits.
\<close>

definition Backoff :: "int \<Rightarrow> duration" where
  "Backoff attempt0 =
     (let attempt = (if attempt0 < 1 then 1 else attempt0);
          shift = nat (min (attempt - 1) 20);
          delay = Minute * 2 ^ shift in
      if delay > 6 * Hour \<or> delay \<le> 0 then 6 * Hour else delay)"

definition decodeHeaders :: "golib \<Rightarrow> bytes \<Rightarrow> (bytes \<times> bytes) list" where
  "decodeHeaders L raw =
     (if raw = [] then [] else case json_map_dec L raw of None \<Rightarrow> [] | Some m \<Rightarrow> m)"

definition suppressionReason :: "kind \<Rightarrow> bytes" where
  "suppressionReason k = (if k = Complaint then ''complaint'' else ''hard_bounce'')"

definition suppressIfAddressIsBad ::
  "golib \<Rightarrow> 's worker \<Rightarrow> claimed \<Rightarrow> bytes \<Rightarrow> 's \<Rightarrow> 's" where
  "suppressIfAddressIsBad L w msg reason s =
     (case wk_suppress w of
        None \<Rightarrow> s
      | Some suppress \<Rightarrow>
          let verdict = Classify L reason in
          if \<not> Suppresses (v_kind verdict) then s
          else fold (\<lambda>recipient s. snd (suppress recipient (suppressionReason (v_kind verdict))
                                       (v_reason verdict) (c_id msg) s))
                 (c_recipients msg) s)"

definition build_error_text :: "golib \<Rightarrow> build_error \<Rightarrow> bytes" where
  "build_error_text L e =
     (case e of
        BadField m \<Rightarrow> mail_error_text L m
      | NoRecipient \<Rightarrow> ''at least one recipient is required''
      | BadHeader name \<Rightarrow> name @ '': value contains a control character'')"

definition unsubscribe_url :: "golib \<Rightarrow> 's worker \<Rightarrow> claimed \<Rightarrow> 's \<Rightarrow> bytes" where
  "unsubscribe_url L w msg s =
     (if wk_base_url w \<noteq> [] then
        (case c_recipients msg of
           [] \<Rightarrow> []
         | r # _ \<Rightarrow> Link (wk_base_url w) (unsubscribe_Sign L (wk_secret w) (c_id msg) r (wk_now w s)))
      else [])"

definition envelope_of :: "golib \<Rightarrow> 's worker \<Rightarrow> claimed \<Rightarrow> signing_key \<Rightarrow> 's \<Rightarrow> envelope" where
  "envelope_of L w msg key s =
     \<lparr>e_message_id = c_id msg @ ''@'' @ sk_domain key, e_from = c_from msg, e_to = c_recipients msg,
      e_subject = c_subject msg, e_html = c_html msg, e_text = c_text msg, e_reply_to = [],
      e_extra = decodeHeaders L (c_headers msg), e_date = None,
      e_unsubscribe_url = unsubscribe_url L w msg s\<rparr>"

definition sign :: "golib \<Rightarrow> 's worker \<Rightarrow> claimed \<Rightarrow> 's \<Rightarrow> (go_error + bytes) \<times> 's" where
  "sign L w msg s =
     (case (wk_signer w, wk_keys w) of
        (Some signer, Some keys) \<Rightarrow>
          (case ks_key keys (c_id msg) s of
             (Inl e, s1) \<Rightarrow> (Inl (Wrapped ''no active signing key for this domain'' e), s1)
           | (Inr key, s1) \<Rightarrow>
               (case Build L (wk_now w s1) (wk_boundary w s1) (envelope_of L w msg key s1) of
                  Inl e \<Rightarrow> (Inl (Msg (build_error_text L e)), s1)
                | Inr raw \<Rightarrow>
                    (case signer \<lparr>dk_domain = sk_domain key, dk_selector = sk_selector key,
                                  dk_algorithm = sk_algorithm key, dk_wrapped = sk_wrapped key\<rparr> raw s1 of
                       Inl e \<Rightarrow> (Inl e, s1)
                     | Inr signed' \<Rightarrow> (Inr signed', snd (ks_signed keys (c_id msg) s1)))))
      | _ \<Rightarrow> (Inl (Msg ''no signing key is configured''), s))"

definition post_of :: "golib \<Rightarrow> claimed \<Rightarrow> bytes \<Rightarrow> delivery_message" where
  "post_of L msg raw =
     \<lparr>dm_id = c_id msg, dm_from = c_from msg, dm_to = c_recipients msg, dm_subject = c_subject msg,
      dm_html = c_html msg, dm_text = c_text msg, dm_headers = decodeHeaders L (c_headers msg),
      dm_raw = raw\<rparr>"

definition deliver :: "golib \<Rightarrow> 's worker \<Rightarrow> claimed \<Rightarrow> 's \<Rightarrow> 's" where
  "deliver L w msg s =
     (case sign L w msg s of
        (Inl e, s1) \<Rightarrow> fail L w msg (''could not sign message: '' @ error_text e) s1
      | (Inr raw, s1) \<Rightarrow>
          (case wk_send w (post_of L msg raw) s1 of
             (resp, s2) \<Rightarrow>
               (case re_result resp of
                  EngineSent \<Rightarrow>
                    (case q_sent (wk_queue w) (c_id msg) s2 of
                       (Inl e, s3) \<Rightarrow> s3
                     | (Inr _, s3) \<Rightarrow> publish L w (c_id msg) ''email.sent'' [] (c_attempts msg) s3)
                | Temporary \<Rightarrow>
                    if c_attempts msg \<ge> MaxAttempts then
                      fail L w msg (''gave up after repeated temporary failures: '' @ re_reason resp) s2
                    else
                      (case q_deferred (wk_queue w) (c_id msg)
                              (wk_now w s2 + Backoff (c_attempts msg)) (re_reason resp) s2 of
                         (Inl e, s3) \<Rightarrow> s3
                       | (Inr _, s3) \<Rightarrow>
                           publish L w (c_id msg) ''email.deferred'' (re_reason resp) (c_attempts msg) s3)
                | Permanent \<Rightarrow>
                    fail L w msg (re_reason resp) (suppressIfAddressIsBad L w msg (re_reason resp) s2))))"

text \<open>tick up to the claim: the ceiling is checked first.\<close>

definition tick_claim :: "'s worker \<Rightarrow> 's \<Rightarrow> (go_error + claimed list) \<times> 's" where
  "tick_claim w s =
     (if wk_max_per_hour w > 0 then
        (case q_count (wk_queue w) s of
           (Inl e, s1) \<Rightarrow> (Inl e, s1)
         | (Inr sent, s1) \<Rightarrow>
             if int sent \<ge> wk_max_per_hour w then (Inr [], s1)
             else q_claim (wk_queue w) batchSize lockDuration s1)
      else q_claim (wk_queue w) batchSize lockDuration s)"

definition tick :: "golib \<Rightarrow> 's worker \<Rightarrow> 's \<Rightarrow> (go_error + nat) \<times> 's" where
  "tick L w s =
     (case tick_claim w s of
        (Inl e, s1) \<Rightarrow> (Inl e, s1)
      | (Inr claimed, s1) \<Rightarrow> (Inr (length claimed), fold (deliver L w) claimed s1))"

text \<open>The pause of Run between two ticks.\<close>

definition run_wait :: "go_error + nat \<Rightarrow> duration" where
  "run_wait r = (case r of Inl e \<Rightarrow> idleInterval | Inr n \<Rightarrow> if n = 0 then idleInterval else 0)"

section \<open>Back-off\<close>

lemma Backoff_min: "Backoff a = min (Minute * 2 ^ nat (min (max a 1 - 1) 20)) (6 * Hour)"
proof -
  have "(if a < 1 then 1 else a) = max a 1" by auto
  moreover have "\<not> Minute * 2 ^ k \<le> 0" for k by simp
  ultimately show ?thesis by (auto simp: Backoff_def Let_def min_def)
qed

lemma Backoff_mono: "a \<le> b \<Longrightarrow> Backoff a \<le> Backoff b"
proof -
  assume "a \<le> b"
  then have "nat (min (max a 1 - 1) 20) \<le> nat (min (max b 1 - 1) 20)" by (auto intro!: nat_mono)
  then have "(2::int) ^ nat (min (max a 1 - 1) 20) \<le> 2 ^ nat (min (max b 1 - 1) 20)"
    by (intro power_increasing) auto
  then show ?thesis unfolding Backoff_min by (intro min.mono mult_left_mono) auto
qed

text \<open>
  Backoff starts at one minute, doubles with every attempt and stops at six hours; it is
  never shorter for a later attempt, and the seven waits between the eight attempts of a message
  add up to 127 minutes.
\<close>

theorem Backoff_exponential:
  "(\<forall>a b. a \<le> b \<longrightarrow> Backoff a \<le> Backoff b)
   \<and> (\<forall>a. Minute \<le> Backoff a \<and> Backoff a \<le> 6 * Hour)
   \<and> (\<forall>n \<le> 8. Backoff (int n + 1) = Minute * 2 ^ n)
   \<and> (\<forall>a \<ge> 10. Backoff a = 6 * Hour)
   \<and> sum_list (map Backoff [1 .. MaxAttempts - 1]) = 127 * Minute"
proof (intro conjI allI impI)
  fix a b :: int assume "a \<le> b" then show "Backoff a \<le> Backoff b" by (rule Backoff_mono)
next
  fix a
  have "(1::int) \<le> 2 ^ nat (min (max a 1 - 1) 20)" by simp
  then show "Minute \<le> Backoff a" unfolding Backoff_min by (simp add: min_def)
  show "Backoff a \<le> 6 * Hour" unfolding Backoff_min by simp
next
  fix n :: nat assume n: "n \<le> 8"
  have "(2::int) ^ n \<le> 2 ^ 8" using n by (intro power_increasing) auto
  moreover have "nat (min (max (int n + 1) 1 - 1) 20) = n" using n by auto
  ultimately show "Backoff (int n + 1) = Minute * 2 ^ n" unfolding Backoff_min by (simp add: min_def)
next
  fix a :: int assume "10 \<le> a"
  then have "9 \<le> nat (min (max a 1 - 1) 20)" by auto
  then have "(2::int) ^ 9 \<le> 2 ^ nat (min (max a 1 - 1) 20)" by (intro power_increasing) auto
  then show "Backoff a = 6 * Hour" unfolding Backoff_min by (simp add: min_def)
next
  show "sum_list (map Backoff [1 .. MaxAttempts - 1]) = 127 * Minute" by code_simp
qed

end
