(* ===== verification/Worker_Flight.thy ===== *)
theory Worker_Flight
  imports Worker
begin

text \<open>
  What the delivery loop of internal/worker/worker.go does to the queue, proved once for every
  store that keeps the contract of \<open>message_queue\<close>: the abstract machine of a message's life, the
  contract a worker has with its collaborators as a locale, and the invariant of the messages in
  flight.
\<close>

section \<open>The discipline of the queue\<close>

text \<open>
  The abstract machine the delivery path implements: a message waits with no attempts, is taken
  with one more attempt, and then is sent, given up, or put back as long as attempts are left.
\<close>

inductive qstep :: "(bytes \<Rightarrow> qrow option) \<Rightarrow> (bytes \<Rightarrow> qrow option) \<Rightarrow> bool" where
  arrive: "f i = None \<Longrightarrow> qstep f (f(i \<mapsto> (Queued, 0)))"
| take: "f i = Some (st, n) \<Longrightarrow> st = Queued \<or> st = Deferred \<Longrightarrow> qstep f (f(i \<mapsto> (Sending, n + 1)))"
| sent: "f i = Some (Sending, n) \<Longrightarrow> qstep f (f(i \<mapsto> (Sent, n)))"
| give_up: "f i = Some (Sending, n) \<Longrightarrow> qstep f (f(i \<mapsto> (Failed, n)))"
| put_back: "f i = Some (Sending, n) \<Longrightarrow> n < MaxAttempts \<Longrightarrow> qstep f (f(i \<mapsto> (Deferred, n)))"

definition row_ok :: "qrow \<Rightarrow> bool" where
  "row_ok r \<longleftrightarrow>
     (case r of (st, n) \<Rightarrow>
        (st = Queued \<and> n = 0) \<or> (st = Deferred \<and> 1 \<le> n \<and> n < MaxAttempts)
        \<or> ((st = Sending \<or> st = Sent \<or> st = Failed) \<and> 1 \<le> n \<and> n \<le> MaxAttempts))"

definition rows_ok :: "(bytes \<Rightarrow> qrow option) \<Rightarrow> bool" where
  "rows_ok f \<longleftrightarrow> (\<forall>i r. f i = Some r \<longrightarrow> row_ok r)"

lemma rows_okD: "rows_ok f \<Longrightarrow> f i = Some r \<Longrightarrow> row_ok r"
  unfolding rows_ok_def by blast

lemma rows_ok_upd: "rows_ok f \<Longrightarrow> row_ok r \<Longrightarrow> rows_ok (f(i \<mapsto> r))"
  unfolding rows_ok_def by auto

lemma qstep_ok: "qstep f g \<Longrightarrow> rows_ok f \<Longrightarrow> rows_ok g"
proof (induction rule: qstep.induct)
  case (take f i st n)
  from rows_okD [OF take(3,1)] take(2) have "row_ok (Sending, n + 1)"
    by (auto simp: row_ok_def MaxAttempts_def)
  with take(3) show ?case by (rule rows_ok_upd)
next
  case (put_back f i n)
  from rows_okD [OF put_back(3,1)] put_back(2) have "row_ok (Deferred, n)"
    by (simp add: row_ok_def)
  with put_back(3) show ?case by (rule rows_ok_upd)
next
  case (sent f i n)
  from rows_okD [OF sent(2,1)] have "row_ok (Sent, n)" by (simp add: row_ok_def)
  with sent(2) show ?case by (rule rows_ok_upd)
next
  case (give_up f i n)
  from rows_okD [OF give_up(2,1)] have "row_ok (Failed, n)" by (simp add: row_ok_def)
  with give_up(2) show ?case by (rule rows_ok_upd)
next
  case (arrive f i)
  then show ?case by (intro rows_ok_upd) (simp_all add: row_ok_def)
qed

lemma qsteps_ok: "qstep\<^sup>*\<^sup>* f g \<Longrightarrow> rows_ok f \<Longrightarrow> rows_ok g"
  by (induction rule: rtranclp_induct) (auto intro: qstep_ok)

text \<open>Sent and given-up messages never change again.\<close>

lemma qstep_final: "qstep f g \<Longrightarrow> f i = Some (st, n) \<Longrightarrow> st = Sent \<or> st = Failed \<Longrightarrow> g i = Some (st, n)"
  by (induction rule: qstep.induct) auto

lemma moved_qstep:
  assumes "f i = Some (Sending, n)" "st = Sent \<or> st = Failed \<or> st = Deferred \<and> n < MaxAttempts"
  shows "qstep f (moved st i f)"
  using assms qstep.sent [of f i n] qstep.give_up [of f i n] qstep.put_back [of f i n]
  by (auto simp: moved_def)

lemma taken_qsteps:
  assumes "distinct ids" "\<And>i. i \<in> set ids \<Longrightarrow> waiting (f i)"
  shows "qstep\<^sup>*\<^sup>* f (taken ids f)"
  using assms
proof (induction ids rule: rev_induct)
  case Nil
  then show ?case by (simp add: taken_def)
next
  case (snoc i ids)
  have "waiting (f i)" using snoc.prems(2) by simp
  then obtain st n where i: "f i = Some (st, n)" "st = Queued \<or> st = Deferred"
    unfolding waiting_def by blast
  have "taken ids f i = Some (st, n)" using snoc.prems(1) i by (simp add: taken_def)
  then have "qstep (taken ids f) ((taken ids f)(i \<mapsto> (Sending, n + 1)))" using i(2) by (rule qstep.take)
  moreover have "(taken ids f)(i \<mapsto> (Sending, n + 1)) = taken (ids @ [i]) f"
    using i(1) by (auto simp: taken_def fun_eq_iff)
  moreover have "qstep\<^sup>*\<^sup>* f (taken ids f)" using snoc by simp
  ultimately show ?case by (metis rtranclp.rtrancl_into_rtrancl)
qed

section \<open>A worker among its collaborators\<close>

text \<open>
  What the worker relies on beyond the queue's contract: signing, publishing and suppressing
  leave the queue alone, and only sending posts, at most once, the message it is given.
\<close>

definition quiet ::
  "('s \<Rightarrow> bool) \<Rightarrow> ('s \<Rightarrow> bytes \<Rightarrow> qrow option) \<Rightarrow> ('s \<Rightarrow> nat) \<Rightarrow> ('s \<Rightarrow> bytes \<Rightarrow> nat) \<Rightarrow> 's \<Rightarrow> 's \<Rightarrow> bool" where
  "quiet ok rows dispatched posts s s' \<longleftrightarrow>
     ok s' \<and> rows s' = rows s \<and> dispatched s' = dispatched s \<and> posts s' = posts s"

lemma quiet_refl: "ok s \<Longrightarrow> quiet ok rows dispatched posts s s"
  by (simp add: quiet_def)

lemma quiet_trans:
  "quiet ok rows dispatched posts s s' \<Longrightarrow> quiet ok rows dispatched posts s' s''
   \<Longrightarrow> quiet ok rows dispatched posts s s''"
  by (simp add: quiet_def)

lemma quiet_ok: "quiet ok rows dispatched posts s s' \<Longrightarrow> ok s'"
  by (simp add: quiet_def)

text \<open>What a claim puts into a worker's hands.\<close>

definition claims :: "go_error + claimed list \<Rightarrow> claimed list" where
  "claims r = (case r of Inl e \<Rightarrow> [] | Inr cs \<Rightarrow> cs)"

lemma claims_simps [simp]: "claims (Inl e) = []" "claims (Inr cs) = cs"
  by (simp_all add: claims_def)

locale worker_world =
  message_queue ok rows dispatched "q_claim (wk_queue w)" "q_sent (wk_queue w)"
    "q_deferred (wk_queue w)" "q_failed (wk_queue w)" "q_count (wk_queue w)"
  for w :: "'s worker" and ok :: "'s \<Rightarrow> bool" and rows :: "'s \<Rightarrow> bytes \<Rightarrow> qrow option"
    and dispatched :: "'s \<Rightarrow> nat" +
  fixes posts :: "'s \<Rightarrow> bytes \<Rightarrow> nat"
  assumes claim_posts: "posts (snd (q_claim (wk_queue w) limit d s)) = posts s"
    and sent_posts: "posts (snd (q_sent (wk_queue w) i s)) = posts s"
    and deferred_posts: "posts (snd (q_deferred (wk_queue w) i at' reason s)) = posts s"
    and failed_posts: "posts (snd (q_failed (wk_queue w) i reason s)) = posts s"
    and count_posts: "posts (snd (q_count (wk_queue w) s)) = posts s"
    and send_law:
      "ok s \<Longrightarrow> wk_send w m s = (resp, s') \<Longrightarrow>
         ok s' \<and> rows s' = rows s \<and> dispatched s' = dispatched s
         \<and> (posts s' = posts s \<or> posts s' = (posts s)(dm_id m := posts s (dm_id m) + 1))"
    and key_quiet: "wk_keys w = Some k \<Longrightarrow> ok s \<Longrightarrow> quiet ok rows dispatched posts s (snd (ks_key k i s))"
    and signed_quiet: "wk_keys w = Some k \<Longrightarrow> ok s \<Longrightarrow> quiet ok rows dispatched posts s (snd (ks_signed k i s))"
    and events_quiet: "wk_events w = Some ev \<Longrightarrow> ok s \<Longrightarrow> quiet ok rows dispatched posts s (snd (ev a b c s))"
    and suppress_quiet: "wk_suppress w = Some su \<Longrightarrow> ok s \<Longrightarrow> quiet ok rows dispatched posts s (snd (su a b c m' s))"
begin

lemma publish_quiet: "ok s \<Longrightarrow> quiet ok rows dispatched posts s (publish L w i type reason n s)"
  by (auto simp: publish_def Let_def quiet_refl events_quiet split: option.splits)

lemma suppress_all_quiet:
  assumes "wk_suppress w = Some su" "ok s"
  shows "quiet ok rows dispatched posts s (fold (\<lambda>r s. snd (su r a b c s)) rs s)"
  using assms(2)
proof (induction rs arbitrary: s)
  case (Cons r rs)
  have q: "quiet ok rows dispatched posts s (snd (su r a b c s))"
    by (rule suppress_quiet [OF assms(1) Cons.prems])
  show ?case using quiet_trans [OF q Cons.IH [OF quiet_ok [OF q]]] by simp
qed (simp add: quiet_refl)

lemma suppressIfAddressIsBad_quiet:
  "ok s \<Longrightarrow> quiet ok rows dispatched posts s (suppressIfAddressIsBad L w msg reason s)"
  by (auto simp: suppressIfAddressIsBad_def Let_def quiet_refl suppress_all_quiet split: option.splits)

lemma sign_quiet: "ok s \<Longrightarrow> quiet ok rows dispatched posts s (snd (sign L w msg s))"
proof -
  assume s: "ok s"
  show ?thesis
  proof (cases "wk_keys w")
    case None
    then show ?thesis using s by (auto simp: sign_def quiet_refl split: option.splits)
  next
    case (Some k)
    let ?s = "snd (ks_key k (c_id msg) s)"
    have q: "quiet ok rows dispatched posts s ?s" using key_quiet Some s by blast
    then have q': "quiet ok rows dispatched posts s (snd (ks_signed k (c_id msg) ?s))"
      using signed_quiet Some quiet_ok quiet_trans by metis
    show ?thesis
      using q q' s Some
      by (simp add: sign_def quiet_refl case_prod_unfold split: option.splits sum.splits)
  qed
qed

text \<open>What a report does to the row of its message and to nothing else.\<close>

definition reported :: "bytes \<Rightarrow> int \<Rightarrow> 's \<Rightarrow> 's \<Rightarrow> bool" where
  "reported i n s s' \<longleftrightarrow>
     ok s' \<and> posts s' = posts s \<and> dispatched s' \<le> dispatched s + 1
     \<and> (rows s' = rows s
        \<or> (\<exists>st. (st = Sent \<or> st = Failed \<or> st = Deferred \<and> n < MaxAttempts) \<and> rows s' = moved st i (rows s)))"

lemma reported_quiet: "reported i n s s' \<Longrightarrow> quiet ok rows dispatched posts s' s'' \<Longrightarrow> reported i n s s''"
  by (simp add: reported_def quiet_def)

lemma quiet_reported: "quiet ok rows dispatched posts s s' \<Longrightarrow> reported i n s' s'' \<Longrightarrow> reported i n s s''"
  by (simp add: reported_def quiet_def)

lemma fail_reported: "ok s \<Longrightarrow> reported (c_id msg) n s (fail L w msg reason s)"
proof -
  assume s: "ok s"
  obtain r s' where f: "q_failed (wk_queue w) (c_id msg) reason s = (r, s')" by fastforce
  have rep: "reported (c_id msg) n s s'"
    using failed_law [OF s f] failed_posts [of "c_id msg" reason s] f by (auto simp: reported_def)
  then have "ok s'" by (simp add: reported_def)
  with rep f show ?thesis
    unfolding fail_def using publish_quiet reported_quiet by (auto split: sum.splits)
qed

lemma sent_reported:
  "ok s \<Longrightarrow> q_sent (wk_queue w) i s = (r, s') \<Longrightarrow> reported i n s s'"
  using sent_law [of s i r s'] sent_posts [of i s] by (auto simp: reported_def)

lemma deferred_reported:
  "ok s \<Longrightarrow> q_deferred (wk_queue w) i at' reason s = (r, s') \<Longrightarrow> n < MaxAttempts \<Longrightarrow> reported i n s s'"
  using deferred_law [of s i at' reason r s'] deferred_posts [of i at' reason s] by (auto simp: reported_def)

lemma deliver_cases:
  assumes s: "ok s"
  obtains s1 where "quiet ok rows dispatched posts s s1"
      "reported (c_id msg) (c_attempts msg) s1 (deliver L w msg s)"
  | raw resp s1 s2 where "quiet ok rows dispatched posts s s1" "sign L w msg s = (Inr raw, s1)"
      "wk_send w (post_of L msg raw) s1 = (resp, s2)"
      "reported (c_id msg) (c_attempts msg) s2 (deliver L w msg s)"
proof -
  obtain r s1 where sg: "sign L w msg s = (r, s1)" by fastforce
  then have q: "quiet ok rows dispatched posts s s1" using sign_quiet [OF s, of L msg] by simp
  then have s1: "ok s1" by (rule quiet_ok)
  show thesis
  proof (cases r)
    case (Inl e)
    with sg have "deliver L w msg s = fail L w msg (''could not sign message: '' @ error_text e) s1"
      by (simp add: deliver_def)
    then show thesis using that(1) q fail_reported [OF s1] by metis
  next
    case (Inr raw)
    obtain resp s2 where sn: "wk_send w (post_of L msg raw) s1 = (resp, s2)" by fastforce
    then have s2: "ok s2" using send_law [OF s1 sn] by blast
    have "reported (c_id msg) (c_attempts msg) s2 (deliver L w msg s)"
    proof (cases "re_result resp")
      case EngineSent
      obtain r3 s3 where m: "q_sent (wk_queue w) (c_id msg) s2 = (r3, s3)" by fastforce
      have d: "deliver L w msg s = (case r3 of Inl e \<Rightarrow> s3
          | Inr _ \<Rightarrow> publish L w (c_id msg) ''email.sent'' [] (c_attempts msg) s3)"
        using sg Inr sn EngineSent m by (simp add: deliver_def split: sum.splits)
      have rep: "reported (c_id msg) (c_attempts msg) s2 s3" using sent_reported [OF s2 m] .
      then have "ok s3" by (simp add: reported_def)
      with rep show ?thesis unfolding d using publish_quiet reported_quiet by (auto split: sum.splits)
    next
      case Temporary
      show ?thesis
      proof (cases "c_attempts msg \<ge> MaxAttempts")
        case True
        with sg Inr sn Temporary show ?thesis using fail_reported [OF s2] by (simp add: deliver_def)
      next
        case False
        obtain r3 s3 where m: "q_deferred (wk_queue w) (c_id msg) (wk_now w s2 + Backoff (c_attempts msg))
            (re_reason resp) s2 = (r3, s3)" by fastforce
        have d: "deliver L w msg s = (case r3 of Inl e \<Rightarrow> s3
            | Inr _ \<Rightarrow> publish L w (c_id msg) ''email.deferred'' (re_reason resp) (c_attempts msg) s3)"
          using sg Inr sn Temporary m False by (simp add: deliver_def split: sum.splits)
        have rep: "reported (c_id msg) (c_attempts msg) s2 s3"
          using deferred_reported [OF s2 m] False by simp
        then have "ok s3" by (simp add: reported_def)
        with rep show ?thesis unfolding d using publish_quiet reported_quiet by (auto split: sum.splits)
      qed
    next
      case Permanent
      have qq: "quiet ok rows dispatched posts s2 (suppressIfAddressIsBad L w msg (re_reason resp) s2)"
        by (rule suppressIfAddressIsBad_quiet) (rule s2)
      with sg Inr sn Permanent show ?thesis
        using quiet_reported [OF qq fail_reported [OF quiet_ok [OF qq]]] by (simp add: deliver_def)
    qed
    then show thesis using that(2) q sg Inr sn by blast
  qed
qed

text \<open>
  The messages workers hold, \<open>fl\<close>: they are in Sending with the attempts the worker was given, no
  two are the same, and the engine was given a message less often than it was claimed, counting
  the claims whose hand-over is still to come.
\<close>

definition attempts_of :: "'s \<Rightarrow> bytes \<Rightarrow> nat" where
  "attempts_of s i = (case rows s i of None \<Rightarrow> 0 | Some (_, n) \<Rightarrow> nat n)"

definition flight_ok :: "claimed list \<Rightarrow> 's \<Rightarrow> bool" where
  "flight_ok fl s \<longleftrightarrow>
     ok s \<and> rows_ok (rows s) \<and> distinct (map c_id fl)
     \<and> (\<forall>c \<in> set fl. rows s (c_id c) = Some (Sending, c_attempts c))
     \<and> (\<forall>i. posts s i + (if i \<in> c_id ` set fl then 1 else 0) \<le> attempts_of s i)"

lemma flight_okD:
  assumes "flight_ok fl s"
  shows "ok s" "rows_ok (rows s)" "distinct (map c_id fl)"
    "c \<in> set fl \<Longrightarrow> rows s (c_id c) = Some (Sending, c_attempts c)"
    "i \<in> c_id ` set fl \<Longrightarrow> posts s i + 1 \<le> attempts_of s i" "posts s i \<le> attempts_of s i"
proof -
  from assms show "ok s" "rows_ok (rows s)" "distinct (map c_id fl)"
    "c \<in> set fl \<Longrightarrow> rows s (c_id c) = Some (Sending, c_attempts c)"
    by (simp_all add: flight_ok_def)
  have "posts s i + (if i \<in> c_id ` set fl then 1 else 0) \<le> attempts_of s i"
    using assms unfolding flight_ok_def by blast
  then show "i \<in> c_id ` set fl \<Longrightarrow> posts s i + 1 \<le> attempts_of s i" "posts s i \<le> attempts_of s i"
    by (auto split: if_splits)
qed

lemma flight_okI:
  assumes "ok s" "rows_ok (rows s)" "distinct (map c_id fl)"
    "\<And>c. c \<in> set fl \<Longrightarrow> rows s (c_id c) = Some (Sending, c_attempts c)"
    "\<And>i. i \<in> c_id ` set fl \<Longrightarrow> posts s i + 1 \<le> attempts_of s i"
    "\<And>i. posts s i \<le> attempts_of s i"
  shows "flight_ok fl s"
  using assms by (auto simp: flight_ok_def)

lemma flight_quiet: "flight_ok fl s \<Longrightarrow> quiet ok rows dispatched posts s s' \<Longrightarrow> flight_ok fl s'"
  by (simp add: flight_ok_def quiet_def attempts_of_def)

text \<open>A crash loses messages in flight; nothing else changes.\<close>

lemma flight_crash:
  assumes "flight_ok fl s" shows "flight_ok (filter P fl) s"
proof (rule flight_okI)
  show "distinct (map c_id (filter P fl))"
    by (rule distinct_map_filterI) (rule flight_okD(3) [OF assms])
  show "posts s i + 1 \<le> attempts_of s i" if "i \<in> c_id ` set (filter P fl)" for i
    using that flight_okD(5) [OF assms, of i] by auto
qed (use flight_okD [OF assms] in auto)

lemma moved_attempts:
  assumes "rows s' = moved st i (rows s)" shows "attempts_of s' j = attempts_of s j"
  using assms by (cases "rows s j") (auto simp: moved_def attempts_of_def)

lemma flight_finish:
  assumes f: "flight_ok fl s" and c: "c \<in> set fl" and ok': "ok s'"
    and r: "rows s' = rows s \<or> (\<exists>st. (st = Sent \<or> st = Failed \<or> st = Deferred \<and> c_attempts c < MaxAttempts)
          \<and> rows s' = moved st (c_id c) (rows s))"
    and p: "posts s' = posts s \<or> posts s' = (posts s)(c_id c := posts s (c_id c) + 1)"
  shows "flight_ok (remove1 c fl) s'" "qstep\<^sup>*\<^sup>* (rows s) (rows s')"
proof -
  let ?i = "c_id c"
  have row: "rows s ?i = Some (Sending, c_attempts c)" by (rule flight_okD(4) [OF f c])
  have one: "rows s' = rows s \<or> qstep (rows s) (rows s')"
  proof (cases "rows s' = rows s")
    case False
    with r obtain st where st: "st = Sent \<or> st = Failed \<or> st = Deferred \<and> c_attempts c < MaxAttempts"
      and m: "rows s' = moved st ?i (rows s)" by blast
    from moved_qstep [of "rows s" ?i "c_attempts c", OF row st] show ?thesis unfolding m by simp
  qed simp
  have other: "rows s' j = rows s j" if "j \<noteq> ?i" for j
    using r that unfolding moved_def by (metis fun_upd_other)
  have att: "attempts_of s' j = attempts_of s j" for j
  proof (cases "rows s' = rows s")
    case True
    then show ?thesis by (simp add: attempts_of_def)
  next
    case False
    with r obtain st where "rows s' = moved st ?i (rows s)" by blast
    then show ?thesis by (rule moved_attempts)
  qed
  show steps: "qstep\<^sup>*\<^sup>* (rows s) (rows s')" using one by auto
  have d: "x \<in> set fl \<and> c_id x \<noteq> ?i" if "x \<in> set (remove1 c fl)" for x
    using remove1_other_key [OF flight_okD(3) [OF f] c that] .
  show "flight_ok (remove1 c fl) s'"
  proof (rule flight_okI)
    show "rows_ok (rows s')" using steps flight_okD(2) [OF f] by (rule qsteps_ok)
    show "distinct (map c_id (remove1 c fl))"
      by (rule distinct_map_remove1) (rule flight_okD(3) [OF f])
    show "rows s' (c_id x) = Some (Sending, c_attempts x)" if "x \<in> set (remove1 c fl)" for x
      using d [OF that] other [of "c_id x"] flight_okD(4) [OF f, of x] by simp
    show "posts s' i + 1 \<le> attempts_of s' i" if "i \<in> c_id ` set (remove1 c fl)" for i
    proof -
      from that obtain x where x: "x \<in> set (remove1 c fl)" "i = c_id x" by blast
      with d [OF x(1)] have i: "i \<in> c_id ` set fl" and n: "i \<noteq> ?i" by simp_all
      from p n have "posts s' i = posts s i" by auto
      then show ?thesis using flight_okD(5) [OF f i] by (simp add: att)
    qed
    show "posts s' i \<le> attempts_of s' i" for i
    proof (cases "i = ?i")
      case True
      have "posts s ?i + 1 \<le> attempts_of s ?i" using flight_okD(5) [OF f, of ?i] c by simp
      moreover have "posts s' ?i \<le> posts s ?i + 1" using p by auto
      ultimately show ?thesis using True by (simp add: att)
    next
      case False
      with p have "posts s' i = posts s i" by auto
      then show ?thesis using flight_okD(6) [OF f, of i] by (simp add: att)
    qed
  qed (rule ok')
qed

lemma deliver_effect:
  assumes f: "ok s"
  shows "ok (deliver L w c s) \<and> dispatched (deliver L w c s) \<le> dispatched s + 1
    \<and> (rows (deliver L w c s) = rows s
       \<or> (\<exists>st. (st = Sent \<or> st = Failed \<or> st = Deferred \<and> c_attempts c < MaxAttempts)
            \<and> rows (deliver L w c s) = moved st (c_id c) (rows s)))
    \<and> (posts (deliver L w c s) = posts s
       \<or> posts (deliver L w c s) = (posts s)(c_id c := posts s (c_id c) + 1))"
proof (rule deliver_cases [OF f, of c L])
  fix s1 assume a: "quiet ok rows dispatched posts s s1"
    "reported (c_id c) (c_attempts c) s1 (deliver L w c s)"
  from quiet_reported [OF a] show ?thesis by (auto simp: reported_def)
next
  fix raw resp s1 s2
  assume q: "quiet ok rows dispatched posts s s1" and sn: "wk_send w (post_of L c raw) s1 = (resp, s2)"
    and rep: "reported (c_id c) (c_attempts c) s2 (deliver L w c s)"
  have id: "dm_id (post_of L c raw) = c_id c" by (simp add: post_of_def)
  from send_law [OF quiet_ok [OF q] sn] q
  have "rows s2 = rows s" "dispatched s2 = dispatched s"
    "posts s2 = posts s \<or> posts s2 = (posts s)(c_id c := posts s (c_id c) + 1)"
    by (auto simp: quiet_def id)
  with rep show ?thesis by (auto simp: reported_def)
qed

lemma deliver_flight:
  assumes f: "flight_ok fl s" and c: "c \<in> set fl"
  shows "flight_ok (remove1 c fl) (deliver L w c s)" "qstep\<^sup>*\<^sup>* (rows s) (rows (deliver L w c s))"
    "dispatched (deliver L w c s) \<le> dispatched s + 1"
  using deliver_effect [OF flight_okD(1) [OF f], of L c] flight_finish [OF f c] by blast+

text \<open>The claim of a tick adds its batch to what is in flight; the ceiling may hold it back.\<close>

lemma tick_claim_cases:
  assumes s: "ok s" and t: "tick_claim w s = (r, s')"
  obtains (held) "quiet ok rows dispatched posts s s'" "isl r \<or> r = Inr []"
    | (claimed) s0 where "quiet ok rows dispatched posts s s0"
        "q_claim (wk_queue w) batchSize lockDuration s0 = (r, s')"
        "wk_max_per_hour w > 0 \<longrightarrow> int (dispatched s) < wk_max_per_hour w"
proof (cases "wk_max_per_hour w > 0")
  case True
  obtain rc sc where cnt: "q_count (wk_queue w) s = (rc, sc)" by fastforce
  have qc: "quiet ok rows dispatched posts s sc" and n: "\<And>k. rc = Inr k \<Longrightarrow> k = dispatched s"
    using count_law [OF s cnt] count_posts [of s] cnt by (auto simp: quiet_def)
  show thesis
  proof (cases rc)
    case (Inl e)
    with True t cnt have "s' = sc" "isl r" by (auto simp: tick_claim_def)
    with qc show thesis by (intro held) auto
  next
    case (Inr k)
    with n have k: "k = dispatched s" by simp
    show thesis
    proof (cases "int k \<ge> wk_max_per_hour w")
      case True
      with \<open>wk_max_per_hour w > 0\<close> t cnt Inr have "s' = sc" "r = Inr []" by (auto simp: tick_claim_def)
      with qc show thesis by (intro held) auto
    next
      case False
      with \<open>wk_max_per_hour w > 0\<close> t cnt Inr have "q_claim (wk_queue w) batchSize lockDuration sc = (r, s')"
        by (simp add: tick_claim_def)
      with qc False k show thesis by (intro claimed) auto
    qed
  qed
next
  case False
  with t have "q_claim (wk_queue w) batchSize lockDuration s = (r, s')" by (simp add: tick_claim_def)
  with False show thesis using claimed quiet_refl s by metis
qed

lemma taken_attempts:
  assumes "rows_ok (rows s)" "\<And>i. i \<in> set ids \<Longrightarrow> waiting (rows s i)" "rows s' = taken ids (rows s)"
  shows "attempts_of s' i = attempts_of s i + (if i \<in> set ids then 1 else 0)"
proof (cases "i \<in> set ids")
  case True
  with assms(2) obtain st n where r: "rows s i = Some (st, n)" unfolding waiting_def by blast
  with rows_okD [OF assms(1) r] have "0 \<le> n" by (auto simp: row_ok_def)
  then have "nat (n + 1) = nat n + 1" by simp
  with r True assms(3) show ?thesis by (simp add: attempts_of_def taken_def)
next
  case False
  with assms(3) show ?thesis by (simp add: attempts_of_def taken_def)
qed

lemma claim_flight:
  assumes f: "flight_ok fl s" and q: "q_claim (wk_queue w) limit d s = (r, s')"
  shows "flight_ok (fl @ claims r) s'" "qstep\<^sup>*\<^sup>* (rows s) (rows s')" "dispatched s' = dispatched s"
    "length (claims r) \<le> limit"
proof -
  from claim_law [OF flight_okD(1) [OF f] q] obtain ids where
    l: "ok s'" "dispatched s' = dispatched s" "distinct ids" "length ids \<le> limit"
      "\<forall>i \<in> set ids. waiting (rows s i)" "rows s' = taken ids (rows s)"
    and cs: "\<forall>cs. r = Inr cs \<longrightarrow> map c_id cs = ids \<and> (\<forall>c \<in> set cs. rows s' (c_id c) = Some (Sending, c_attempts c))"
    by blast
  have new: "map c_id (claims r) = ids \<or> claims r = []"
    and row: "\<And>c. c \<in> set (claims r) \<Longrightarrow> rows s' (c_id c) = Some (Sending, c_attempts c)"
    using cs by (cases r; simp)+
  have ids: "c_id ` set (claims r) \<subseteq> set ids" using new by (metis empty_iff image_is_empty list.set(1) list.set_map subsetI)
  show len: "length (claims r) \<le> limit" using new l(4) by (metis length_map le0 list.size(3))
  show "dispatched s' = dispatched s" by (rule l(2))
  show steps: "qstep\<^sup>*\<^sup>* (rows s) (rows s')" unfolding l(6) using taken_qsteps l(3,5) by blast
  have post: "posts s' = posts s" using claim_posts [of limit d s] q by simp
  have free: "c_id c \<notin> set ids" if "c \<in> set fl" for c
    using flight_okD(4) [OF f that] l(5) by (auto simp: waiting_def)
  note att = taken_attempts [OF flight_okD(2) [OF f] l(5) [rule_format] l(6)]
  show "flight_ok (fl @ claims r) s'"
  proof (rule flight_okI)
    show "rows_ok (rows s')" using steps flight_okD(2) [OF f] by (rule qsteps_ok)
    have "distinct (map c_id (claims r))" using new l(3) by auto
    then show "distinct (map c_id (fl @ claims r))" using flight_okD(3) [OF f] free ids by auto
    show "rows s' (c_id c) = Some (Sending, c_attempts c)" if "c \<in> set (fl @ claims r)" for c
    proof (cases "c \<in> set fl")
      case True
      then show ?thesis using free flight_okD(4) [OF f True] unfolding l(6) taken_def by simp
    next
      case False
      with that row show ?thesis by simp
    qed
    show "posts s' i + 1 \<le> attempts_of s' i" if "i \<in> c_id ` set (fl @ claims r)" for i
    proof (cases "i \<in> set ids")
      case True
      then show ?thesis using flight_okD(6) [OF f, of i] by (simp add: post att)
    next
      case False
      with that ids have "i \<in> c_id ` set fl" by auto
      then show ?thesis using flight_okD(5) [OF f, of i] by (simp add: post att)
    qed
    show "posts s' i \<le> attempts_of s' i" for i
      using flight_okD(6) [OF f, of i] by (simp add: post att)
  qed (rule l(1))
qed

lemma tick_claim_flight:
  assumes f: "flight_ok fl s" and t: "tick_claim w s = (r, s')"
  shows "flight_ok (fl @ claims r) s' \<and> qstep\<^sup>*\<^sup>* (rows s) (rows s') \<and> dispatched s' = dispatched s
    \<and> length (claims r) \<le> batchSize
    \<and> (wk_max_per_hour w > 0 \<longrightarrow> wk_max_per_hour w \<le> int (dispatched s) \<longrightarrow>
         rows s' = rows s \<and> claims r = [])"
  using flight_okD(1) [OF f] t
proof (cases rule: tick_claim_cases)
  case held
  have "flight_ok fl s'" by (rule flight_quiet [OF f held(1)])
  moreover have "claims r = []" using held(2) by (cases r) auto
  ultimately show ?thesis using held(1) by (simp add: quiet_def)
next
  case (claimed s0)
  have f0: "flight_ok fl s0" by (rule flight_quiet [OF f claimed(1)])
  have "rows s0 = rows s" "dispatched s0 = dispatched s" using claimed(1) by (auto simp: quiet_def)
  with claim_flight [OF f0 claimed(2)] claimed(3) show ?thesis by auto
qed

text \<open>Delivering the batch leaves what else is in flight.\<close>

lemma deliver_all_flight:
  assumes "flight_ok (cs @ fl) s"
  shows "flight_ok fl (fold (deliver L w) cs s) \<and> qstep\<^sup>*\<^sup>* (rows s) (rows (fold (deliver L w) cs s))
    \<and> dispatched (fold (deliver L w) cs s) \<le> dispatched s + length cs"
  using assms
proof (induction cs arbitrary: s)
  case (Cons c cs)
  have d: "flight_ok (cs @ fl) (deliver L w c s)" "qstep\<^sup>*\<^sup>* (rows s) (rows (deliver L w c s))"
    "dispatched (deliver L w c s) \<le> dispatched s + 1"
    using deliver_flight [OF Cons.prems, of c L] by simp_all
  from Cons.IH [OF d(1)] d(2,3) show ?case by (auto intro: rtranclp_trans)
qed simp

lemma flight_perm: "flight_ok (xs @ ys) s \<Longrightarrow> flight_ok (ys @ xs) s"
  by (simp add: flight_ok_def Int_commute Un_commute conj_commute)

lemma tick_flight:
  assumes f: "flight_ok fl s" and t: "tick L w s = (r, s')"
  shows "flight_ok fl s'" "qstep\<^sup>*\<^sup>* (rows s) (rows s')" "dispatched s' \<le> dispatched s + batchSize"
    "wk_max_per_hour w > 0 \<Longrightarrow> wk_max_per_hour w \<le> int (dispatched s) \<Longrightarrow>
       rows s' = rows s \<and> dispatched s' = dispatched s"
proof -
  obtain rc sc where c: "tick_claim w s = (rc, sc)" by fastforce
  have s': "s' = fold (deliver L w) (claims rc) sc"
    using t c by (cases rc) (auto simp: tick_def)
  have l: "flight_ok (fl @ claims rc) sc" "qstep\<^sup>*\<^sup>* (rows s) (rows sc)" "dispatched sc = dispatched s"
    "length (claims rc) \<le> batchSize"
    "wk_max_per_hour w > 0 \<Longrightarrow> wk_max_per_hour w \<le> int (dispatched s) \<Longrightarrow> rows sc = rows s \<and> claims rc = []"
    using tick_claim_flight [OF f c] by blast+
  note d = deliver_all_flight [OF flight_perm [OF l(1)], of L, folded s']
  show "flight_ok fl s'" "dispatched s' \<le> dispatched s + batchSize" using d l(3,4) by auto
  show "qstep\<^sup>*\<^sup>* (rows s) (rows s')" using l(2) d by (auto intro: rtranclp_trans)
  show "rows s' = rows s \<and> dispatched s' = dispatched s"
    if "wk_max_per_hour w > 0" "wk_max_per_hour w \<le> int (dispatched s)"
    using l(5) [OF that] l(3) s' by simp
qed

end

end
