(* ===== verification/Worker_System.thy ===== *)
theory Worker_System
  imports Worker_Flight
begin

text \<open>
  The delivery loop as cmd/aiemail/main.go puts it together: the worker over the store and the
  engine, with the clock of its process. Any number of such workers, API processes and crashes
  are interleaved by the step relation of the last section.
\<close>

section \<open>Model\<close>

record world =
  wd_store :: store
  wd_net :: network
  wd_clock :: instant
  wd_boundary :: bytes

text \<open>The settings runWorker reads, with the DKIM library.\<close>

record worker_config =
  wc_dkim :: dkimlib
  wc_engine_url :: bytes
  wc_master_key :: bytes
  wc_base_url :: bytes
  wc_max_per_hour :: int

definition on_store :: "(store \<Rightarrow> 'a \<times> store) \<Rightarrow> world \<Rightarrow> 'a \<times> world" where
  "on_store f w = (case f (wd_store w) of (r, s) \<Rightarrow> (r, w\<lparr>wd_store := s\<rparr>))"

definition on_net :: "(network \<Rightarrow> 'a \<times> network) \<Rightarrow> world \<Rightarrow> 'a \<times> world" where
  "on_net f w = (case f (wd_net w) of (r, n) \<Rightarrow> (r, w\<lparr>wd_net := n\<rparr>))"

text \<open>worker.New(db, engine, db, signer, db, db, secret, base URL, ceiling).\<close>

definition store_worker :: "golib \<Rightarrow> worker_config \<Rightarrow> world worker" where
  "store_worker L cfg =
     \<lparr>wk_queue =
        \<lparr>q_claim = (\<lambda>limit lockFor. on_store (ClaimMessages L limit lockFor)),
         q_sent = (\<lambda>i. on_store (MarkSent i)),
         q_deferred = (\<lambda>i at' reason. on_store (MarkDeferred i at' reason)),
         q_failed = (\<lambda>i reason. on_store (MarkFailed i reason)),
         q_count = on_store SentInLastHour\<rparr>,
      wk_send = (\<lambda>m. on_net (engine_Send L (wc_engine_url cfg) m)),
      wk_keys = Some \<lparr>ks_key = (\<lambda>i. on_store (SigningKeyForMessage i)),
                      ks_signed = (\<lambda>i. on_store (MarkSigned i))\<rparr>,
      wk_signer = Some (\<lambda>key raw w. dkim_Sign L (wc_dkim cfg) (wc_master_key cfg) (wd_clock w) key raw),
      wk_events = Some (\<lambda>eventID messageID payload. on_store (EnqueueDelivery L eventID messageID payload)),
      wk_suppress = Some (\<lambda>a r d m. on_store (Suppress L a r d m)),
      wk_secret = DeriveSecret L (wc_master_key cfg),
      wk_base_url = wc_base_url cfg,
      wk_max_per_hour = wc_max_per_hour cfg,
      wk_now = wd_clock,
      wk_boundary = wd_boundary\<rparr>"

section \<open>The store and the engine keep the worker's contract\<close>

definition world_ok :: "world \<Rightarrow> bool" where "world_ok w \<longleftrightarrow> messages_ok (wd_store w)"

definition world_rows :: "world \<Rightarrow> bytes \<Rightarrow> qrow option" where
  "world_rows w = row_of (wd_store w)"

definition world_dispatched :: "world \<Rightarrow> nat" where "world_dispatched w = sent_events (wd_store w)"

text \<open>How often the engine was given a message.\<close>

definition world_posts :: "world \<Rightarrow> bytes \<Rightarrow> nat" where
  "world_posts w i = length (filter (\<lambda>m. dm_id m = i) (net_posts (wd_net w)))"

lemmas world_defs = world_ok_def world_rows_def world_dispatched_def world_posts_def

lemma on_store_snd [simp]:
  "wd_store (snd (on_store f w)) = snd (f (wd_store w))" "wd_net (snd (on_store f w)) = wd_net w"
  "fst (on_store f w) = fst (f (wd_store w))"
  by (simp_all add: on_store_def case_prod_unfold)

lemma on_storeD: "on_store f w = (r, w') \<Longrightarrow> f (wd_store w) = (r, wd_store w') \<and> wd_net w' = wd_net w"
  by (auto simp: on_store_def split: prod.splits)

text \<open>A store operation that touches neither the rows of the queue nor the events.\<close>

definition store_quiet :: "store \<Rightarrow> store \<Rightarrow> bool" where
  "store_quiet s s' \<longleftrightarrow>
     map m_id (st_messages s') = map m_id (st_messages s)
     \<and> row_of s' = row_of s \<and> st_events s' = st_events s \<and> st_now s' = st_now s
     \<and> st_seq s' Message_events = st_seq s Message_events \<and> st_idem s' = st_idem s"

lemma store_quietI:
  assumes "st_messages s' = st_messages s" "st_events s' = st_events s" "st_now s' = st_now s"
    "st_seq s' Message_events = st_seq s Message_events" "st_idem s' = st_idem s"
  shows "store_quiet s s'"
  using assms by (simp add: store_quiet_def row_of_def fun_eq_iff)

lemma store_quiet_tail [simp]: "store_quiet s (tail_fates s)"
  by (rule store_quietI) simp_all

lemma store_quiet_ok: "store_quiet s s' \<Longrightarrow> messages_ok s' = messages_ok s"
  by (simp add: store_quiet_def messages_ok_def message_ids_def flip: set_map)

lemma store_quiet_sent: "store_quiet s s' \<Longrightarrow> sent_events s' = sent_events s"
  by (simp add: store_quiet_def sent_events_def)

lemma on_store_quiet:
  assumes "store_quiet (wd_store w) (snd (f (wd_store w)))" "world_ok w"
  shows "quiet world_ok world_rows world_dispatched world_posts w (snd (on_store f w))"
proof -
  have "row_of (snd (f (wd_store w))) = row_of (wd_store w)" using assms(1) by (simp add: store_quiet_def)
  then show ?thesis
    using assms store_quiet_ok [OF assms(1)] store_quiet_sent [OF assms(1)]
    by (simp add: quiet_def world_defs fun_eq_iff)
qed

lemma Suppress_store_quiet: "store_quiet s (snd (Suppress L a r d m s))"
  unfolding Suppress_def
  by (rule run_wrapped_rel)
     (auto simp: insert_suppression_def nextval_def Let_def intro!: store_quietI split: if_splits)

lemma fan_out_quiet:
  "st_messages (fan_out e i p ws s) = st_messages s \<and> st_events (fan_out e i p ws s) = st_events s
   \<and> st_now (fan_out e i p ws s) = st_now s \<and> st_idem (fan_out e i p ws s) = st_idem s
   \<and> st_seq (fan_out e i p ws s) Message_events = st_seq s Message_events"
  by (induction e i p ws s rule: fan_out.induct) (simp_all add: nextval_def Let_def)

lemma EnqueueDelivery_store_quiet: "store_quiet s (snd (EnqueueDelivery L e i p s))"
  unfolding EnqueueDelivery_def
  by (rule run_wrapped_rel)
     (auto simp: insert_deliveries_def Let_def fan_out_quiet intro!: store_quietI
        split: option.splits if_splits)

lemma SigningKeyForMessage_snd: "snd (SigningKeyForMessage i s) = tail_fates s"
proof -
  let ?r = "run_wrapped ''loading signing key for message'' [i] (stmt_query (key_of_message i)) s"
  have "snd ?r = tail_fates s" by simp
  then show ?thesis
    unfolding SigningKeyForMessage_def by (cases ?r) (auto split: sum.splits option.splits)
qed

lemma MarkSigned_store_quiet: "store_quiet s (snd (MarkSigned i s))"
proof -
  have f: "List.find (\<lambda>m. m_id m = x) (update_where (\<lambda>m. m_id m = i) (\<lambda>m. m\<lparr>m_signed_at := t\<rparr>) ms)
      = map_option (\<lambda>m. if m_id m = i then m\<lparr>m_signed_at := t\<rparr> else m) (List.find (\<lambda>m. m_id m = x) ms)"
    for x t ms by (rule find_update_where) simp
  have g: "(\<lambda>m. (m_status m, m_attempts m)) \<circ> (\<lambda>m. if m_id m = i then m\<lparr>m_signed_at := t\<rparr> else m)
      = (\<lambda>m. (m_status m, m_attempts m))" for t by auto
  show ?thesis
    unfolding MarkSigned_def
    by (rule run_wrapped_rel)
       (auto simp: stmt_update_def store_quiet_def row_of_def map_update_where f g option.map_comp fun_eq_iff)
qed

lemma engine_Send_posts:
  "engine_Send L url m net = (r, net') \<Longrightarrow> net_posts net' = net_posts net \<or> net_posts net' = net_posts net @ [m]"
  by (auto simp: engine_Send_def http_do_def Let_def split: option.splits list.splits http_outcome.splits)

lemma store_worker_sel [simp]:
  "q_claim (wk_queue (store_worker L cfg)) limit d = on_store (ClaimMessages L limit d)"
  "q_sent (wk_queue (store_worker L cfg)) i = on_store (MarkSent i)"
  "q_deferred (wk_queue (store_worker L cfg)) i at' reason = on_store (MarkDeferred i at' reason)"
  "q_failed (wk_queue (store_worker L cfg)) i reason = on_store (MarkFailed i reason)"
  "q_count (wk_queue (store_worker L cfg)) = on_store SentInLastHour"
  "wk_send (store_worker L cfg) m = on_net (engine_Send L (wc_engine_url cfg) m)"
  "wk_max_per_hour (store_worker L cfg) = wc_max_per_hour cfg"
  by (simp_all add: store_worker_def)

interpretation mail_worker: worker_world "store_worker L cfg" world_ok world_rows world_dispatched world_posts
  for L cfg
proof unfold_locales
  fix s limit d batch s'
  assume "world_ok s" "q_claim (wk_queue (store_worker L cfg)) limit d s = (batch, s')"
  then show "world_ok s' \<and> world_dispatched s' = world_dispatched s
         \<and> (\<exists>ids. distinct ids \<and> length ids \<le> limit \<and> (\<forall>i \<in> set ids. waiting (world_rows s i))
              \<and> world_rows s' = taken ids (world_rows s)
              \<and> (\<forall>cs. batch = Inr cs \<longrightarrow> map c_id cs = ids
                   \<and> (\<forall>c \<in> set cs. world_rows s' (c_id c) = Some (Sending, c_attempts c))))"
    unfolding world_ok_def world_rows_def world_dispatched_def store_worker_sel
    by - (drule on_storeD, rule store_queue.claim_law, assumption, erule conjunct1)
next
  fix s i r s' assume "world_ok s" "q_sent (wk_queue (store_worker L cfg)) i s = (r, s')"
  then show "world_ok s' \<and> (world_rows s' = moved Sent i (world_rows s) \<or> isl r \<and> world_rows s' = world_rows s)
         \<and> world_dispatched s' \<le> world_dispatched s + 1
         \<and> (\<not> isl r \<longrightarrow> world_rows s i \<noteq> None \<and> world_dispatched s' = world_dispatched s + 1)"
    unfolding world_ok_def world_rows_def world_dispatched_def store_worker_sel
    by - (drule on_storeD, rule store_queue.sent_law, assumption, erule conjunct1)
next
  fix s i at reason r s' assume "world_ok s" "q_deferred (wk_queue (store_worker L cfg)) i at reason s = (r, s')"
  then show "world_ok s' \<and> (world_rows s' = moved Deferred i (world_rows s) \<or> isl r \<and> world_rows s' = world_rows s)
         \<and> world_dispatched s' = world_dispatched s"
    unfolding world_ok_def world_rows_def world_dispatched_def store_worker_sel
    by - (drule on_storeD, rule store_queue.deferred_law, assumption, erule conjunct1)
next
  fix s i reason r s' assume "world_ok s" "q_failed (wk_queue (store_worker L cfg)) i reason s = (r, s')"
  then show "world_ok s' \<and> (world_rows s' = moved Failed i (world_rows s) \<or> isl r \<and> world_rows s' = world_rows s)
         \<and> world_dispatched s' = world_dispatched s"
    unfolding world_ok_def world_rows_def world_dispatched_def store_worker_sel
    by - (drule on_storeD, rule store_queue.failed_law, assumption, erule conjunct1)
next
  fix s counted s' assume "world_ok s" "q_count (wk_queue (store_worker L cfg)) s = (counted, s')"
  then show "world_ok s' \<and> world_rows s' = world_rows s \<and> world_dispatched s' = world_dispatched s
         \<and> (\<forall>n. counted = Inr n \<longrightarrow> n = world_dispatched s)"
    unfolding world_ok_def world_rows_def world_dispatched_def store_worker_sel
    by - (drule on_storeD, rule store_queue.count_law, assumption, erule conjunct1)
next
  fix s m resp s' assume s: "world_ok s" and m: "wk_send (store_worker L cfg) m s = (resp, s')"
  then obtain net' where e: "engine_Send L (wc_engine_url cfg) m (wd_net s) = (resp, net')"
      "s' = s\<lparr>wd_net := net'\<rparr>"
    by (auto simp: on_net_def split: prod.splits)
  from engine_Send_posts [OF e(1)] s
  show "world_ok s' \<and> world_rows s' = world_rows s \<and> world_dispatched s' = world_dispatched s
         \<and> (world_posts s' = world_posts s
            \<or> world_posts s' = (world_posts s)(dm_id m := world_posts s (dm_id m) + 1))"
    by (auto simp: world_defs e(2) fun_eq_iff)
next
  fix k s i assume "wk_keys (store_worker L cfg) = Some k" "world_ok s"
  then show "quiet world_ok world_rows world_dispatched world_posts s (snd (ks_key k i s))"
    by (auto simp: store_worker_def SigningKeyForMessage_snd intro!: on_store_quiet)
next
  fix k s i assume "wk_keys (store_worker L cfg) = Some k" "world_ok s"
  then show "quiet world_ok world_rows world_dispatched world_posts s (snd (ks_signed k i s))"
    by (auto simp: store_worker_def MarkSigned_store_quiet intro!: on_store_quiet)
next
  fix ev s a b c assume "wk_events (store_worker L cfg) = Some ev" "world_ok s"
  then show "quiet world_ok world_rows world_dispatched world_posts s (snd (ev a b c s))"
    by (auto simp: store_worker_def EnqueueDelivery_store_quiet intro!: on_store_quiet)
next
  fix su s a b c m' assume "wk_suppress (store_worker L cfg) = Some su" "world_ok s"
  then show "quiet world_ok world_rows world_dispatched world_posts s (snd (su a b c m' s))"
    by (auto simp: store_worker_def Suppress_store_quiet intro!: on_store_quiet)
qed (simp_all add: world_posts_def fun_eq_iff)

section \<open>Many processes\<close>

text \<open>
  A state of the whole system: the world and the messages the workers hold. API processes accept
  messages, workers claim and deliver, a crash loses some of the messages in hand, clocks advance
  while the database and the engine behave as they like, and everything else that runs beside
  the queue (the console, the other loops) leaves its rows alone.
\<close>

inductive sys_step ::
  "golib \<Rightarrow> worker_config \<Rightarrow> world \<times> claimed list \<Rightarrow> world \<times> claimed list \<Rightarrow> bool" for L cfg where
  accept: "sys_step L cfg (w, fl) (snd (on_store (EnqueueMessage L rand in') w), fl)"
| claim: "tick_claim (store_worker L cfg) w = (r, w') \<Longrightarrow> sys_step L cfg (w, fl) (w', fl @ claims r)"
| deliver: "c \<in> set fl \<Longrightarrow> sys_step L cfg (w, fl) (deliver L (store_worker L cfg) c w, remove1 c fl)"
| crash: "sys_step L cfg (w, fl) (w, filter P fl)"
| environment: "st_now (wd_store w) \<le> t \<Longrightarrow>
    sys_step L cfg (w, fl) (w\<lparr>wd_store := (wd_store w)\<lparr>st_now := t, st_fates := f\<rparr>,
      wd_net := (wd_net w)\<lparr>net_script := script\<rparr>, wd_clock := clock, wd_boundary := b\<rparr>, fl)"
| beside: "store_quiet (wd_store w) s \<Longrightarrow> sys_step L cfg (w, fl) (w\<lparr>wd_store := s\<rparr>, fl)"

definition sys_run ::
  "golib \<Rightarrow> worker_config \<Rightarrow> world \<times> claimed list \<Rightarrow> world \<times> claimed list \<Rightarrow> bool" where
  "sys_run L cfg = (sys_step L cfg)\<^sup>*\<^sup>*"

definition fresh_world :: "world \<Rightarrow> bool" where
  "fresh_world w \<longleftrightarrow> st_messages (wd_store w) = [] \<and> st_events (wd_store w) = []
     \<and> st_idem (wd_store w) = [] \<and> net_posts (wd_net w) = []"

lemma fresh_flight: "fresh_world w \<Longrightarrow> mail_worker.flight_ok [] w"
  by (rule mail_worker.flight_okI)
     (auto simp: fresh_world_def world_defs messages_ok_def rows_ok_def row_of_def)

lemma accept_rows:
  "row_of (snd (EnqueueMessage L rand in' s)) = row_of s
   \<or> row_of s (n_id in') = None
     \<and> row_of (snd (EnqueueMessage L rand in' s)) = (row_of s)(n_id in' \<mapsto> (Queued, 0))"
proof (cases rule: EnqueueMessage_cases [of L rand in' s])
  case (accepted row f ret)
  then have row: "m_id row = n_id in'" "m_status row = Queued" "m_attempts row = 0"
      "n_id in' \<notin> message_ids s"
    by (auto simp: acceptable_def new_row_def message_ids_def)
  then have none: "row_of s (n_id in') = None" by (simp add: row_of_None)
  have "row_of (snd (EnqueueMessage L rand in' s)) = (row_of s)(n_id in' \<mapsto> (Queued, 0))"
    using row none by (auto simp: accepted(1) row_of_def accept_def find_append fun_eq_iff split: option.splits)
  with none show ?thesis by blast
qed (auto simp: row_of_def)

lemma flight_same_rows:
  assumes "mail_worker.flight_ok fl w" "world_ok w'" "world_rows w' = world_rows w" "world_posts w' = world_posts w"
  shows "mail_worker.flight_ok fl w'"
  using assms by (simp add: mail_worker.flight_ok_def mail_worker.attempts_of_def)

lemma accept_flight:
  assumes f: "mail_worker.flight_ok fl w"
  shows "mail_worker.flight_ok fl (snd (on_store (EnqueueMessage L rand in') w))
    \<and> qstep\<^sup>*\<^sup>* (world_rows w) (world_rows (snd (on_store (EnqueueMessage L rand in') w)))"
proof -
  let ?w = "snd (on_store (EnqueueMessage L rand in') w)"
  have ok: "world_ok ?w" using mail_worker.flight_okD(1) [OF f] by (simp add: world_ok_def EnqueueMessage_ok)
  have p: "world_posts ?w = world_posts w" by (simp add: world_posts_def fun_eq_iff)
  consider "world_rows ?w = world_rows w"
    | "world_rows w (n_id in') = None" "world_rows ?w = (world_rows w)(n_id in' \<mapsto> (Queued, 0))"
    using accept_rows [of L rand in' "wd_store w"] by (auto simp: world_rows_def)
  then show ?thesis
  proof cases
    case 1
    with f ok p show ?thesis by (simp add: flight_same_rows)
  next
    case 2
    have step: "qstep (world_rows w) (world_rows ?w)" unfolding 2(2) by (rule qstep.arrive) (rule 2(1))
    have att: "mail_worker.attempts_of ?w i = mail_worker.attempts_of w i" for i
      using 2 by (simp add: mail_worker.attempts_of_def)
    have "mail_worker.flight_ok fl ?w"
    proof (rule mail_worker.flight_okI)
      show "rows_ok (world_rows ?w)" using qstep_ok [OF step] mail_worker.flight_okD(2) [OF f] .
      show "world_rows ?w (c_id c) = Some (Sending, c_attempts c)" if "c \<in> set fl" for c
        using mail_worker.flight_okD(4) [OF f that] 2 by auto
      show "world_posts ?w i + 1 \<le> mail_worker.attempts_of ?w i" if "i \<in> c_id ` set fl" for i
        using mail_worker.flight_okD(5) [OF f that] by (simp add: att p)
      show "world_posts ?w i \<le> mail_worker.attempts_of ?w i" for i
        using mail_worker.flight_okD(6) [OF f] by (simp add: att p)
    qed (use ok mail_worker.flight_okD(3) [OF f] in auto)
    with step show ?thesis by blast
  qed
qed

text \<open>Every step keeps the invariant of the flight and is a run of the abstract machine.\<close>

lemma sys_step_flight:
  assumes "sys_step L cfg (w, fl) (w', fl')" "mail_worker.flight_ok fl w"
  shows "mail_worker.flight_ok fl' w' \<and> qstep\<^sup>*\<^sup>* (world_rows w) (world_rows w')"
  using assms(1)
proof cases
  case (accept rand in')
  then show ?thesis using accept_flight [OF assms(2)] by simp
next
  case (claim r)
  then show ?thesis using mail_worker.tick_claim_flight [OF assms(2)] by blast
next
  case (deliver c)
  then show ?thesis using mail_worker.deliver_flight [OF assms(2)] by blast
next
  case (crash P)
  then show ?thesis using mail_worker.flight_crash [OF assms(2)] by simp
next
  case (environment t b clock script f)
  have rows: "world_rows w' = world_rows w"
    unfolding environment by (simp add: world_rows_def row_of_def fun_eq_iff)
  have "mail_worker.flight_ok fl w'"
    by (rule flight_same_rows [OF assms(2)])
       (use mail_worker.flight_okD(1) [OF assms(2)] rows in \<open>simp_all add: environment world_ok_def world_posts_def fun_eq_iff\<close>)
  with rows environment(2) show ?thesis by simp
next
  case (beside s)
  have rows: "world_rows w' = world_rows w"
    using beside(3) unfolding beside(1) by (simp add: world_rows_def store_quiet_def)
  have "mail_worker.flight_ok fl w'"
    by (rule flight_same_rows [OF assms(2)])
       (use mail_worker.flight_okD(1) [OF assms(2)] rows store_quiet_ok [OF beside(3)] in
          \<open>simp_all add: beside world_ok_def world_posts_def fun_eq_iff\<close>)
  with rows beside(2) show ?thesis by simp
qed

lemma sys_run_flight:
  assumes "sys_run L cfg (w, fl) (w', fl')" "mail_worker.flight_ok fl w"
  shows "mail_worker.flight_ok fl' w' \<and> qstep\<^sup>*\<^sup>* (world_rows w) (world_rows w')"
  using assms(1) unfolding sys_run_def
proof (induction "(w', fl')" arbitrary: w' fl' rule: rtranclp_induct)
  case base
  then show ?case using assms(2) by simp
next
  case (step y)
  obtain w1 fl1 where y: "y = (w1, fl1)" by fastforce
  from step y have "mail_worker.flight_ok fl1 w1 \<and> qstep\<^sup>*\<^sup>* (world_rows w) (world_rows w1)" by simp
  moreover from step(2) y sys_step_flight this
  have "mail_worker.flight_ok fl' w' \<and> qstep\<^sup>*\<^sup>* (world_rows w1) (world_rows w')" by blast
  ultimately show ?case by (auto intro: rtranclp_trans)
qed

section \<open>Properties of the whole system\<close>


definition sample_world :: world where
  "sample_world =
     \<lparr>wd_store = sample_store\<lparr>st_dkim := [\<lparr>s_id = 1, s_domain_id = 1, s_selector = ''s1'', s_algorithm = ''rsa'',
        s_wrapped = ''abcdefghijklTkey'', s_record = [], s_active = True, s_created_at = 0\<rparr>]\<rparr>,
      wd_net = \<lparr>net_script = [Status 200, Status 200], net_posts = []\<rparr>, wd_clock = 0, wd_boundary = ''b''\<rparr>"

definition sample_config :: worker_config where
  "sample_config = \<lparr>wc_dkim = sample_dkim, wc_engine_url = ''http://engine'', wc_master_key = ''k'',
     wc_base_url = [], wc_max_per_hour = 1\<rparr>"

definition sample_accepted :: world where
  "sample_accepted = snd (on_store (EnqueueMessage sample_lib (Inr [])
     (sample_new\<lparr>n_id := ''m2'', n_idempotency_key := ''k2''\<rparr>))
     (snd (on_store (EnqueueMessage sample_lib (Inr []) sample_new) sample_world)))"

definition sample_tick :: "(go_error + claimed list) \<times> world" where
  "sample_tick = tick_claim (store_worker sample_lib sample_config) sample_accepted"

lemma sample_fresh: "fresh_world sample_world"
  by code_simp

lemma sample_run:
  "sys_run sample_lib sample_config (sample_world, []) (snd sample_tick, claims (fst sample_tick))"
proof -
  let ?w = "snd (on_store (EnqueueMessage sample_lib (Inr []) sample_new) sample_world)"
  have "sys_step sample_lib sample_config (sample_world, []) (?w, [])" by (rule sys_step.accept)
  moreover have "sys_step sample_lib sample_config (?w, []) (sample_accepted, [])"
    unfolding sample_accepted_def by (rule sys_step.accept)
  moreover have "sys_step sample_lib sample_config (sample_accepted, []) (snd sample_tick, [] @ claims (fst sample_tick))"
    unfolding sample_tick_def by (rule sys_step.claim) simp
  ultimately show ?thesis unfolding sys_run_def by (simp add: converse_rtranclp_into_rtranclp)
qed

text \<open>
  The ceiling of one message an hour lets a tick claim two, although none was sent so far: it is
  compared with what was sent before the batch, not with what the batch will send.
\<close>

lemma ceiling_admits_a_batch:
  "wc_max_per_hour sample_config = 1 \<and> sent_events (wd_store sample_accepted) = 0
   \<and> map c_id (claims (fst sample_tick)) = [''m1'', ''m2'']"
  by code_simp


end
