(* ===== verification/Worker_Properties.thy ===== *)
theory Worker_Properties
  imports Worker_System
begin

text \<open>
  The properties of the delivery loop over the store and the engine: what is finished stays
  finished, the hourly ceiling, only signed messages are posted, and what the engine's verdicts
  can do to the suppression list.
\<close>

section \<open>Finished messages\<close>

lemma qsteps_final:
  "qstep\<^sup>*\<^sup>* f g \<Longrightarrow> f i = Some (st, n) \<Longrightarrow> st = Sent \<or> st = Failed \<Longrightarrow> g i = Some (st, n)"
  by (induction rule: rtranclp_induct) (auto dest: qstep_final)

lemma sys_step_posts:
  assumes "sys_step L cfg (w, fl) (w', fl')" "mail_worker.flight_ok fl w" "i \<notin> c_id ` set fl"
  shows "world_posts w' i = world_posts w i"
  using assms(1)
proof cases
  case (claim r)
  have q: "world_posts (snd (tick_claim (store_worker L cfg) w)) = world_posts w"
    by (simp add: tick_claim_def case_prod_unfold world_posts_def fun_eq_iff split: sum.splits)
  then show ?thesis using claim by simp
next
  case (deliver c)
  then have "c_id c \<noteq> i" using assms(3) by auto
  moreover have "world_posts w' = world_posts w \<or> world_posts w' = (world_posts w)(c_id c := world_posts w (c_id c) + 1)"
    unfolding deliver(1) using mail_worker.deliver_effect [OF mail_worker.flight_okD(1) [OF assms(2)]] by blast
  ultimately show ?thesis by auto
qed (simp_all add: world_posts_def)

lemma not_in_flight:
  assumes "mail_worker.flight_ok fl w" "world_rows w i = Some (st, n)" "st = Sent \<or> st = Failed"
  shows "i \<notin> c_id ` set fl"
  using mail_worker.flight_okD(4) [OF assms(1)] assms(2,3) by auto

lemma sys_run_final_posts:
  assumes "sys_run L cfg (w, fl) (w', fl')" "mail_worker.flight_ok fl w"
    and "world_rows w i = Some (st, n)" "st = Sent \<or> st = Failed"
  shows "world_posts w' i = world_posts w i"
  using assms(1) unfolding sys_run_def
proof (induction "(w', fl')" arbitrary: w' fl' rule: rtranclp_induct)
  case base
  then show ?case by simp
next
  case (step y)
  obtain w1 fl1 where y: "y = (w1, fl1)" by fastforce
  have "sys_run L cfg (w, fl) (w1, fl1)" using step(1) y by (simp add: sys_run_def)
  from sys_run_flight [OF this assms(2)]
  have f: "mail_worker.flight_ok fl1 w1" and q: "qstep\<^sup>*\<^sup>* (world_rows w) (world_rows w1)" by blast+
  have "i \<notin> c_id ` set fl1" using not_in_flight [OF f qsteps_final [OF q assms(3,4)] assms(4)] .
  from sys_step_posts [OF step(2) [unfolded y] f this] step(3) [OF y] show ?case by simp
qed

text \<open>
  C12. A message that is sent or has been given up keeps its status and its attempts for ever, and
  the engine is never given it again, whatever workers, crashes and outages follow.
\<close>

theorem finished_messages_stay:
  assumes "fresh_world w0" "sys_run L cfg (w0, []) (w, fl)"
    and "row_of (wd_store w) i = Some (st, n)" "st = Sent \<or> st = Failed"
    and "sys_run L cfg (w, fl) (w', fl')"
  shows "row_of (wd_store w') i = Some (st, n) \<and> world_posts w' i = world_posts w i"
proof -
  have f: "mail_worker.flight_ok fl w" using sys_run_flight [OF assms(2) fresh_flight [OF assms(1)]] by blast
  have r: "world_rows w i = Some (st, n)" using assms(3) by (simp add: world_rows_def)
  from sys_run_flight [OF assms(5) f] have "qstep\<^sup>*\<^sup>* (world_rows w) (world_rows w')" by blast
  from qsteps_final [OF this r assms(4)] sys_run_final_posts [OF assms(5) f r assms(4)]
  show ?thesis by (simp add: world_rows_def)
qed

text \<open>A message whose domain has no signing key is given up at once.\<close>

definition sample_keyless :: world where
  "sample_keyless = sample_world\<lparr>wd_store := snd (EnqueueMessage sample_lib (Inr []) sample_new sample_store)\<rparr>"

definition sample_given_up :: world where
  "sample_given_up =
     (case tick_claim (store_worker sample_lib sample_config) sample_keyless of
        (r, w) \<Rightarrow> deliver sample_lib (store_worker sample_lib sample_config) (hd (claims r)) w)"

lemma sample_given_up_row: "row_of (wd_store sample_given_up) ''m1'' = Some (Failed, 1)"
  by code_simp

lemma sample_given_up_run:
  "sys_run sample_lib sample_config (sample_world\<lparr>wd_store := sample_store\<rparr>, []) (sample_given_up, [])"
proof -
  let ?w0 = "sample_world\<lparr>wd_store := sample_store\<rparr>"
  let ?sw = "store_worker sample_lib sample_config"
  obtain r w where t: "tick_claim ?sw sample_keyless = (r, w)" by fastforce
  have "length (claims (fst (tick_claim ?sw sample_keyless))) = 1" by code_simp
  then obtain c where c: "claims r = [c]" unfolding t by (auto simp: length_Suc_conv)
  have "sample_keyless = snd (on_store (EnqueueMessage sample_lib (Inr []) sample_new) ?w0)"
    by (simp add: sample_keyless_def on_store_def case_prod_unfold)
  then have "sys_step sample_lib sample_config (?w0, []) (sample_keyless, [])"
    using sys_step.accept by metis
  moreover have "sys_step sample_lib sample_config (sample_keyless, []) (w, [c])"
    using sys_step.claim [OF t, of "[]"] c by simp
  moreover have "sys_step sample_lib sample_config (w, [c]) (sample_given_up, [])"
    using sys_step.deliver [of c "[c]" sample_lib sample_config w] c by (simp add: sample_given_up_def t)
  ultimately show ?thesis unfolding sys_run_def by (simp add: converse_rtranclp_into_rtranclp)
qed

lemma finished_messages_stay_witness:
  "row_of (wd_store (snd (tick_claim (store_worker sample_lib sample_config) sample_given_up))) ''m1''
     = Some (Failed, 1)"
proof -
  let ?sw = "store_worker sample_lib sample_config"
  obtain r w where t: "tick_claim ?sw sample_given_up = (r, w)" by fastforce
  have f: "fresh_world (sample_world\<lparr>wd_store := sample_store\<rparr>)" by code_simp
  have "sys_run sample_lib sample_config (sample_given_up, []) (w, claims r)"
    unfolding sys_run_def using sys_step.claim [OF t, of "[]"] by (simp add: r_into_rtranclp)
  from finished_messages_stay [OF f sample_given_up_run sample_given_up_row _ this] t show ?thesis by simp
qed

section \<open>The hourly ceiling\<close>

text \<open>One worker, with messages arriving and time passing between its ticks.\<close>

inductive hour_step :: "golib \<Rightarrow> worker_config \<Rightarrow> world \<Rightarrow> world \<Rightarrow> bool" for L cfg where
  tick: "hour_step L cfg w (snd (tick L (store_worker L cfg) w))"
| accept: "hour_step L cfg w (snd (on_store (EnqueueMessage L rand in') w))"
| environment: "st_now (wd_store w) \<le> t \<Longrightarrow>
    hour_step L cfg w (w\<lparr>wd_store := (wd_store w)\<lparr>st_now := t, st_fates := f\<rparr>,
      wd_net := (wd_net w)\<lparr>net_script := script\<rparr>, wd_clock := clock, wd_boundary := b\<rparr>)"

lemma length_filter_mono: "(\<And>x. P x \<Longrightarrow> Q x) \<Longrightarrow> length (filter P xs) \<le> length (filter Q xs)"
  by (induction xs) (auto intro: le_SucI)

lemma accept_sent_events: "sent_events (snd (EnqueueMessage L rand in' s)) = sent_events s"
  by (cases rule: EnqueueMessage_cases [of L rand in' s]) (simp_all add: sent_events_def accept_def)

lemma sent_events_later: "st_now s \<le> t \<Longrightarrow> sent_events (s\<lparr>st_now := t, st_fates := f\<rparr>) \<le> sent_events s"
  by (auto simp: sent_events_def recent_def intro: length_filter_mono)

lemma hour_step_ceiling:
  assumes "hour_step L cfg w w'" "0 < wc_max_per_hour cfg" "mail_worker.flight_ok [] w"
    and "int (sent_events (wd_store w)) < wc_max_per_hour cfg + int batchSize"
  shows "mail_worker.flight_ok [] w' \<and> int (sent_events (wd_store w')) < wc_max_per_hour cfg + int batchSize"
  using assms(1)
proof cases
  case tick
  obtain r where t: "tick L (store_worker L cfg) w = (r, w')" using tick by (metis prod.collapse)
  note l = mail_worker.tick_flight [OF assms(3) t]
  show ?thesis
    using l(1,3,4) assms(2,4) by (cases "wc_max_per_hour cfg \<le> int (world_dispatched w)") (auto simp: world_dispatched_def)
next
  case (accept rand in')
  then show ?thesis using accept_flight [OF assms(3)] assms(4) by (simp add: accept_sent_events)
next
  case (environment t b clock script f)
  have "sys_step L cfg (w, []) (w', [])" unfolding environment(1) using environment(2) by (rule sys_step.environment)
  from sys_step_flight [OF this assms(3)] assms(4) sent_events_later [OF environment(2), of f]
  show ?thesis by (simp add: environment(1))
qed



section \<open>Only signed messages leave\<close>

lemma publish_net [simp]: "wd_net (publish L (store_worker L cfg) i ty reason n w) = wd_net w"
  by (simp add: publish_def store_worker_def Let_def)

lemma fail_net [simp]: "wd_net (fail L (store_worker L cfg) msg reason w) = wd_net w"
  by (auto simp: fail_def split: sum.splits prod.splits dest: on_storeD)

lemma suppress_fold_net:
  "wd_net (fold (\<lambda>r w. snd (on_store (Suppress L r a b c) w)) rs w) = wd_net w"
  by (induction rs arbitrary: w) simp_all

lemma suppressIfAddressIsBad_net [simp]:
  "wd_net (suppressIfAddressIsBad L (store_worker L cfg) msg reason w) = wd_net w"
  by (simp add: suppressIfAddressIsBad_def store_worker_def Let_def suppress_fold_net)

lemma key_of_message_tail [simp]: "key_of_message i (tail_fates s) = key_of_message i s"
  by (simp add: key_of_message_def key_of_domain_def newest_key_def split: option.splits)

lemma SigningKeyForMessage_InrD: "SigningKeyForMessage i s = (Inr k, s') \<Longrightarrow> key_of_message i s = Some k"
  by (auto simp: SigningKeyForMessage_def dest!: query_InrD split: sum.splits option.splits prod.splits)

definition dkim_key_of :: "signing_key \<Rightarrow> dkim_key" where
  "dkim_key_of k = \<lparr>dk_domain = sk_domain k, dk_selector = sk_selector k,
     dk_algorithm = sk_algorithm k, dk_wrapped = sk_wrapped k\<rparr>"

lemma envelope_of_clock:
  "wd_clock w1 = wd_clock w \<Longrightarrow> envelope_of L (store_worker L cfg) msg k w1 = envelope_of L (store_worker L cfg) msg k w"
  by (simp add: envelope_of_def unsubscribe_url_def store_worker_def cong: list.case_cong)

lemma sign_InrD:
  assumes "sign L (store_worker L cfg) msg w = (Inr signed', w')"
  shows "wd_net w' = wd_net w \<and> (\<exists>key raw. key_of_message (c_id msg) (wd_store w) = Some key
    \<and> Build L (wd_clock w) (wd_boundary w) (envelope_of L (store_worker L cfg) msg key w) = Inr raw
    \<and> dkim_Sign L (wc_dkim cfg) (wc_master_key cfg) (wd_clock w) (dkim_key_of key) raw = Inr signed')"
proof -
  let ?k = "on_store (SigningKeyForMessage (c_id msg)) w"
  obtain r w1 where k: "?k = (r, w1)" by fastforce
  then have same: "wd_clock w1 = wd_clock w" "wd_boundary w1 = wd_boundary w" "wd_net w1 = wd_net w"
    by (auto simp: on_store_def split: prod.splits)
  from assms k obtain key where key: "r = Inr key"
    by (cases r) (auto simp: sign_def store_worker_def)
  with k have found: "key_of_message (c_id msg) (wd_store w) = Some key"
    using on_storeD SigningKeyForMessage_InrD by metis
  from assms k key obtain raw where
    "Build L (wd_clock w1) (wd_boundary w1) (envelope_of L (store_worker L cfg) msg key w1) = Inr raw"
    "dkim_Sign L (wc_dkim cfg) (wc_master_key cfg) (wd_clock w1) (dkim_key_of key) raw = Inr signed'"
    "w' = snd (on_store (MarkSigned (c_id msg)) w1)"
    by (auto simp: sign_def store_worker_def dkim_key_of_def split: sum.splits)
  then show ?thesis using same found envelope_of_clock [OF same(1)] by auto
qed

lemma sign_net: "wd_net (snd (sign L (store_worker L cfg) msg w)) = wd_net w"
proof -
  obtain r w1 where k: "on_store (SigningKeyForMessage (c_id msg)) w = (r, w1)" by fastforce
  then have "wd_net w1 = wd_net w" by (auto dest: on_storeD)
  with k show ?thesis by (auto simp: sign_def store_worker_def split: sum.splits)
qed

text \<open>What follows the hand-over does not post.\<close>

lemma deliver_net:
  assumes "sign L (store_worker L cfg) msg w = (Inr raw, w1)"
  shows "wd_net (deliver L (store_worker L cfg) msg w)
    = snd (engine_Send L (wc_engine_url cfg) (post_of L msg raw) (wd_net w1))"
proof -
  obtain resp net where e: "engine_Send L (wc_engine_url cfg) (post_of L msg raw) (wd_net w1) = (resp, net)"
    by fastforce
  then have "on_net (engine_Send L (wc_engine_url cfg) (post_of L msg raw)) w1 = (resp, w1\<lparr>wd_net := net\<rparr>)"
    by (simp add: on_net_def)
  with assms e show ?thesis
    by (cases "re_result resp")
       (auto simp: deliver_def split: sum.splits prod.splits dest!: on_storeD)
qed

text \<open>
  C3. The engine is never given an unsigned message: whatever deliver posts, at most one message,
  carries the bytes the DKIM signer returned for the message built from the claimed row, signed
  with the newest active key of the message's own domain.
\<close>

theorem only_signed_messages_are_posted:
  "net_posts (wd_net (deliver L (store_worker L cfg) msg w)) = net_posts (wd_net w)
   \<or> (\<exists>key raw signed'.
        net_posts (wd_net (deliver L (store_worker L cfg) msg w)) = net_posts (wd_net w) @ [post_of L msg signed']
        \<and> key_of_message (c_id msg) (wd_store w) = Some key
        \<and> Build L (wd_clock w) (wd_boundary w) (envelope_of L (store_worker L cfg) msg key w) = Inr raw
        \<and> dkim_Sign L (wc_dkim cfg) (wc_master_key cfg) (wd_clock w) (dkim_key_of key) raw = Inr signed')"
proof -
  obtain r w1 where s: "sign L (store_worker L cfg) msg w = (r, w1)" by fastforce
  show ?thesis
  proof (cases r)
    case (Inl e)
    with s sign_net [of L cfg msg w] show ?thesis by (simp add: deliver_def)
  next
    case (Inr raw)
    with s have i: "sign L (store_worker L cfg) msg w = (Inr raw, w1)" by simp
    from sign_InrD [OF i] have n: "wd_net w1 = wd_net w" by blast
    obtain resp net where e: "engine_Send L (wc_engine_url cfg) (post_of L msg raw) (wd_net w1) = (resp, net)"
      by fastforce
    from engine_Send_posts [OF e] deliver_net [OF i] e n
    have "net_posts (wd_net (deliver L (store_worker L cfg) msg w)) = net_posts (wd_net w)
      \<or> net_posts (wd_net (deliver L (store_worker L cfg) msg w)) = net_posts (wd_net w) @ [post_of L msg raw]"
      by simp
    with sign_InrD [OF i] show ?thesis by blast
  qed
qed

section \<open>The engine's verdicts and the suppression list\<close>

lemma parse_sections_dot:
  "CHR ''.'' \<notin> set s \<Longrightarrow> 2 \<le> k \<Longrightarrow> parse_sections k s parts = None"
proof -
  assume s: "CHR ''.'' \<notin> set s" and "2 \<le> k"
  then obtain j where "k = Suc j" "0 < j" by (cases k) auto
  moreover have "dropWhile isDigit s \<noteq> CHR ''.'' # r" for r
    using s set_dropWhileD [of "CHR ''.''" isDigit s] by auto
  ultimately show ?thesis by (auto simp: Let_def split: list.splits)
qed

lemma find_status_dot: "CHR ''.'' \<notin> set s \<Longrightarrow> find_status prev s = None"
  by (induction s arbitrary: prev) (simp_all add: parseStatus_def parse_sections_dot)

lemma itoa_three:
  assumes "100 \<le> n" "n \<le> 999"
  obtains a b c where "itoa n = [a, b, c]" "isDigit a" "isDigit b" "isDigit c"
    "(byte a - 48) * 100 + (byte b - 48) * 10 + (byte c - 48) = nat n"
proof -
  define m where "m = nat n"
  define x y z where "x = m div 10 div 10" and "y = m div 10 mod 10" and "z = m mod 10"
  have m: "100 \<le> m" "m \<le> 999" using assms by (auto simp: m_def)
  then have d: "x < 10" "y < 10" "z < 10" "\<not> m < 10" "\<not> m div 10 < 10"
    by (auto simp: x_def y_def z_def)
  have d': "x * 100 + y * 10 + z = m" 
    unfolding x_def y_def z_def
    using div_mult_mod_eq [of m 10] div_mult_mod_eq [of "m div 10" 10] by linarith
  have "itoa_nat m = [char_of (48 + x), char_of (48 + y), char_of (48 + z)]"
    using d(1,4,5) unfolding x_def y_def z_def
    by (simp add: itoa_nat.simps [of m] itoa_nat.simps [of "m div 10"] itoa_nat.simps [of "m div 10 div 10"])
  then have i: "itoa n = [char_of (48 + x), char_of (48 + y), char_of (48 + z)]"
    using assms by (simp add: itoa_def m_def)
  have b: "byte (char_of (48 + k)) - 48 = k" if "k < 10" for k using that by simp
  have v: "(byte (char_of (48 + x)) - 48) * 100 + (byte (char_of (48 + y)) - 48) * 10
      + (byte (char_of (48 + z)) - 48) = nat n"
    unfolding b [OF d(1)] b [OF d(2)] b [OF d(3)] using d' m_def by simp
  show thesis
    using that [OF i isDigit_char_of [OF d(1)] isDigit_char_of [OF d(2)] isDigit_char_of [OF d(3)] v] .
qed

lemma digit_char: "isDigit c \<Longrightarrow> c \<in> set ''0123456789''"
proof -
  assume "isDigit c"
  then have "of_char c \<in> {48 .. (57::nat)}" by (simp add: isDigit_def)
  then have "char_of (of_char c :: nat) \<in> char_of ` {48 .. (57::nat)}" by (rule imageI)
  also have "char_of ` {48 .. (57::nat)} = set ''0123456789''" by code_simp
  finally show ?thesis by simp
qed

lemma digit_separates: "isDigit c \<Longrightarrow> \<not> reply_separator c"
  by (auto simp: isDigit_def reply_separator_def)

lemma rejection_fields:
  "fields_by reply_separator (''engine rejected the message with '' @ s) []
     = [''engine'', ''rejected'', ''the'', ''message'', ''with''] @ fields_by reply_separator s []"
  by (simp add: reply_separator_def)

lemma digit_lower: "isDigit c \<Longrightarrow> is_ascii [c] \<and> ascii_lower c = c"
  by (auto simp: isDigit_def is_ascii_def ascii_lower_def)

lemma rejection_no_complaint:
  assumes "isDigit a" "isDigit b" "isDigit c"
  shows "\<not> list_ex (Contains (ToLower L (''engine rejected the message with '' @ [a, b, c]))) complaintPhrases"
proof -
  let ?t = "''engine rejected the message with '' @ [a, b, c]"
  have "is_ascii ?t" using digit_lower assms by (simp add: is_ascii_def)
  then have t: "ToLower L ?t = ?t" using digit_lower assms by (simp add: ToLower_ascii ascii_lower_def)
  have "CHR ''b'' \<notin> set ?t" "CHR ''p'' \<notin> set ?t" using assms by (auto simp: isDigit_def)
  moreover have "set q \<subseteq> set ?t" if "Contains ?t q" for q using that unfolding Contains_iff by force
  ultimately show ?thesis unfolding t complaintPhrases_def by force
qed

lemma engine_rejection_spares:
  assumes "100 \<le> code" "code \<le> 999" "re_result (engine_response code) = Permanent"
  shows "\<not> Suppresses (v_kind (Classify L (re_reason (engine_response code))))"
proof -
  let ?p = "''engine rejected the message with ''"
  obtain a b c where i: "itoa code = [a, b, c]" and d: "isDigit a" "isDigit b" "isDigit c"
    and v: "(byte a - 48) * 100 + (byte b - 48) * 10 + (byte c - 48) = nat code"
    using itoa_three [OF assms(1,2)] by metis
  let ?t = "?p @ [a, b, c]"
  have code: "code < 500" and r: "re_reason (engine_response code) = ?t"
    using assms(3) i by (auto simp: engine_response_def split: if_splits)
  have st: "findEnhancedStatus ?t = None"
    unfolding findEnhancedStatus_def by (rule find_status_dot) (use d in \<open>auto simp: isDigit_def\<close>)
  have f: "fields_by reply_separator [a, b, c] [] = [[a, b, c]]" using d digit_separates by simp
  have "findReplyCode ?t = reply_loop [''engine'', ''rejected'', ''the'', ''message'', ''with'', [a, b, c]]"
    unfolding findReplyCode_def rejection_fields f by simp
  also have "\<dots> = reply_loop [[a, b, c]]" by (simp add: isDigit_def)
  also have "\<dots> = (if 200 \<le> nat code \<and> nat code \<le> 599 then Some (nat code) else None)"
    using d v by (simp add: Let_def)
  finally have "\<not> Suppresses (v_kind (classify_reply ?t))"
    using code by (auto simp: classify_reply_kind split: if_splits)
  with rejection_no_complaint [OF d, of L] st r show ?thesis
    by (simp add: Classify_def Let_def MaxReportBytes_def)
qed

lemma fan_out_suppressions [simp]:
  "st_suppressions (fan_out e i p ws s) = st_suppressions s"
  by (induction e i p ws s rule: fan_out.induct) (simp_all add: nextval_def Let_def)

lemma mark_suppressions:
  assumes "\<And>now m. m_id (h now m) = m_id m"
  shows "st_suppressions (snd (mark what texts h id' event detail s)) = st_suppressions s"
  by (rule mark_cases [of h, OF assms, of what texts id' event detail s]) (auto simp: queue_frame_def)

lemma store_keeps_suppressions [simp]:
  "st_suppressions (snd (EnqueueDelivery L e i p s)) = st_suppressions s"
  "st_suppressions (snd (SigningKeyForMessage i s)) = st_suppressions s"
  "st_suppressions (snd (MarkSigned i s)) = st_suppressions s"
  "st_suppressions (snd (MarkSent i s)) = st_suppressions s"
  "st_suppressions (snd (MarkDeferred i at' reason s)) = st_suppressions s"
  "st_suppressions (snd (MarkFailed i reason s)) = st_suppressions s"
proof -
  show "st_suppressions (snd (EnqueueDelivery L e i p s)) = st_suppressions s"
    unfolding EnqueueDelivery_def
    by (rule run_wrapped_rel) (auto simp: insert_deliveries_def Let_def split: option.splits if_splits)
  show "st_suppressions (snd (SigningKeyForMessage i s)) = st_suppressions s"
    by (simp add: SigningKeyForMessage_snd)
  show "st_suppressions (snd (MarkSigned i s)) = st_suppressions s"
    unfolding MarkSigned_def by (rule run_wrapped_rel) (auto simp: stmt_update_def)
qed (simp_all add: mark_simps mark_suppressions)

lemma world_keeps_suppressions:
  "st_suppressions (wd_store (publish L (store_worker L cfg) i ty reason n w)) = st_suppressions (wd_store w)"
  "st_suppressions (wd_store (fail L (store_worker L cfg) msg reason w)) = st_suppressions (wd_store w)"
  "st_suppressions (wd_store (snd (sign L (store_worker L cfg) msg w))) = st_suppressions (wd_store w)"
proof -
  show p: "st_suppressions (wd_store (publish L (store_worker L cfg) i ty reason n w)) = st_suppressions (wd_store w)"
    for i ty reason n w by (simp add: publish_def store_worker_def Let_def)
  show "st_suppressions (wd_store (fail L (store_worker L cfg) msg reason w)) = st_suppressions (wd_store w)"
  proof -
    obtain r w' where f: "on_store (MarkFailed (c_id msg) reason) w = (r, w')" by fastforce
    then have "st_suppressions (wd_store w') = st_suppressions (wd_store w)"
      by (metis on_store_snd(1) snd_conv store_keeps_suppressions(6))
    with f p show ?thesis by (cases r) (simp_all add: fail_def)
  qed
  show "st_suppressions (wd_store (snd (sign L (store_worker L cfg) msg w))) = st_suppressions (wd_store w)"
  proof -
    obtain r w1 where k: "on_store (SigningKeyForMessage (c_id msg)) w = (r, w1)" by fastforce
    then have "st_suppressions (wd_store w1) = st_suppressions (wd_store w)"
      by (metis on_store_snd(1) snd_conv store_keeps_suppressions(2))
    with k show ?thesis by (auto simp: sign_def store_worker_def split: sum.splits)
  qed
qed

text \<open>
  C40. A delivery through the engine never suppresses an address: with an engine URL that parses
  and an engine that answers with HTTP status codes, no reason it gives for a rejection reads as
  a hard bounce or a complaint, so the suppression list stays as it was.
\<close>

theorem engine_never_suppresses:
  assumes "url_parse L (wc_engine_url cfg @ ''/api/inject/v1'') \<noteq> None"
    and "\<And>code. Status code \<in> set (net_script (wd_net w)) \<Longrightarrow> 100 \<le> code \<and> code \<le> 999"
  shows "st_suppressions (wd_store (deliver L (store_worker L cfg) msg w)) = st_suppressions (wd_store w)"
proof -
  let ?sw = "store_worker L cfg"
  obtain r w1 where s: "sign L ?sw msg w = (r, w1)" by fastforce
  have w1: "st_suppressions (wd_store w1) = st_suppressions (wd_store w)" "wd_net w1 = wd_net w"
    using world_keeps_suppressions(3) [of L cfg msg w] sign_net [of L cfg msg w] s by simp_all
  show ?thesis
  proof (cases r)
    case (Inl e)
    with s w1 show ?thesis by (simp add: deliver_def world_keeps_suppressions)
  next
    case (Inr raw)
    obtain resp net where e: "engine_Send L (wc_engine_url cfg) (post_of L msg raw) (wd_net w) = (resp, net)"
      by fastforce
    let ?w2 = "w1\<lparr>wd_net := net\<rparr>"
    have n: "on_net (engine_Send L (wc_engine_url cfg) (post_of L msg raw)) w1 = (resp, ?w2)"
      using e w1 by (simp add: on_net_def)
    have sg: "sign L ?sw msg w = (Inr raw, w1)" using s Inr by simp
    show ?thesis
    proof (cases "re_result resp")
      case Permanent
      then obtain code where "resp = engine_response code" "Status code \<in> set (net_script (wd_net w))"
        using e assms(1)
        by (auto simp: engine_Send_def http_do_def Let_def split: option.splits list.splits http_outcome.splits)
      with assms(2) Permanent have "\<not> Suppresses (v_kind (Classify L (re_reason resp)))"
        using engine_rejection_spares by blast
      then have "suppressIfAddressIsBad L ?sw msg (re_reason resp) ?w2 = ?w2"
        by (simp add: suppressIfAddressIsBad_def store_worker_def Let_def)
      with sg n Permanent w1 show ?thesis by (simp add: deliver_def world_keeps_suppressions)
    next
      case EngineSent
      obtain r3 w3 where m: "on_store (MarkSent (c_id msg)) ?w2 = (r3, w3)" by fastforce
      then have "st_suppressions (wd_store w3) = st_suppressions (wd_store w1)"
        using on_store_snd(1) [of "MarkSent (c_id msg)" ?w2] by simp
      with sg n EngineSent m w1 show ?thesis by (cases r3) (simp_all add: deliver_def world_keeps_suppressions)
    next
      case Temporary
      obtain r3 w3 where m: "on_store (MarkDeferred (c_id msg) (wk_now ?sw ?w2 + Backoff (c_attempts msg)) (re_reason resp)) ?w2
          = (r3, w3)" by fastforce
      then have "st_suppressions (wd_store w3) = st_suppressions (wd_store w1)"
        using on_store_snd(1) [of "MarkDeferred (c_id msg) (wk_now ?sw ?w2 + Backoff (c_attempts msg)) (re_reason resp)" ?w2]
        by simp
      with sg n Temporary m w1 show ?thesis by (cases r3) (simp_all add: deliver_def world_keeps_suppressions)
    qed
  qed
qed

lemma engine_never_suppresses_witness:
  "st_suppressions (wd_store (deliver sample_lib (store_worker sample_lib sample_config)
     (hd (claims (fst sample_tick))) (sample_world\<lparr>wd_net := \<lparr>net_script = [Status 404], net_posts = []\<rparr>\<rparr>)))
   = st_suppressions (wd_store sample_world)"
proof -
  have "url_parse sample_lib (wc_engine_url sample_config @ ''/api/inject/v1'') \<noteq> None"
    by (simp add: sample_config_def sample_lib_def sample_url_def Cut_def HasPrefix_def split: prod.splits)
  from engine_never_suppresses [OF this,
      of "sample_world\<lparr>wd_net := \<lparr>net_script = [Status 404], net_posts = []\<rparr>\<rparr>"]
  show ?thesis by simp
qed

end
