(* ===== verification/Netguard.thy ===== *)
theory Netguard
  imports Store_Base
begin

unbundle bit_operations_syntax

text \<open>
  Package netguard, internal/netguard/netguard.go: which addresses an outgoing request to a URL
  of a tenant's choice may reach, and the HTTP client that checks them at the moment it dials and
  again on every redirect.
\<close>

section \<open>Addresses\<close>

text \<open>Octet \<open>i\<close> of the 16 octets of an IPv6 address, from the left.\<close>

definition octet :: "128 word \<Rightarrow> nat \<Rightarrow> u8" where
  "octet a i = ucast (drop_bit (120 - 8 * i) a)"

definition is4in6 :: "128 word \<Rightarrow> bool" where
  "is4in6 a \<longleftrightarrow> drop_bit 32 a = 0xFFFF"

text \<open>netip.Addr's methods, as its documentation and source define them.\<close>

definition Unmap :: "addr \<Rightarrow> addr" where
  "Unmap x =
     (case x of
        Addr6 a zone \<Rightarrow>
          if is4in6 a then Addr4 (octet a 12) (octet a 13) (octet a 14) (octet a 15) else x
      | _ \<Rightarrow> x)"

definition IsValid :: "addr \<Rightarrow> bool" where "IsValid x \<longleftrightarrow> x \<noteq> NoAddr"

definition IsLoopback :: "addr \<Rightarrow> bool" where
  "IsLoopback x = (case x of Addr4 a b c d \<Rightarrow> a = 127 | Addr6 w zone \<Rightarrow> w = 1 | NoAddr \<Rightarrow> False)"

definition IsPrivate :: "addr \<Rightarrow> bool" where
  "IsPrivate x =
     (case x of
        Addr4 a b c d \<Rightarrow> a = 10 \<or> (a = 172 \<and> (b AND 0xF0) = 16) \<or> (a = 192 \<and> b = 168)
      | Addr6 w zone \<Rightarrow> (octet w 0 AND 0xFE) = 0xFC
      | NoAddr \<Rightarrow> False)"

definition IsLinkLocalUnicast :: "addr \<Rightarrow> bool" where
  "IsLinkLocalUnicast x =
     (case x of
        Addr4 a b c d \<Rightarrow> a = 169 \<and> b = 254
      | Addr6 w zone \<Rightarrow> octet w 0 = 0xFE \<and> (octet w 1 AND 0xC0) = 0x80
      | NoAddr \<Rightarrow> False)"

definition IsLinkLocalMulticast :: "addr \<Rightarrow> bool" where
  "IsLinkLocalMulticast x =
     (case x of
        Addr4 a b c d \<Rightarrow> a = 224 \<and> b = 0 \<and> c = 0
      | Addr6 w zone \<Rightarrow> octet w 0 = 0xFF \<and> (octet w 1 AND 0x0F) = 2
      | NoAddr \<Rightarrow> False)"

definition IsInterfaceLocalMulticast :: "addr \<Rightarrow> bool" where
  "IsInterfaceLocalMulticast x =
     (case x of Addr6 w zone \<Rightarrow> octet w 0 = 0xFF \<and> (octet w 1 AND 0x0F) = 1 | _ \<Rightarrow> False)"

definition IsMulticast :: "addr \<Rightarrow> bool" where
  "IsMulticast x =
     (case x of
        Addr4 a b c d \<Rightarrow> (a AND 0xF0) = 0xE0
      | Addr6 w zone \<Rightarrow> octet w 0 = 0xFF
      | NoAddr \<Rightarrow> False)"

text \<open>Equality with the unspecified address: a zone makes a difference.\<close>

definition IsUnspecified :: "addr \<Rightarrow> bool" where
  "IsUnspecified x \<longleftrightarrow> x = Addr4 0 0 0 0 \<or> x = Addr6 0 []"

definition IsBlocked :: "addr \<Rightarrow> bool" where
  "IsBlocked addr0 =
     (if \<not> IsValid addr0 then True
      else
        let addr = Unmap addr0 in
        if IsLoopback addr \<or> IsPrivate addr \<or> IsLinkLocalUnicast addr \<or> IsLinkLocalMulticast addr
           \<or> IsInterfaceLocalMulticast addr \<or> IsMulticast addr \<or> IsUnspecified addr then True
        else
          (case addr of
             Addr4 b0 b1 b2 b3 \<Rightarrow>
               if b0 = 127 \<or> b0 = 0 \<or> b0 = 10 then True
               else if b0 = 169 \<and> b1 = 254 then True
               else if b0 = 172 \<and> b1 \<ge> 16 \<and> b1 \<le> 31 then True
               else if b0 = 192 \<and> b1 = 168 then True
               else if b0 = 100 \<and> b1 \<ge> 64 \<and> b1 \<le> 127 then True
               else if b0 = 192 \<and> b1 = 0 \<and> b2 = 0 then True
               else if b0 \<ge> 240 then True
               else False
           | Addr6 a zone \<Rightarrow>
               if octet a 0 = 0xFC \<or> octet a 0 = 0xFD then True
               else if octet a 0 = 0xFE \<and> (octet a 1 AND 0xC0) = 0x80 then True
               else if addr = Addr6 1 [] then True
               else False
           | NoAddr \<Rightarrow> False))"

section \<open>URLs\<close>

datatype url_fault = BadURL bytes | ErrBlockedScheme | MissingHost | ErrBlockedPort | ErrBlockedAddress

definition url_fault_text :: "url_fault \<Rightarrow> bytes" where
  "url_fault_text e =
     (case e of
        BadURL t \<Rightarrow> ''destination is not a valid url: '' @ t
      | ErrBlockedScheme \<Rightarrow> ''only http and https destinations are permitted''
      | MissingHost \<Rightarrow> ''destination is missing a host''
      | ErrBlockedPort \<Rightarrow> ''only ports 80 and 443 are permitted''
      | ErrBlockedAddress \<Rightarrow> ''destination address is not permitted'')"

text \<open>
  strings.EqualFold with a word of ASCII letters: rune by rune, a letter in either case, and the
  two runes outside ASCII that fold to an ASCII letter, the long s and the Kelvin sign.
\<close>

definition folds_to :: "nat \<Rightarrow> char \<Rightarrow> bool" where
  "folds_to r c \<longleftrightarrow>
     (let x = byte (ascii_lower c) in
      r = x \<or> (97 \<le> x \<and> x \<le> 122 \<and> r = x - 32) \<or> (x = 115 \<and> r = 0x17F) \<or> (x = 107 \<and> r = 0x212A))"

definition EqualFold :: "bytes \<Rightarrow> bytes \<Rightarrow> bool" where
  "EqualFold s word = list_all2 folds_to (runes s) word"

definition ValidateURL :: "golib \<Rightarrow> bytes \<Rightarrow> url_fault + url" where
  "ValidateURL L raw =
     (case url_parse L raw of
        None \<Rightarrow> Inl (BadURL (url_error L raw))
      | Some u \<Rightarrow>
          if u_scheme u \<noteq> ''http'' \<and> u_scheme u \<noteq> ''https'' then Inl ErrBlockedScheme
          else if u_host u = [] then Inl MissingHost
          else if u_port u \<noteq> [] \<and> u_port u \<noteq> ''80'' \<and> u_port u \<noteq> ''443'' then Inl ErrBlockedPort
          else if (case netip_parse L (u_hostname u) of None \<Rightarrow> False | Some a \<Rightarrow> IsBlocked a)
          then Inl ErrBlockedAddress
          else if EqualFold (u_hostname u) ''localhost'' then Inl ErrBlockedAddress
          else Inr u)"

section \<open>The client\<close>

text \<open>
  What DialContext does with an address host:port. net.SplitHostPort gives None on a malformed
  address; the resolver answers with an error or with addresses, an empty answer makes the
  indexing panic. Otherwise the first address is dialled, after all were checked.
\<close>

datatype dialled = DialError bytes | DialPanic | Dialled addr bytes

definition DialContext ::
  "(bytes \<times> bytes) option \<Rightarrow> bytes + addr list \<Rightarrow> dialled" where
  "DialContext host_port answer =
     (case host_port of
        None \<Rightarrow> DialError ''address is malformed''
      | Some (host, port) \<Rightarrow>
          (case answer of
             Inl e \<Rightarrow> DialError (''resolving '' @ host @ '': '' @ e)
           | Inr ips \<Rightarrow>
               if list_ex IsBlocked ips
               then DialError (''destination address is not permitted: '' @ host)
               else (case ips of [] \<Rightarrow> DialPanic | ip # _ \<Rightarrow> Dialled ip port)))"

datatype redirect_error = ErrTooManyHops | BadHop url_fault

text \<open>CheckRedirect: \<open>via\<close> counts the requests made so far.\<close>

definition CheckRedirect :: "golib \<Rightarrow> nat \<Rightarrow> bytes \<Rightarrow> nat \<Rightarrow> redirect_error option" where
  "CheckRedirect L maxRedirects target via =
     (if via \<ge> maxRedirects then Some ErrTooManyHops
      else case ValidateURL L target of Inl e \<Rightarrow> Some (BadHop e) | Inr _ \<Rightarrow> None)"

text \<open>
  http.Client.Do over such a client: dial, send, and follow redirects as long as CheckRedirect
  agrees. The resolver's and the servers' answers are scripts; \<open>reached\<close> collects the requests
  with the addresses they went to. \<open>port_of\<close> is the port of a URL or that of its scheme.
\<close>

datatype reply = Answer int | Redirect bytes | NoReply bytes

record traffic =
  tr_dns :: "(bytes + addr list) list"
  tr_replies :: "reply list"
  tr_reached :: "(bytes \<times> addr) list"

datatype do_result = DoError bytes | DoStatus int

definition port_of :: "url \<Rightarrow> bytes" where
  "port_of u =
     (if u_port u \<noteq> [] then u_port u else if u_scheme u = ''https'' then ''443'' else ''80'')"

definition resolve_next :: "traffic \<Rightarrow> (bytes + addr list) \<times> traffic" where
  "resolve_next t =
     (case tr_dns t of
        [] \<Rightarrow> (Inl ''no such host'', t) | a # rest \<Rightarrow> (a, t\<lparr>tr_dns := rest\<rparr>))"

definition reply_next :: "traffic \<Rightarrow> reply \<times> traffic" where
  "reply_next t =
     (case tr_replies t of
        [] \<Rightarrow> (NoReply ''EOF'', t) | r # rest \<Rightarrow> (r, t\<lparr>tr_replies := rest\<rparr>))"

definition request_one :: "bytes \<Rightarrow> url \<Rightarrow> traffic \<Rightarrow> (bytes + reply) \<times> traffic" where
  "request_one target u t =
     (let (answer, t1) = resolve_next t in
      case DialContext (Some (u_hostname u, port_of u)) answer of
        DialError e \<Rightarrow> (Inl e, t1)
      | DialPanic \<Rightarrow> (Inl ''runtime error: index out of range'', t1)
      | Dialled ip port \<Rightarrow>
          let (r, t2) = reply_next (t1\<lparr>tr_reached := tr_reached t1 @ [(target, ip)]\<rparr>) in (Inr r, t2))"

fun client_do :: "golib \<Rightarrow> nat \<Rightarrow> nat \<Rightarrow> nat \<Rightarrow> bytes \<Rightarrow> traffic \<Rightarrow> do_result \<times> traffic" where
  "client_do L maxRedirects 0 via target t = (DoError ''stopped after too many redirects'', t)"
| "client_do L maxRedirects (Suc fuel) via target t =
     (case url_parse L target of
        None \<Rightarrow> (DoError (url_error L target), t)
      | Some u \<Rightarrow>
          (case request_one target u t of
             (Inl e, t1) \<Rightarrow> (DoError e, t1)
           | (Inr (NoReply e), t1) \<Rightarrow> (DoError e, t1)
           | (Inr (Answer code), t1) \<Rightarrow> (DoStatus code, t1)
           | (Inr (Redirect next), t1) \<Rightarrow>
               (case CheckRedirect L maxRedirects next (Suc via) of
                  Some ErrTooManyHops \<Rightarrow> (DoError ''too many redirects'', t1)
                | Some (BadHop e) \<Rightarrow> (DoError (url_fault_text e), t1)
                | None \<Rightarrow> client_do L maxRedirects fuel (Suc via) next t1)))"

definition guarded_do :: "golib \<Rightarrow> nat \<Rightarrow> bytes \<Rightarrow> traffic \<Rightarrow> do_result \<times> traffic" where
  "guarded_do L maxRedirects target t = client_do L maxRedirects (Suc maxRedirects) 0 target t"

section \<open>Which addresses are blocked\<close>

text \<open>Membership in a block of addresses that share their first \<open>len\<close> bits.\<close>

definition in_block :: "nat \<Rightarrow> nat \<Rightarrow> nat \<Rightarrow> nat \<Rightarrow> bool" where
  "in_block width len base a \<longleftrightarrow> a div 2 ^ (width - len) = base div 2 ^ (width - len)"

definition v4 :: "nat \<Rightarrow> nat \<Rightarrow> nat \<Rightarrow> nat \<Rightarrow> nat" where
  "v4 a b c d = ((a * 256 + b) * 256 + c) * 256 + d"

definition blocked_v4 :: "(nat \<times> nat) list" where
  "blocked_v4 =
     [(v4 0 0 0 0, 8), (v4 10 0 0 0, 8), (v4 100 64 0 0, 10), (v4 127 0 0 0, 8),
      (v4 169 254 0 0, 16), (v4 172 16 0 0, 12), (v4 192 0 0 0, 24), (v4 192 168 0 0, 16),
      (v4 224 0 0 0, 4), (v4 240 0 0 0, 4)]"

definition blocked_v6 :: "(nat \<times> nat) list" where
  "blocked_v6 = [(1, 128), (0xFC * 2 ^ 120, 7), (0xFE80 * 2 ^ 112, 10), (0xFF * 2 ^ 120, 8)]"

lemma u8_less: "unat (b::u8) < 256"
  using unsigned_less [of b] by simp

lemma byte_masks:
  "\<forall>n \<in> set [0..255]. (n AND 0xF0 = (16::int)) = (n div 16 = 1) \<and> (n AND 0xF0 = 0xE0) = (n div 16 = 14)
     \<and> (n AND 0xFE = 0xFC) = (n div 2 = 126) \<and> (n AND 0xC0 = 0x80) = (n div 64 = 2)"
  by code_simp

lemma u8_masks:
  "((b::u8) AND 0xF0 = 16) = (unat b div 16 = 1)" "((b::u8) AND 0xF0 = 0xE0) = (unat b div 16 = 14)"
  "((b::u8) AND 0xFE = 0xFC) = (unat b div 2 = 126)" "((b::u8) AND 0xC0 = 0x80) = (unat b div 64 = 2)"
proof -
  have "uint b \<in> set [0..255]" using unsigned_less [where ?'a = int, of b] unsigned_greater_eq [where ?'a = int, of b] by simp
  note m = byte_masks [rule_format, OF this]
  have e: "(b AND x = y) = (uint b AND uint x = uint y)" for x y :: u8
    by (simp add: word_eq_iff_unsigned [where ?'a = int] uint_and)
  have u: "uint b = int (unat b)" by simp
  have d: "(uint b div int k = int l) = (unat b div k = l)" for k l :: nat
    unfolding u by (metis of_nat_div of_nat_eq_iff)
  show "((b::u8) AND 0xF0 = 16) = (unat b div 16 = 1)" "((b::u8) AND 0xF0 = 0xE0) = (unat b div 16 = 14)"
    "((b::u8) AND 0xFE = 0xFC) = (unat b div 2 = 126)" "((b::u8) AND 0xC0 = 0x80) = (unat b div 64 = 2)"
    using m d [of 16 1] d [of 16 14] d [of 2 126] d [of 64 2] by (simp_all add: e)
qed

lemma u8_num:
  "((b::u8) = numeral n) = (unat b = numeral n mod 256)" "(b = 0) = (unat b = 0)" "(b = 1) = (unat b = 1)"
  "(numeral n \<le> b) = (numeral n mod 256 \<le> unat b)" "(b \<le> numeral n) = (unat b \<le> numeral n mod 256)"
  by (simp_all add: word_unat_eq_iff word_le_nat_alt unsigned_numeral take_bit_eq_mod)

lemma v4_blocks:
  assumes "a < 256" "b < 256" "c < 256" "d < 256"
  shows "v4 a b c d div 2 ^ 24 = a" "v4 a b c d div 2 ^ 22 = a * 4 + b div 64"
    "v4 a b c d div 2 ^ 20 = a * 16 + b div 16" "v4 a b c d div 2 ^ 16 = a * 256 + b"
    "v4 a b c d div 2 ^ 8 = (a * 256 + b) * 256 + c" "v4 a b c d div 2 ^ 28 = a div 16"
  using assms unfolding v4_def by simp_all

lemma base_blocks:
  "v4 0 0 0 0 div 2 ^ 24 = 0" "v4 10 0 0 0 div 2 ^ 24 = 10" "v4 100 64 0 0 div 2 ^ 22 = 401"
  "v4 127 0 0 0 div 2 ^ 24 = 127" "v4 169 254 0 0 div 2 ^ 16 = 43518" "v4 172 16 0 0 div 2 ^ 20 = 2753"
  "v4 192 0 0 0 div 2 ^ 8 = 12582912" "v4 192 168 0 0 div 2 ^ 16 = 49320" "v4 224 0 0 0 div 2 ^ 28 = 14"
  "v4 240 0 0 0 div 2 ^ 28 = 15"
  by (simp_all add: v4_def)

lemma digit_split: "(b::nat) < k \<Longrightarrow> (a * k + b = n) = (a = n div k \<and> b = n mod k)"
  by (metis add.commute div_mult_mod_eq div_mult_self1 div_less mod_less mod_mult_self1 add_0 gr_zeroI less_nat_zero_code)

lemma blocks_decode:
  assumes "(a::nat) < 256" "b < 256" "c < 256"
  shows "(a * 4 + b div 64 = 401) = (a = 100 \<and> 64 \<le> b \<and> b \<le> 127)"
    "(a * 256 + b = 43518) = (a = 169 \<and> b = 254)"
    "(a * 16 + b div 16 = 2753) = (a = 172 \<and> 16 \<le> b \<and> b \<le> 31)"
    "((a * 256 + b) * 256 + c = 12582912) = (a = 192 \<and> b = 0 \<and> c = 0)"
    "(a * 256 + b = 49320) = (a = 192 \<and> b = 168)"
    "(a div 16 = 14 \<or> a div 16 = 15) = (224 \<le> a)"
proof -
  have q: "b div 64 < 4" "b div 16 < 16" "a div 16 < 16" using assms by auto
  have "(b div 64 = 1) = (64 \<le> b \<and> b \<le> 127)" "(b div 16 = 1) = (16 \<le> b \<and> b \<le> 31)" by linarith+
  then show "(a * 4 + b div 64 = 401) = (a = 100 \<and> 64 \<le> b \<and> b \<le> 127)"
    "(a * 16 + b div 16 = 2753) = (a = 172 \<and> 16 \<le> b \<and> b \<le> 31)"
    unfolding digit_split [OF q(1)] digit_split [OF q(2)] by simp_all
  show "(a * 256 + b = 43518) = (a = 169 \<and> b = 254)" "(a * 256 + b = 49320) = (a = 192 \<and> b = 168)"
    "((a * 256 + b) * 256 + c = 12582912) = (a = 192 \<and> b = 0 \<and> c = 0)"
    unfolding digit_split [OF assms(2)] digit_split [OF assms(3)] by simp_all
  show "(a div 16 = 14 \<or> a div 16 = 15) = (224 \<le> a)" using q(3) by linarith
qed

lemma blocked_v4_iff:
  assumes "a < 256" "b < 256" "c < 256" "d < 256"
  shows "(\<exists>(base, len) \<in> set blocked_v4. in_block 32 len base (v4 a b c d)) \<longleftrightarrow>
    a = 0 \<or> a = 10 \<or> (a = 100 \<and> 64 \<le> b \<and> b \<le> 127) \<or> a = 127 \<or> (a = 169 \<and> b = 254)
    \<or> (a = 172 \<and> 16 \<le> b \<and> b \<le> 31) \<or> (a = 192 \<and> b = 0 \<and> c = 0) \<or> (a = 192 \<and> b = 168)
    \<or> 224 \<le> a"
proof -
  have n: "32 - 8 = (24::nat)" "32 - 10 = (22::nat)" "32 - 16 = (16::nat)" "32 - 12 = (20::nat)"
    "32 - 24 = (8::nat)" "32 - 4 = (28::nat)" by simp_all
  have "(\<exists>(base, len) \<in> set blocked_v4. in_block 32 len base (v4 a b c d)) \<longleftrightarrow>
      a = 0 \<or> a = 10 \<or> a * 4 + b div 64 = 401 \<or> a = 127 \<or> a * 256 + b = 43518 \<or> a * 16 + b div 16 = 2753
      \<or> (a * 256 + b) * 256 + c = 12582912 \<or> a * 256 + b = 49320 \<or> a div 16 = 14 \<or> a div 16 = 15"
    unfolding blocked_v4_def in_block_def list.set bex_simps prod.case n v4_blocks [OF assms] base_blocks by blast
  then show ?thesis unfolding blocks_decode [OF assms(1-3)] disj_assoc by blast
qed

lemma octet_0: "unat (octet w 0) = unat w div 2 ^ 120"
proof -
  have "unat w < 2 ^ 128" using unsigned_less [where ?'a = nat, of w] by simp
  then have "unat w div 2 ^ 120 < 2 ^ 8" by (simp add: less_mult_imp_div_less)
  then show ?thesis
    unfolding octet_def unsigned_ucast_eq unat_drop_bit_eq unfolding drop_bit_eq_div take_bit_eq_mod by simp
qed

lemma octet_1: "unat (octet w 1) = unat w div 2 ^ 112 mod 256"
  unfolding octet_def unsigned_ucast_eq unat_drop_bit_eq unfolding drop_bit_eq_div take_bit_eq_mod by simp

lemma div_div_pow: "(n::nat) div 2 ^ (i + j) = n div 2 ^ i div 2 ^ j"
  by (simp add: power_add div_mult2_eq)

lemma blocked_v6_iff:
  "(\<exists>(base, len) \<in> set blocked_v6. in_block 128 len base (unat (w :: 128 word))) \<longleftrightarrow>
     w = 1 \<or> unat (octet w 0) div 2 = 126 \<or> (unat (octet w 0) = 254 \<and> unat (octet w 1) div 64 = 2)
     \<or> unat (octet w 0) = 255"
proof -
  let ?n = "unat w"
  have a: "?n div 2 ^ 121 = unat (octet w 0) div 2" using div_div_pow [of ?n 120 1] by (simp add: octet_0)
  have t: "?n div 2 ^ 120 = ?n div 2 ^ 112 div 256" using div_div_pow [of ?n 112 8] by simp
  then have "?n div 2 ^ 112 = unat (octet w 0) * 256 + unat (octet w 1)"
    unfolding octet_0 octet_1 by (simp only: div_mult_mod_eq)
  then have "?n div 2 ^ 118 = (unat (octet w 0) * 256 + unat (octet w 1)) div 64"
    using div_div_pow [of ?n 112 6] by simp
  also have "\<dots> = unat (octet w 0) * 4 + unat (octet w 1) div 64" by linarith
  finally have b: "?n div 2 ^ 118 = unat (octet w 0) * 4 + unat (octet w 1) div 64" .
  have q: "unat (octet w 1) div 64 < 4" using u8_less [of "octet w 1"] by auto
  have n: "128 - 128 = (0::nat)" "128 - 7 = (121::nat)" "128 - 10 = (118::nat)" "128 - 8 = (120::nat)" by simp_all
  have c: "0xFC * 2 ^ 120 div 2 ^ 121 = (126::nat)" "0xFE80 * 2 ^ 112 div 2 ^ 118 = (1018::nat)"
    "0xFF * 2 ^ 120 div 2 ^ 120 = (255::nat)" by simp_all
  have "(\<exists>(base, len) \<in> set blocked_v6. in_block 128 len base ?n) \<longleftrightarrow>
      ?n = 1 \<or> unat (octet w 0) div 2 = 126 \<or> unat (octet w 0) * 4 + unat (octet w 1) div 64 = 1018
      \<or> unat (octet w 0) = 255"
    unfolding blocked_v6_def in_block_def list.set bex_simps prod.case n a b c octet_0 [symmetric] power_0 div_by_1 by blast
  then show ?thesis unfolding digit_split [OF q] by (simp add: word_unat_eq_iff)
qed

text \<open>
  C18. IsBlocked is membership in a list of address blocks: of the IPv4 addresses, also in their
  IPv6-mapped form, the blocks 0/8, 10/8, 100.64/10, 127/8, 169.254/16, 172.16/12, 192.0.0/24,
  192.168/16, 224/4 and 240/4; of the other IPv6 addresses ::1, fc00::/7, fe80::/10, ff00::/8 and
  the unspecified address without a zone. Every other valid address may be dialled.
\<close>

theorem IsBlocked_iff:
  "IsBlocked x \<longleftrightarrow>
     (case Unmap x of
        NoAddr \<Rightarrow> True
      | Addr4 a b c d \<Rightarrow>
          \<exists>(base, len) \<in> set blocked_v4. in_block 32 len base (v4 (unat a) (unat b) (unat c) (unat d))
      | Addr6 w zone \<Rightarrow>
          w = 0 \<and> zone = [] \<or> (\<exists>(base, len) \<in> set blocked_v6. in_block 128 len base (unat w)))"
proof (cases "Unmap x")
  case NoAddr
  then have "x = NoAddr" by (auto simp: Unmap_def split: addr.splits if_splits)
  with NoAddr show ?thesis by (simp add: IsBlocked_def IsValid_def)
next
  case (Addr4 a b c d)
  have l: "unat a < 256" "unat b < 256" "unat c < 256" "unat d < 256" by (rule u8_less)+
  have v: "IsValid x" using Addr4 by (auto simp: IsValid_def Unmap_def)
  have m: "(unat b div 16 = 1) = (16 \<le> unat b \<and> unat b \<le> 31)" "(unat a div 16 = 14) = (224 \<le> unat a \<and> unat a \<le> 239)"
    by linarith+
  have "IsBlocked x \<longleftrightarrow> unat a = 0 \<or> unat a = 10 \<or> (unat a = 100 \<and> 64 \<le> unat b \<and> unat b \<le> 127) \<or> unat a = 127
      \<or> (unat a = 169 \<and> unat b = 254) \<or> (unat a = 172 \<and> 16 \<le> unat b \<and> unat b \<le> 31)
      \<or> (unat a = 192 \<and> unat b = 0 \<and> unat c = 0) \<or> (unat a = 192 \<and> unat b = 168) \<or> 224 \<le> unat a"
    using v unfolding IsBlocked_def Addr4 Let_def IsLoopback_def IsPrivate_def IsLinkLocalUnicast_def
      IsLinkLocalMulticast_def IsInterfaceLocalMulticast_def IsMulticast_def IsUnspecified_def addr.case u8_masks m
    by (simp add: u8_num)
  then show ?thesis unfolding Addr4 addr.case blocked_v4_iff [OF l] .
next
  case (Addr6 w zone)
  have v: "IsValid x" using Addr6 by (auto simp: IsValid_def Unmap_def)
  have f: "(unat (octet w 0) = 252 \<or> unat (octet w 0) = 253) = (unat (octet w 0) div 2 = 126)" by linarith
  have "IsBlocked x \<longleftrightarrow> w = 0 \<and> zone = [] \<or> w = 1 \<or> unat (octet w 0) div 2 = 126
      \<or> (unat (octet w 0) = 254 \<and> unat (octet w 1) div 64 = 2) \<or> unat (octet w 0) = 255"
    using v f unfolding IsBlocked_def Addr6 Let_def IsLoopback_def IsPrivate_def IsLinkLocalUnicast_def
      IsLinkLocalMulticast_def IsInterfaceLocalMulticast_def IsMulticast_def IsUnspecified_def addr.case u8_masks
    by (auto simp: u8_num)
  then show ?thesis unfolding Addr6 addr.case blocked_v6_iff by blast
qed

text \<open>What the list leaves out: an unspecified address with a zone, and addresses that embed a blocked one.\<close>

lemma IsBlocked_gaps:
  "\<not> IsBlocked (Addr6 0 ''eth0'')"
  "\<not> IsBlocked (Addr6 (0x64FF9B * 2 ^ 96 + 0xA9FEA9FE) [])"
  by code_simp+

section \<open>What the client reaches\<close>

lemma request_one_reached:
  assumes "request_one target u t = (r, t')"
  shows "(isl r \<and> tr_reached t' = tr_reached t)
    \<or> (\<exists>ip. tr_reached t' = tr_reached t @ [(target, ip)] \<and> \<not> IsBlocked ip)"
  using assms
  by (auto simp: request_one_def resolve_next_def reply_next_def DialContext_def Let_def list_ex_iff
      split: list.splits sum.splits if_splits prod.splits)

lemma client_do_reached:
  assumes "client_do L maxR fuel via target t = (r, t')" "ValidateURL L target = Inr u"
  shows "\<exists>new. tr_reached t' = tr_reached t @ new \<and> length new \<le> max 1 (maxR - via)
    \<and> (\<forall>(url, ip) \<in> set new. \<not> IsBlocked ip \<and> (\<exists>v. ValidateURL L url = Inr v))"
  using assms
proof (induction L maxR fuel via target t arbitrary: u r t' rule: client_do.induct)
  case (1 L maxR via target t)
  then show ?case by auto
next
  case (2 L maxR fuel via target t)
  show ?case
  proof (cases "url_parse L target")
    case None
    with 2(2) show ?thesis by auto
  next
    case (Some v)
    obtain x t1 where one: "request_one target v t = (x, t1)" by fastforce
    note reached = request_one_reached [OF one]
    let ?P = "\<lambda>s'. \<exists>new. tr_reached s' = tr_reached t @ new \<and> length new \<le> max 1 (maxR - via)
        \<and> (\<forall>(url, ip) \<in> set new. \<not> IsBlocked ip \<and> (\<exists>v. ValidateURL L url = Inr v))"
    have stop: "?P t1" using reached 2(3) by fastforce
    show ?thesis
    proof (cases "\<exists>next'. x = Inr (Redirect next') \<and> CheckRedirect L maxR next' (Suc via) = None")
      case False
      with 2(2) Some one have "t' = t1"
        by (auto split: sum.splits reply.splits option.splits redirect_error.splits)
      with stop show ?thesis by simp
    next
      case True
      then obtain next' where x: "x = Inr (Redirect next')" and c: "CheckRedirect L maxR next' (Suc via) = None"
        by blast
      from c obtain v' where lt: "Suc via < maxR" and v': "ValidateURL L next' = Inr v'"
        by (auto simp: CheckRedirect_def split: if_splits sum.splits)
      have rec: "client_do L maxR fuel (Suc via) next' t1 = (r, t')" using 2(2) Some one x c by simp
      from 2(1) [OF Some one [symmetric] x refl c rec v'] obtain new where
        new: "tr_reached t' = tr_reached t1 @ new" "length new \<le> max 1 (maxR - Suc via)"
          "\<forall>(url, ip) \<in> set new. \<not> IsBlocked ip \<and> (\<exists>v. ValidateURL L url = Inr v)" by blast
      from reached x obtain ip where "tr_reached t1 = tr_reached t @ [(target, ip)]" "\<not> IsBlocked ip" by auto
      with new lt 2(3) show ?thesis by (intro exI [of _ "(target, ip) # new"]) auto
    qed
  qed
qed

text \<open>The fuel of \<open>guarded_do\<close> is never used up: one more gives the same.\<close>

lemma client_do_fuel:
  "maxR - via < fuel \<Longrightarrow> client_do L maxR (Suc fuel) via target t = client_do L maxR fuel via target t"
proof (induction L maxR fuel via target t rule: client_do.induct)
  case (2 L maxR fuel via target t)
  have "client_do L maxR (Suc fuel) (Suc via) next' t1 = client_do L maxR fuel (Suc via) next' t1"
    if "url_parse L target = Some u" "request_one target u t = (Inr (Redirect next'), t1)"
      "CheckRedirect L maxR next' (Suc via) = None" for u next' t1
  proof -
    have "maxR - Suc via < fuel" using that(3) 2(2) by (auto simp: CheckRedirect_def split: if_splits)
    with 2(1) [OF that(1) that(2) [symmetric] refl refl that(3)] show ?thesis by simp
  qed
  then show ?case
    unfolding client_do.simps(2) [of L maxR "Suc fuel" via target t] client_do.simps(2) [of L maxR fuel via target t]
    by (auto split: option.splits prod.splits sum.splits reply.splits redirect_error.splits)
qed simp

text \<open>
  C17. A request to a checked URL, with all its redirects, only ever connects to addresses that
  are not blocked, whatever the resolver answers to each lookup and wherever the servers redirect
  to; every URL requested passed the same check, and at most three requests are made when three
  is the limit.
\<close>

theorem guarded_do_safe:
  assumes "ValidateURL L target = Inr u" "guarded_do L maxR target t = (r, t')"
  shows "\<exists>new. tr_reached t' = tr_reached t @ new \<and> length new \<le> max 1 maxR
     \<and> (\<forall>(url, ip) \<in> set new. \<not> IsBlocked ip \<and> (\<exists>v. ValidateURL L url = Inr v))
     \<and> (\<forall>fuel \<ge> Suc maxR. client_do L maxR fuel 0 target t = (r, t'))"
proof -
  have "client_do L maxR fuel 0 target t = (r, t')" if "Suc maxR \<le> fuel" for fuel
    using that
  proof (induction fuel rule: dec_induct)
    case base
    then show ?case using assms(2) by (simp add: guarded_do_def)
  next
    case (step n)
    then show ?case using client_do_fuel [of maxR 0 n L target t] by simp
  qed
  with client_do_reached [OF assms(2) [unfolded guarded_do_def] assms(1)] show ?thesis by auto
qed

definition sample_traffic :: traffic where
  "sample_traffic =
     \<lparr>tr_dns = [Inr [Addr4 93 184 216 34], Inr [Addr4 93 184 216 34, Addr4 169 254 169 254]],
      tr_replies = [Redirect ''http://b.test/x'', Answer 200], tr_reached = []\<rparr>"

lemma guarded_do_safe_witness:
  "guarded_do sample_lib 3 ''http://a.test/'' sample_traffic
     = (DoError ''destination address is not permitted: b.test'',
        \<lparr>tr_dns = [], tr_replies = [Answer 200], tr_reached = [(''http://a.test/'', Addr4 93 184 216 34)]\<rparr>)
   \<and> fst (client_do sample_lib 3 5 0 ''http://a.test/'' sample_traffic)
        = DoError ''destination address is not permitted: b.test''"
proof -
  have v: "\<exists>u. ValidateURL sample_lib ''http://a.test/'' = Inr u"
    by (simp add: ValidateURL_def sample_lib_def sample_url_def Cut_def HasPrefix_def EqualFold_def
        folds_to_def ascii_lower_def)
  have d: "guarded_do sample_lib 3 ''http://a.test/'' sample_traffic
     = (DoError ''destination address is not permitted: b.test'',
        \<lparr>tr_dns = [], tr_replies = [Answer 200], tr_reached = [(''http://a.test/'', Addr4 93 184 216 34)]\<rparr>)"
    by code_simp
  from v guarded_do_safe [OF _ d] d show ?thesis by auto
qed

end
