(* ===== verification/Webhook.thy ===== *)
theory Webhook
  imports Netguard Encoding
begin

text \<open>
  Package webhook, internal/webhook/sign.go and sender.go: the signature every event carries and
  the request that delivers it.
\<close>

section \<open>Signatures\<close>

definition ReplayWindow :: duration where "ReplayWindow = 5 * Minute"
definition keyID :: bytes where "keyID = ''aiemail''"

definition quoted :: "bytes \<Rightarrow> bytes" where "quoted s = [CHR 0x22] @ s @ [CHR 0x22]"

definition ContentDigest :: "golib \<Rightarrow> bytes \<Rightarrow> bytes" where
  "ContentDigest L body = ''sha-256=:'' @ Std_encode (sha256 L body) @ '':''"

definition NormalizeTarget :: "golib \<Rightarrow> bytes \<Rightarrow> bytes" where
  "NormalizeTarget L targetURI =
     (case url_parse L targetURI of
        None \<Rightarrow> targetURI
      | Some u \<Rightarrow> url_string L targetURI (if u_path u = [] then u\<lparr>u_path := ''/''\<rparr> else u))"

definition signatureParams :: "int \<Rightarrow> bytes" where
  "signatureParams created =
     ''('' @ quoted ''@method'' @ '' '' @ quoted ''@target-uri'' @ '' '' @ quoted ''content-digest''
     @ '');created='' @ itoa created @ '';keyid='' @ quoted keyID @ '';alg='' @ quoted ''hmac-sha256''"

definition SignatureBase :: "golib \<Rightarrow> bytes \<Rightarrow> bytes \<Rightarrow> bytes \<Rightarrow> int \<Rightarrow> bytes" where
  "SignatureBase L method targetURI digest created =
     quoted ''@method'' @ '': '' @ ToUpper L method @ [CHR 0x0A]
     @ quoted ''@target-uri'' @ '': '' @ NormalizeTarget L targetURI @ [CHR 0x0A]
     @ quoted ''content-digest'' @ '': '' @ digest @ [CHR 0x0A]
     @ quoted ''@signature-params'' @ '': '' @ signatureParams created"

record signature_headers =
  sh_digest :: bytes
  sh_input :: bytes
  sh_signature :: bytes

text \<open>Sign: the three headers it sets on a request with a method and a URL.\<close>

definition webhook_Sign ::
  "golib \<Rightarrow> bytes \<Rightarrow> bytes \<Rightarrow> bytes \<Rightarrow> bytes \<Rightarrow> instant \<Rightarrow> signature_headers" where
  "webhook_Sign L method target body secret created =
     (let digest = ContentDigest L body;
          unix = unix_seconds created;
          base = SignatureBase L method target digest unix;
          sig = Std_encode (hmac_sha256 L secret base) in
      \<lparr>sh_digest = digest, sh_input = ''sig1='' @ signatureParams unix,
       sh_signature = ''sig1=:'' @ sig @ '':''\<rparr>)"

text \<open>
  fmt.Sscanf with the verb d into an int64: blanks are skipped, but a line feed ends the scan; a
  sign and digits are read and must fit; what follows is ignored.
\<close>

fun skip_space :: "bytes \<Rightarrow> bytes option" where
  "skip_space [] = Some []"
| "skip_space (c # s) =
     (if c = CHR 0x0A then None
      else if space_width (c # s) = 0 then Some (c # s)
      else skip_space (drop (space_width (c # s) - 1) s))"

definition scan_int64 :: "bytes \<Rightarrow> int option" where
  "scan_int64 s =
     (case skip_space s of
        None \<Rightarrow> None
      | Some r \<Rightarrow>
          let (sign, ds) = (case r of
                              [] \<Rightarrow> ([], [])
                            | c # r' \<Rightarrow> if c = CHR ''-'' \<or> c = CHR ''+'' then ([c], takeWhile isDigit r')
                                       else ([], takeWhile isDigit r)) in
          if ds = [] then None else ParseInt64 (sign @ ds))"

datatype verify_error = NoCreated | UnreadableCreated | OutsideReplayWindow | BadBase64 | SignatureMismatch

definition createdFrom :: "bytes \<Rightarrow> verify_error + int" where
  "createdFrom signatureInput =
     (let marker = ''created='' in
      case Index signatureInput marker of
        None \<Rightarrow> Inl NoCreated
      | Some i \<Rightarrow>
          let rest0 = drop (i + length marker) signatureInput;
              rest = (case IndexAny rest0 '';,'' of None \<Rightarrow> rest0 | Some end' \<Rightarrow> take end' rest0) in
          (case scan_int64 rest of None \<Rightarrow> Inl UnreadableCreated | Some created \<Rightarrow> Inr created))"

text \<open>strings.Trim with a cutset of one byte.\<close>

definition TrimByte :: "bytes \<Rightarrow> char \<Rightarrow> bytes" where
  "TrimByte s c = rev (dropWhile ((=) c) (rev (dropWhile ((=) c) s)))"

definition webhook_Verify ::
  "golib \<Rightarrow> bytes \<Rightarrow> bytes \<Rightarrow> bytes \<Rightarrow> bytes \<Rightarrow> bytes \<Rightarrow> bytes \<Rightarrow> instant \<Rightarrow> verify_error option" where
  "webhook_Verify L method targetURI body secret signatureInput signature now =
     (case createdFrom signatureInput of
        Inl e \<Rightarrow> Some e
      | Inr created \<Rightarrow>
          let age = now - from_unix created in
          if age > ReplayWindow \<or> age < - ReplayWindow then Some OutsideReplayWindow
          else
            let digest = ContentDigest L body;
                base = SignatureBase L method targetURI digest created;
                want = hmac_sha256 L secret base in
            (case Std_decode (TrimByte (TrimPrefix signature ''sig1='') (CHR '':'')) of
               None \<Rightarrow> Some BadBase64
             | Some got \<Rightarrow> if want \<noteq> got then Some SignatureMismatch else None))"

section \<open>Sending\<close>

datatype outcome = HookDelivered | Retry | Drop

record send_result =
  sr_outcome :: outcome
  sr_reason :: bytes

text \<open>http.NewRequest drops an empty port from the host.\<close>

definition removeEmptyPort :: "bytes \<Rightarrow> bytes" where
  "removeEmptyPort host =
     (case (LastIndexByte host (CHR '':''), LastIndexByte host (CHR '']'')) of
        (None, _) \<Rightarrow> host
      | (Some i, None) \<Rightarrow> TrimSuffix host '':''
      | (Some i, Some j) \<Rightarrow> if i > j then TrimSuffix host '':'' else host)"

definition status_result :: "int \<Rightarrow> send_result" where
  "status_result code =
     (if 200 \<le> code \<and> code < 300 then \<lparr>sr_outcome = HookDelivered, sr_reason = []\<rparr>
      else if code = 429 \<or> code \<ge> 500 then
        \<lparr>sr_outcome = Retry, sr_reason = ''endpoint returned '' @ itoa code\<rparr>
      else if code = 410 then \<lparr>sr_outcome = Drop, sr_reason = ''endpoint reported it is gone''\<rparr>
      else \<lparr>sr_outcome = Retry, sr_reason = ''endpoint returned '' @ itoa code\<rparr>)"

text \<open>
  Sender.Send with the client of NewSender, which follows redirects up to three requests. The
  signature headers the request carried are part of the result; \<open>now\<close> is time.Now().
\<close>

definition hook_request :: "golib \<Rightarrow> bytes \<Rightarrow> url \<Rightarrow> bytes \<Rightarrow> bytes \<Rightarrow> instant \<Rightarrow> signature_headers" where
  "hook_request L target u secret payload now =
     webhook_Sign L ''POST'' (url_string L target (u\<lparr>u_host := removeEmptyPort (u_host u)\<rparr>)) payload secret now"

definition sender_Send ::
  "golib \<Rightarrow> instant \<Rightarrow> bytes \<Rightarrow> bytes \<Rightarrow> bytes \<Rightarrow> traffic \<Rightarrow> send_result \<times> signature_headers option \<times> traffic" where
  "sender_Send L now target secret payload t =
     (case ValidateURL L target of
        Inl e \<Rightarrow> (\<lparr>sr_outcome = Drop, sr_reason = url_fault_text e\<rparr>, None, t)
      | Inr u \<Rightarrow>
          (case guarded_do L 3 target t of
             (DoError e, t') \<Rightarrow>
               (\<lparr>sr_outcome = Retry, sr_reason = ''request failed: '' @ e\<rparr>, Some (hook_request L target u secret payload now), t')
           | (DoStatus code, t') \<Rightarrow> (status_result code, Some (hook_request L target u secret payload now), t')))"

section \<open>Properties\<close>

lemma skip_space_digit: "isDigit c \<or> c = CHR ''-'' \<Longrightarrow> skip_space (c # s) = Some (c # s)"
proof -
  assume a: "isDigit c \<or> c = CHR ''-''"
  then have "visible c" by (auto simp: isDigit_def visible_def)
  then have "space_width (c # s) = 0" by (rule space_width_visible)
  moreover have "c \<noteq> CHR 0x0A" using a by (auto simp: isDigit_def)
  ultimately show ?thesis by (simp del: space_width.simps)
qed

lemma scan_int64_itoa:
  assumes "- (2 ^ 63) \<le> i" "i < 2 ^ 63"
  shows "scan_int64 (itoa i) = Some i"
proof -
  have tw: "takeWhile isDigit (itoa_nat n) = itoa_nat n" for n
    using itoa_nat_digits [of n] by (simp add: list_all_iff takeWhile_eq_all_conv)
  obtain c r where cr: "itoa_nat (nat i) = c # r" using itoa_nat_not_Nil by (metis list.exhaust)
  have c: "isDigit c" using itoa_nat_digits [of "nat i"] by (simp add: cr)
  show ?thesis
  proof (cases "i < 0")
    case True
    then have i: "itoa i = CHR ''-'' # itoa_nat (nat (- i))" by (simp add: itoa_def)
    have "skip_space (itoa i) = Some (itoa i)" unfolding i by (rule skip_space_digit) simp
    then show ?thesis using ParseInt64_itoa [OF assms] unfolding scan_int64_def by (simp add: i tw)
  next
    case False
    then have i: "itoa i = c # r" by (simp add: itoa_def cr)
    have "skip_space (itoa i) = Some (itoa i)" unfolding i using c by (intro skip_space_digit) simp
    moreover have "takeWhile isDigit (c # r) = c # r" using tw [of "nat i"] by (simp only: cr)
    ultimately show ?thesis
      using ParseInt64_itoa [OF assms] digit_not_sign [OF c] unfolding scan_int64_def by (simp add: i)
  qed
qed

lemma IndexAny_append: "set s \<inter> set cs = {} \<Longrightarrow> c \<in> set cs \<Longrightarrow> IndexAny (s @ c # r) cs = Some (length s)"
  by (induction s) auto

lemma itoa_chars: "c \<in> set (itoa i) \<Longrightarrow> isDigit c \<or> c = CHR ''-''"
  using itoa_nat_digits by (auto simp: itoa_def list_all_iff split: if_splits)

lemma createdFrom_params:
  assumes "- (2 ^ 63) \<le> i" "i < 2 ^ 63"
  shows "createdFrom (''sig1='' @ signatureParams i) = Inr i"
proof -
  let ?pre = "''sig1=('' @ quoted ''@method'' @ '' '' @ quoted ''@target-uri'' @ '' '' @ quoted ''content-digest'' @ '');''"
  let ?post = "''keyid='' @ quoted keyID @ '';alg='' @ quoted ''hmac-sha256''"
  let ?rest = "itoa i @ CHR '';'' # ?post"
  have e: "''sig1='' @ signatureParams i = ?pre @ ''created='' @ ?rest"
    by (simp add: signatureParams_def)
  have ix: "Index (?pre @ ''created='' @ r) ''created='' = Some (length ?pre)" for r
    by (simp add: quoted_def HasPrefix_def)
  have "CHR '';'' \<notin> set (itoa i)" "CHR '','' \<notin> set (itoa i)"
    using itoa_chars [of "CHR '';''" i] itoa_chars [of "CHR '',''" i] by (auto simp: isDigit_def)
  then have "set (itoa i) \<inter> set '';,'' = {}" by simp
  then have "IndexAny ?rest '';,'' = Some (length (itoa i))" by (intro IndexAny_append) simp_all
  moreover have "drop (length p + length m) (p @ m @ r) = r" for p m r :: bytes by simp
  moreover have "take (length a) (a @ r) = a" for a r :: bytes by simp
  ultimately show ?thesis
    unfolding createdFrom_def Let_def e ix option.case using scan_int64_itoa [OF assms]
    by (simp only: option.case)
qed

lemma dropWhile_none: "c \<notin> set s \<Longrightarrow> dropWhile ((=) c) s = s"
  by (cases s) auto

lemma TrimByte_wrapped:
  assumes "c \<notin> set s" shows "TrimByte (c # s @ [c]) c = s"
proof (cases s rule: rev_cases)
  case Nil
  then show ?thesis by (simp add: TrimByte_def)
next
  case (snoc t x)
  with assms have "dropWhile ((=) c) (s @ [c]) = s @ [c]" "dropWhile ((=) c) (rev s) = rev s"
    by (cases t; auto)+
  then show ?thesis by (simp add: TrimByte_def)
qed

lemma signature_decodes:
  "Std_decode (TrimByte (TrimPrefix (''sig1=:'' @ Std_encode m @ '':'') ''sig1='') (CHR '':'')) = Some m"
proof -
  have "CHR '':'' \<notin> set (Std_encode m)" using std.enc_symbols [of m] by auto
  then have "TrimByte (CHR '':'' # Std_encode m @ '':'') (CHR '':'') = Std_encode m" by (rule TrimByte_wrapped)
  moreover have "TrimPrefix (''sig1=:'' @ Std_encode m @ '':'') ''sig1='' = CHR '':'' # Std_encode m @ '':''"
    by (simp add: TrimPrefix_def HasPrefix_def)
  ultimately show ?thesis by (simp add: std.dec_enc)
qed

text \<open>
  C20. A receiver that checks a delivery with Verify accepts what Sign put on it exactly as long
  as the creation time, in whole seconds, is at most five minutes away from its clock, early or
  late; outside that window the signature is refused as a replay. This holds for every hash.
\<close>

theorem webhook_roundtrip:
  assumes "- (2 ^ 63) \<le> unix_seconds created" "unix_seconds created < 2 ^ 63"
  shows "webhook_Verify L method target body secret
      (sh_input (webhook_Sign L method target body secret created))
      (sh_signature (webhook_Sign L method target body secret created)) now
    = (if \<bar>now - from_unix (unix_seconds created)\<bar> \<le> ReplayWindow then None else Some OutsideReplayWindow)"
  using createdFrom_params [OF assms]
  by (auto simp: webhook_Verify_def webhook_Sign_def Let_def signature_decodes simp del: append.simps)

lemma webhook_roundtrip_witness:
  "webhook_Verify sample_lib ''POST'' ''http://a.test/'' ''{}'' ''k''
     (sh_input (webhook_Sign sample_lib ''POST'' ''http://a.test/'' ''{}'' ''k'' 0))
     (sh_signature (webhook_Sign sample_lib ''POST'' ''http://a.test/'' ''{}'' ''k'' 0)) Minute = None"
proof -
  have "- (2 ^ 63) \<le> unix_seconds 0" "unix_seconds 0 < 2 ^ 63" by (simp_all add: unix_seconds_def)
  from webhook_roundtrip [OF this, of sample_lib "''POST''" "''http://a.test/''" "''{}''" "''k''" Minute]
  show ?thesis by (simp add: from_unix_def unix_seconds_def ReplayWindow_def)
qed

text \<open>The signed text determines its parts when none of them holds a line feed.\<close>

lemma split_line:
  assumes "n \<notin> set a" "n \<notin> set a'" "a @ n # r = a' @ n # r'"
  shows "a = a' \<and> r = r'"
  using assms by (induction a arbitrary: a') (auto simp: Cons_eq_append_conv)

lemma digest_no_break: "CHR 0x0A \<notin> set (ContentDigest L body)"
  using std.enc_symbols [of "sha256 L body"] alphabets(1) by (auto simp: ContentDigest_def alphabet64_def)

lemma SignatureBase_inj:
  assumes "CHR 0x0A \<notin> set (ToUpper L m)" "CHR 0x0A \<notin> set (ToUpper L m')"
    and "CHR 0x0A \<notin> set (NormalizeTarget L t)" "CHR 0x0A \<notin> set (NormalizeTarget L t')"
    and e: "SignatureBase L m t (ContentDigest L b) i = SignatureBase L m' t' (ContentDigest L b') i'"
  shows "ToUpper L m = ToUpper L m' \<and> NormalizeTarget L t = NormalizeTarget L t' \<and> sha256 L b = sha256 L b'
    \<and> signatureParams i = signatureParams i'"
proof -
  let ?r2 = "\<lambda>b i. quoted ''content-digest'' @ '': '' @ ContentDigest L b @ [CHR 0x0A]
      @ quoted ''@signature-params'' @ '': '' @ signatureParams i"
  let ?r1 = "\<lambda>t b i. quoted ''@target-uri'' @ '': '' @ NormalizeTarget L t @ [CHR 0x0A] @ ?r2 b i"
  have "ToUpper L m @ CHR 0x0A # ?r1 t b i = ToUpper L m' @ CHR 0x0A # ?r1 t' b' i'"
    using e unfolding SignatureBase_def by simp
  from split_line [OF assms(1,2) this] have m: "ToUpper L m = ToUpper L m'" and r1: "?r1 t b i = ?r1 t' b' i'"
    by blast+
  from r1 have "NormalizeTarget L t @ CHR 0x0A # ?r2 b i = NormalizeTarget L t' @ CHR 0x0A # ?r2 b' i'" by simp
  from split_line [OF assms(3,4) this] have t: "NormalizeTarget L t = NormalizeTarget L t'" and r2: "?r2 b i = ?r2 b' i'"
    by blast+
  let ?r3 = "\<lambda>i. quoted ''@signature-params'' @ '': '' @ signatureParams i"
  from r2 have "ContentDigest L b @ CHR 0x0A # ?r3 i = ContentDigest L b' @ CHR 0x0A # ?r3 i'" by simp
  from split_line [OF digest_no_break digest_no_break this]
  have d: "ContentDigest L b = ContentDigest L b'" and r3: "?r3 i = ?r3 i'" by blast+
  from d have "sha256 L b = sha256 L b'" by (auto simp: ContentDigest_def dest: std.enc_inj)
  with m t r3 show ?thesis by simp
qed



text \<open>
  Send drops an event for good exactly when its URL is not allowed or the endpoint answers
  410 Gone, counts it as delivered exactly on a 2xx answer, and retries on everything else;
  nothing it connects to is a blocked address.
\<close>

theorem sender_Send_outcome:
  assumes "sender_Send L now target secret payload t = (r, h, t')"
  shows "(sr_outcome r = Drop \<longleftrightarrow>
           isl (ValidateURL L target) \<or> fst (guarded_do L 3 target t) = DoStatus 410)
     \<and> (sr_outcome r = HookDelivered \<longleftrightarrow>
           \<not> isl (ValidateURL L target)
           \<and> (\<exists>code. fst (guarded_do L 3 target t) = DoStatus code \<and> 200 \<le> code \<and> code < 300))
     \<and> (\<exists>new. tr_reached t' = tr_reached t @ new \<and> (\<forall>(url, ip) \<in> set new. \<not> IsBlocked ip))"
proof (cases "ValidateURL L target")
  case (Inl e)
  with assms show ?thesis by (auto simp: sender_Send_def)
next
  case (Inr u)
  obtain d t1 where g: "guarded_do L 3 target t = (d, t1)" by fastforce
  from client_do_reached [OF g [unfolded guarded_do_def] Inr] obtain new where
    "tr_reached t1 = tr_reached t @ new" "\<forall>(url, ip) \<in> set new. \<not> IsBlocked ip" by fast
  moreover have "t' = t1" using assms Inr g by (auto simp: sender_Send_def split: do_result.splits)
  moreover have "(sr_outcome r = Drop \<longleftrightarrow> d = DoStatus 410)
      \<and> (sr_outcome r = HookDelivered \<longleftrightarrow> (\<exists>code. d = DoStatus code \<and> 200 \<le> code \<and> code < 300))"
    using assms Inr g by (auto simp: sender_Send_def status_result_def split: do_result.splits if_splits)
  ultimately show ?thesis using Inr g by auto
qed

end
