(* ===== verification/Dispatcher.thy ===== *)
theory Dispatcher
  imports Worker Webhook
begin

text \<open>
  Package worker, internal/worker/webhooks.go, first half: the loop that drains the queued webhook
  deliveries. As in the delivery loop the collaborators are records of operations on a common
  state; the last sections put the store and the sender in.
\<close>

section \<open>Model\<close>

definition webhookBatch :: nat where "webhookBatch = 20"
definition webhookLock :: duration where "webhookLock = 2 * Minute"
definition MaxWebhookTries :: int where "MaxWebhookTries = 8"

record 's webhook_queue =
  hq_claim :: "nat \<Rightarrow> duration \<Rightarrow> 's \<Rightarrow> (go_error + pending_delivery list) \<times> 's"
  hq_succeeded :: "int \<Rightarrow> 's \<Rightarrow> (go_error + unit) \<times> 's"
  hq_again :: "int \<Rightarrow> instant \<Rightarrow> bytes \<Rightarrow> 's \<Rightarrow> (go_error + unit) \<times> 's"
  hq_failed :: "int \<Rightarrow> bytes \<Rightarrow> 's \<Rightarrow> (go_error + unit) \<times> 's"

record 's dispatcher =
  di_queue :: "'s webhook_queue"
  di_send :: "bytes \<Rightarrow> bytes \<Rightarrow> bytes \<Rightarrow> 's \<Rightarrow> send_result \<times> 's"
  di_now :: "'s \<Rightarrow> instant"

definition dispatch :: "'s dispatcher \<Rightarrow> pending_delivery \<Rightarrow> 's \<Rightarrow> 's" where
  "dispatch d item s =
     (case di_send d (pd_url item) (pd_secret item) (pd_payload item) s of
        (result, s1) \<Rightarrow>
          (case sr_outcome result of
             HookDelivered \<Rightarrow> snd (hq_succeeded (di_queue d) (pd_id item) s1)
           | Drop \<Rightarrow> snd (hq_failed (di_queue d) (pd_id item) (sr_reason result) s1)
           | Retry \<Rightarrow>
               if pd_attempts item \<ge> MaxWebhookTries then
                 snd (hq_failed (di_queue d) (pd_id item) (''gave up: '' @ sr_reason result) s1)
               else
                 snd (hq_again (di_queue d) (pd_id item) (di_now d s1 + Backoff (pd_attempts item))
                        (sr_reason result) s1)))"

definition dispatcher_tick :: "'s dispatcher \<Rightarrow> 's \<Rightarrow> (go_error + nat) \<times> 's" where
  "dispatcher_tick d s =
     (case hq_claim (di_queue d) webhookBatch webhookLock s of
        (Inl e, s1) \<Rightarrow> (Inl e, s1)
      | (Inr claimed, s1) \<Rightarrow> (Inr (length claimed), fold (dispatch d) claimed s1))"

text \<open>The dispatcher of runWorker: over the store, with the sender and the clock of the process.\<close>

record hook_world =
  hw_store :: store
  hw_traffic :: traffic
  hw_clock :: instant

definition in_store :: "(store \<Rightarrow> 'a \<times> store) \<Rightarrow> hook_world \<Rightarrow> 'a \<times> hook_world" where
  "in_store f w = (case f (hw_store w) of (r, s) \<Rightarrow> (r, w\<lparr>hw_store := s\<rparr>))"

definition store_dispatcher :: "golib \<Rightarrow> hook_world dispatcher" where
  "store_dispatcher L =
     \<lparr>di_queue =
        \<lparr>hq_claim = (\<lambda>limit lockFor. in_store (ClaimDeliveries limit lockFor)),
         hq_succeeded = (\<lambda>i. in_store (MarkDeliverySucceeded i)),
         hq_again = (\<lambda>i at' reason. in_store (RescheduleDelivery i at' reason)),
         hq_failed = (\<lambda>i reason. in_store (MarkDeliveryFailed i reason))\<rparr>,
      di_send = (\<lambda>url secret payload w.
        case sender_Send L (hw_clock w) url secret payload (hw_traffic w) of
          (r, _, t) \<Rightarrow> (r, w\<lparr>hw_traffic := t\<rparr>)),
      di_now = hw_clock\<rparr>"

section \<open>The life of a delivery\<close>

type_synonym hrow = "delivery_status \<times> int"

text \<open>A delivery waits, is taken with one more attempt, and then is done, given up or put back.\<close>

inductive hstep :: "(int \<Rightarrow> hrow option) \<Rightarrow> (int \<Rightarrow> hrow option) \<Rightarrow> bool" where
  arrive: "f i = None \<Longrightarrow> hstep f (f(i \<mapsto> (DPending, 0)))"
| take: "f i = Some (DPending, n) \<Longrightarrow> hstep f (f(i \<mapsto> (DDelivering, n + 1)))"
| succeed: "f i = Some (DDelivering, n) \<Longrightarrow> hstep f (f(i \<mapsto> (DDelivered, n)))"
| give_up: "f i = Some (DDelivering, n) \<Longrightarrow> hstep f (f(i \<mapsto> (DFailed, n)))"
| put_back: "f i = Some (DDelivering, n) \<Longrightarrow> n < MaxWebhookTries \<Longrightarrow> hstep f (f(i \<mapsto> (DPending, n)))"

definition hrow_ok :: "hrow \<Rightarrow> bool" where
  "hrow_ok r \<longleftrightarrow>
     (case r of (st, n) \<Rightarrow>
        (st = DPending \<and> 0 \<le> n \<and> n < MaxWebhookTries) \<or> (st \<noteq> DPending \<and> 1 \<le> n \<and> n \<le> MaxWebhookTries))"

definition hrows_ok :: "(int \<Rightarrow> hrow option) \<Rightarrow> bool" where
  "hrows_ok f \<longleftrightarrow> (\<forall>i r. f i = Some r \<longrightarrow> hrow_ok r)"

lemma hrows_okD: "hrows_ok f \<Longrightarrow> f i = Some r \<Longrightarrow> hrow_ok r"
  unfolding hrows_ok_def by blast

lemma hrows_ok_upd: "hrows_ok f \<Longrightarrow> hrow_ok r \<Longrightarrow> hrows_ok (f(i \<mapsto> r))"
  unfolding hrows_ok_def by auto

lemma hstep_ok: "hstep f g \<Longrightarrow> hrows_ok f \<Longrightarrow> hrows_ok g"
proof (induction rule: hstep.induct)
  case (take f i n)
  from hrows_okD [OF take(2,1)] have "hrow_ok (DDelivering, n + 1)" by (simp add: hrow_ok_def)
  with take(2) show ?case by (rule hrows_ok_upd)
next
  case (put_back f i n)
  from hrows_okD [OF put_back(3,1)] put_back(2) have "hrow_ok (DPending, n)" by (simp add: hrow_ok_def)
  with put_back(3) show ?case by (rule hrows_ok_upd)
next
  case (succeed f i n)
  from hrows_okD [OF succeed(2,1)] have "hrow_ok (DDelivered, n)" by (simp add: hrow_ok_def)
  with succeed(2) show ?case by (rule hrows_ok_upd)
next
  case (give_up f i n)
  from hrows_okD [OF give_up(2,1)] have "hrow_ok (DFailed, n)" by (simp add: hrow_ok_def)
  with give_up(2) show ?case by (rule hrows_ok_upd)
next
  case (arrive f i)
  then show ?case by (intro hrows_ok_upd) (simp_all add: hrow_ok_def MaxWebhookTries_def)
qed

lemma hsteps_ok: "hstep\<^sup>*\<^sup>* f g \<Longrightarrow> hrows_ok f \<Longrightarrow> hrows_ok g"
  by (induction rule: rtranclp_induct) (auto intro: hstep_ok)

lemma hstep_final: "hstep f g \<Longrightarrow> f i = Some (st, n) \<Longrightarrow> st = DDelivered \<or> st = DFailed \<Longrightarrow> g i = Some (st, n)"
  by (induction rule: hstep.induct) auto

lemma hsteps_final:
  "hstep\<^sup>*\<^sup>* f g \<Longrightarrow> f i = Some (st, n) \<Longrightarrow> st = DDelivered \<or> st = DFailed \<Longrightarrow> g i = Some (st, n)"
  by (induction rule: rtranclp_induct) (auto dest: hstep_final)

definition hmoved :: "delivery_status \<Rightarrow> int \<Rightarrow> (int \<Rightarrow> hrow option) \<Rightarrow> int \<Rightarrow> hrow option" where
  "hmoved st i f = f(i := map_option (\<lambda>(_, n). (st, n)) (f i))"

definition htaken :: "int list \<Rightarrow> (int \<Rightarrow> hrow option) \<Rightarrow> int \<Rightarrow> hrow option" where
  "htaken ids f = (\<lambda>i. if i \<in> set ids then map_option (\<lambda>(_, n). (DDelivering, n + 1)) (f i) else f i)"

lemma hmoved_hstep:
  assumes "f i = Some (DDelivering, n)" "st = DDelivered \<or> st = DFailed \<or> st = DPending \<and> n < MaxWebhookTries"
  shows "hstep f (hmoved st i f)"
  using assms hstep.succeed [of f i n] hstep.give_up [of f i n] hstep.put_back [of f i n]
  by (auto simp: hmoved_def)

lemma htaken_hsteps:
  assumes "distinct ids" "\<And>i. i \<in> set ids \<Longrightarrow> \<exists>n. f i = Some (DPending, n)"
  shows "hstep\<^sup>*\<^sup>* f (htaken ids f)"
  using assms
proof (induction ids rule: rev_induct)
  case Nil
  then show ?case by (simp add: htaken_def)
next
  case (snoc i ids)
  from snoc.prems(2) obtain n where i: "f i = Some (DPending, n)" by auto
  have "htaken ids f i = Some (DPending, n)" using snoc.prems(1) i by (simp add: htaken_def)
  then have "hstep (htaken ids f) ((htaken ids f)(i \<mapsto> (DDelivering, n + 1)))" by (rule hstep.take)
  moreover have "(htaken ids f)(i \<mapsto> (DDelivering, n + 1)) = htaken (ids @ [i]) f"
    using i by (auto simp: htaken_def fun_eq_iff)
  moreover have "hstep\<^sup>*\<^sup>* f (htaken ids f)" using snoc by simp
  ultimately show ?case by (metis rtranclp.rtrancl_into_rtrancl)
qed

section \<open>What a dispatcher relies on\<close>

locale delivery_queue =
  fixes d :: "'s dispatcher" and ok :: "'s \<Rightarrow> bool" and drows :: "'s \<Rightarrow> int \<Rightarrow> hrow option"
  assumes claim_law:
      "ok s \<Longrightarrow> hq_claim (di_queue d) limit lockFor s = (batch, s') \<Longrightarrow>
         ok s' \<and> (\<exists>ids. distinct ids \<and> (\<forall>i \<in> set ids. \<exists>n. drows s i = Some (DPending, n))
              \<and> drows s' = htaken ids (drows s)
              \<and> (\<forall>cs. batch = Inr cs \<longrightarrow> distinct (map pd_id cs) \<and> set (map pd_id cs) = set ids
                   \<and> (\<forall>c \<in> set cs. drows s' (pd_id c) = Some (DDelivering, pd_attempts c))))"
    and succeeded_law:
      "ok s \<Longrightarrow> hq_succeeded (di_queue d) i s = (r, s') \<Longrightarrow>
         ok s' \<and> (drows s' = hmoved DDelivered i (drows s) \<or> isl r \<and> drows s' = drows s)"
    and again_law:
      "ok s \<Longrightarrow> hq_again (di_queue d) i at' reason s = (r, s') \<Longrightarrow>
         ok s' \<and> (drows s' = hmoved DPending i (drows s) \<or> isl r \<and> drows s' = drows s)"
    and failed_law:
      "ok s \<Longrightarrow> hq_failed (di_queue d) i reason s = (r, s') \<Longrightarrow>
         ok s' \<and> (drows s' = hmoved DFailed i (drows s) \<or> isl r \<and> drows s' = drows s)"
    and send_law:
      "ok s \<Longrightarrow> di_send d url secret payload s = (result, s') \<Longrightarrow> ok s' \<and> drows s' = drows s"
begin

text \<open>A dispatch reports at most one outcome, and puts back only while attempts are left.\<close>

lemma dispatch_effect:
  assumes s: "ok s"
  shows "ok (dispatch d item s) \<and> (drows (dispatch d item s) = drows s
    \<or> (\<exists>st. (st = DDelivered \<or> st = DFailed \<or> st = DPending \<and> pd_attempts item < MaxWebhookTries)
         \<and> drows (dispatch d item s) = hmoved st (pd_id item) (drows s)))"
proof -
  obtain r s1 where sn: "di_send d (pd_url item) (pd_secret item) (pd_payload item) s = (r, s1)" by fastforce
  from send_law [OF s sn] have s1: "ok s1" "drows s1 = drows s" by blast+
  have fl: "ok (snd (hq_failed (di_queue d) (pd_id item) reason s1))
    \<and> (drows (snd (hq_failed (di_queue d) (pd_id item) reason s1)) = drows s
       \<or> drows (snd (hq_failed (di_queue d) (pd_id item) reason s1)) = hmoved DFailed (pd_id item) (drows s))" for reason
    using failed_law [OF s1(1), of "pd_id item" reason] s1(2) by (metis prod.collapse)
  have su: "ok (snd (hq_succeeded (di_queue d) (pd_id item) s1))
    \<and> (drows (snd (hq_succeeded (di_queue d) (pd_id item) s1)) = drows s
       \<or> drows (snd (hq_succeeded (di_queue d) (pd_id item) s1)) = hmoved DDelivered (pd_id item) (drows s))"
    using succeeded_law [OF s1(1), of "pd_id item"] s1(2) by (metis prod.collapse)
  have ag: "ok (snd (hq_again (di_queue d) (pd_id item) at' reason s1))
    \<and> (drows (snd (hq_again (di_queue d) (pd_id item) at' reason s1)) = drows s
       \<or> drows (snd (hq_again (di_queue d) (pd_id item) at' reason s1)) = hmoved DPending (pd_id item) (drows s))"
    for at' reason
    using again_law [OF s1(1), of "pd_id item" at' reason] s1(2) by (metis prod.collapse)
  show ?thesis
  proof (cases "sr_outcome r")
    case HookDelivered
    with sn su show ?thesis by (auto simp: dispatch_def)
  next
    case Drop
    with sn fl [of "sr_reason r"] show ?thesis by (auto simp: dispatch_def)
  next
    case Retry
    with sn fl [of "''gave up: '' @ sr_reason r"] ag [of "di_now d s1 + Backoff (pd_attempts item)" "sr_reason r"]
    show ?thesis by (cases "MaxWebhookTries \<le> pd_attempts item") (auto simp: dispatch_def)
  qed
qed

text \<open>The deliveries dispatchers hold: in Delivering with their attempts, no two the same.\<close>

definition held_ok :: "pending_delivery list \<Rightarrow> 's \<Rightarrow> bool" where
  "held_ok fl s \<longleftrightarrow> ok s \<and> hrows_ok (drows s) \<and> distinct (map pd_id fl)
     \<and> (\<forall>c \<in> set fl. drows s (pd_id c) = Some (DDelivering, pd_attempts c))"

lemma dispatch_held:
  assumes f: "held_ok fl s" and c: "c \<in> set fl"
  shows "held_ok (remove1 c fl) (dispatch d c s) \<and> hstep\<^sup>*\<^sup>* (drows s) (drows (dispatch d c s))"
proof -
  have row: "drows s (pd_id c) = Some (DDelivering, pd_attempts c)" using f c by (simp add: held_ok_def)
  have ok: "ok s" using f by (simp add: held_ok_def)
  note e = dispatch_effect [OF ok, of c]
  have steps: "hstep\<^sup>*\<^sup>* (drows s) (drows (dispatch d c s))"
    using e hmoved_hstep [of "drows s" "pd_id c" "pd_attempts c", OF row] by auto
  have other: "drows (dispatch d c s) j = drows s j" if "j \<noteq> pd_id c" for j
    using e that by (auto simp: hmoved_def)
  have dist: "distinct (map pd_id fl)" using f by (simp add: held_ok_def)
  have rest: "drows (dispatch d c s) (pd_id x) = Some (DDelivering, pd_attempts x)" if "x \<in> set (remove1 c fl)" for x
    using remove1_other_key [OF dist c that] other [of "pd_id x"] f by (simp add: held_ok_def)
  have "hrows_ok (drows (dispatch d c s))" using hsteps_ok [OF steps] f by (simp add: held_ok_def)
  then show ?thesis
    using steps e rest distinct_map_remove1 [OF dist, of c] by (simp add: held_ok_def)
qed

lemma claim_held:
  assumes f: "held_ok fl s" and q: "hq_claim (di_queue d) limit lockFor s = (r, s')"
  shows "held_ok (fl @ (case r of Inl e \<Rightarrow> [] | Inr cs \<Rightarrow> cs)) s' \<and> hstep\<^sup>*\<^sup>* (drows s) (drows s')"
proof -
  have ok: "ok s" using f by (simp add: held_ok_def)
  from claim_law [OF ok q] obtain ids where l: "ok s'" "distinct ids"
      "\<forall>i \<in> set ids. \<exists>n. drows s i = Some (DPending, n)" "drows s' = htaken ids (drows s)"
    and cs: "\<forall>cs. r = Inr cs \<longrightarrow> distinct (map pd_id cs) \<and> set (map pd_id cs) = set ids
        \<and> (\<forall>c \<in> set cs. drows s' (pd_id c) = Some (DDelivering, pd_attempts c))" by blast
  have steps: "hstep\<^sup>*\<^sup>* (drows s) (drows s')" unfolding l(4) using htaken_hsteps [OF l(2)] l(3) by blast
  have free: "pd_id c \<notin> set ids" if "c \<in> set fl" for c using f that l(3) by (auto simp: held_ok_def)
  have old: "drows s' (pd_id c) = Some (DDelivering, pd_attempts c)" if "c \<in> set fl" for c
    using f that free [OF that] by (simp add: held_ok_def l(4) htaken_def)
  have ok': "hrows_ok (drows s')" using hsteps_ok [OF steps] f by (simp add: held_ok_def)
  show ?thesis
  proof (cases r)
    case (Inl e)
    with f l(1) ok' old steps show ?thesis by (simp add: held_ok_def)
  next
    case (Inr cs')
    with cs have c: "distinct (map pd_id cs')" "pd_id ` set cs' = set ids"
      "\<forall>c \<in> set cs'. drows s' (pd_id c) = Some (DDelivering, pd_attempts c)" by auto
    have "distinct (map pd_id (fl @ cs'))" using f c free by (auto simp: held_ok_def)
    with Inr c l(1) ok' old steps show ?thesis by (auto simp: held_ok_def)
  qed
qed

lemma crash_held: "held_ok fl s \<Longrightarrow> held_ok (filter P fl) s"
  by (auto simp: held_ok_def intro: distinct_map_filterI)

end

end
