(* ===== verification/Dispatcher_System.thy ===== *)
theory Dispatcher_System
  imports Dispatcher
begin

text \<open>
  The dispatcher over the store and the sender: the store keeps the contract of
  \<open>delivery_queue\<close>, and any number of dispatchers, publishers and crashes are interleaved.
\<close>

section \<open>The store as a queue of deliveries\<close>

definition drow_of :: "store \<Rightarrow> int \<Rightarrow> hrow option" where
  "drow_of s i = map_option (\<lambda>l. (l_status l, l_attempts l)) (List.find (\<lambda>l. l_id l = i) (st_deliveries s))"

definition deliveries_ok :: "store \<Rightarrow> bool" where
  "deliveries_ok s \<longleftrightarrow> distinct (map l_id (st_deliveries s))
     \<and> (\<forall>l \<in> set (st_deliveries s). l_id l < st_seq s Webhook_deliveries)"

lemma delivery_tail [simp]: "drow_of (tail_fates s) = drow_of s" "deliveries_ok (tail_fates s) = deliveries_ok s"
  by (simp_all add: drow_of_def deliveries_ok_def fun_eq_iff)

lemma drow_of_row:
  "deliveries_ok s \<Longrightarrow> l \<in> set (st_deliveries s) \<Longrightarrow> drow_of s (l_id l) = Some (l_status l, l_attempts l)"
  by (simp add: drow_of_def deliveries_ok_def find_unique)

lemma deliveries_update_ok:
  assumes "deliveries_ok s" "\<And>l. l_id (f l) = l_id l"
  shows "deliveries_ok (s\<lparr>st_deliveries := update_where p f (st_deliveries s)\<rparr>)"
  using assms by (auto simp: deliveries_ok_def map_update_where set_update_where)

lemma mark_delivery_law:
  assumes f: "\<And>l. l_id (f l) = l_id l" "\<And>l. l_attempts (f l) = l_attempts l" "\<And>l. l_status (f l) = st"
    and ok: "deliveries_ok s" and r: "run_wrapped what texts (stmt_update (set_delivery i f)) s = (a, s')"
  shows "deliveries_ok s' \<and> (drow_of s' = hmoved st i (drow_of s) \<or> isl a \<and> drow_of s' = drow_of s)"
proof -
  let ?t = "set_delivery i f (tail_fates s)"
  have "deliveries_ok ?t" unfolding set_delivery_def by (rule deliveries_update_ok) (use ok f in auto)
  moreover have "drow_of ?t = hmoved st i (drow_of s)"
  proof
    fix j
    have "drow_of ?t j = map_option (\<lambda>l. (l_status l, l_attempts l))
        (map_option (\<lambda>l. if l_id l = i then f l else l) (List.find (\<lambda>l. l_id l = j) (st_deliveries s)))"
      by (simp add: drow_of_def set_delivery_def find_update_where f)
    also have "\<dots> = hmoved st i (drow_of s) j"
      by (cases "List.find (\<lambda>l. l_id l = j) (st_deliveries s)")
         (auto simp: hmoved_def drow_of_def f dest: find_SomeD)
    finally show "drow_of ?t j = hmoved st i (drow_of s) j" .
  qed
  ultimately show ?thesis
    using r ok
    by (cases rule: run_wrapped_cases [of what texts "stmt_update (set_delivery i f)" s]) (auto simp: stmt_update_def)
qed

text \<open>The rows a claim takes: due, among the first, and with an endpoint.\<close>

definition claimable :: "nat \<Rightarrow> store \<Rightarrow> delivery_row \<Rightarrow> bool" where
  "claimable limit s l \<longleftrightarrow> l_id l \<in> set (claim_delivery_ids limit s) \<and> delivery_view s l \<noteq> None"

lemma claimable_pending:
  assumes ok: "deliveries_ok s" and l: "l \<in> set (st_deliveries s)" "claimable limit s l"
  shows "l_status l = DPending"
proof -
  from l(2) obtain l' where "l' \<in> set (st_deliveries s)" "delivery_due (st_now s) l'" "l_id l' = l_id l"
    by (auto simp: claimable_def claim_delivery_ids_def dest!: in_set_takeD)
  moreover from this ok l(1) have "l' = l" by (auto simp: deliveries_ok_def distinct_map inj_on_def)
  ultimately show ?thesis by (simp add: delivery_due_def)
qed

lemma view_claimed [simp]: "(delivery_view s (claim_delivery_row now d l) = None) = (delivery_view s l = None)"
  by (simp add: delivery_view_def claim_delivery_row_def)

lemma claim_row_sel [simp]:
  "l_id (claim_delivery_row now d l) = l_id l" "l_status (claim_delivery_row now d l) = DDelivering"
  "l_attempts (claim_delivery_row now d l) = l_attempts l + 1"
  by (simp_all add: claim_delivery_row_def)

lemma view_sel: "delivery_view s l = Some v \<Longrightarrow> pd_id v = l_id l \<and> pd_attempts v = l_attempts l"
  by (auto simp: delivery_view_def)

lemma map_filter_view:
  "map pd_id (List.map_filter (delivery_view s) ls) = map l_id (filter (\<lambda>l. delivery_view s l \<noteq> None) ls)"
  by (induction ls) (auto simp: List.map_filter_simps view_sel split: option.splits)

lemma set_map_filter_view:
  "v \<in> set (List.map_filter (delivery_view s) ls) \<Longrightarrow> \<exists>l \<in> set ls. delivery_view s l = Some v"
  by (induction ls) (auto simp: List.map_filter_simps split: option.splits)

lemma filter_update_where_ids:
  assumes "\<And>r. k (f r) = k r" "\<And>r. q (f r) = q r"
  shows "map k (filter q (update_where p f rows)) = map k (filter q rows)"
  using assms by (induction rows) auto

lemma claim_rows_effect:
  assumes ok: "deliveries_ok s"
    and s': "s' = s\<lparr>st_deliveries := update_where (claimable limit s) (claim_delivery_row now lockFor) (st_deliveries s)\<rparr>"
    and ids: "ids = map l_id (filter (claimable limit s) (st_deliveries s))"
  shows "deliveries_ok s'" "distinct ids" "\<forall>i \<in> set ids. \<exists>n. drow_of s i = Some (DPending, n)"
    "drow_of s' = htaken ids (drow_of s)"
proof -
  show "deliveries_ok s'" unfolding s' by (rule deliveries_update_ok) (use ok in simp_all)
  show "distinct ids" unfolding ids using ok by (auto simp: deliveries_ok_def intro: distinct_map_filterI)
  show "\<forall>i \<in> set ids. \<exists>n. drow_of s i = Some (DPending, n)"
    unfolding ids using drow_of_row [OF ok] claimable_pending [OF ok] by auto
  show "drow_of s' = htaken ids (drow_of s)"
  proof
    fix j
    let ?find = "List.find (\<lambda>l. l_id l = j) (st_deliveries s)"
    have "drow_of s' j = map_option (\<lambda>l. (l_status l, l_attempts l))
        (map_option (\<lambda>l. if claimable limit s l then claim_delivery_row now lockFor l else l) ?find)"
      unfolding s' drow_of_def by (simp add: find_update_where)
    also have "\<dots> = htaken ids (drow_of s) j"
    proof (cases ?find)
      case None
      then show ?thesis by (simp add: htaken_def drow_of_def)
    next
      case (Some l)
      then have l: "l \<in> set (st_deliveries s)" "l_id l = j" by (auto dest: find_SomeD)
      have "claimable limit s l = (j \<in> set ids)"
        using l ok unfolding ids by (auto simp: deliveries_ok_def distinct_map inj_on_def)
      with Some show ?thesis by (simp add: htaken_def drow_of_def)
    qed
    finally show "drow_of s' j = htaken ids (drow_of s) j" .
  qed
qed

text \<open>The store a claim leaves and the deliveries it answers with.\<close>

definition claimed_store :: "nat \<Rightarrow> duration \<Rightarrow> store \<Rightarrow> store" where
  "claimed_store limit lockFor s =
     s\<lparr>st_deliveries := update_where (claimable limit s) (claim_delivery_row (st_now s) lockFor) (st_deliveries s)\<rparr>"

definition claimed_items :: "nat \<Rightarrow> duration \<Rightarrow> store \<Rightarrow> pending_delivery list" where
  "claimed_items limit lockFor s =
     List.map_filter (delivery_view s)
       (filter (\<lambda>l. l_id l \<in> set (claim_delivery_ids limit s)) (st_deliveries (claimed_store limit lockFor s)))"

definition claimed_ids :: "nat \<Rightarrow> store \<Rightarrow> int list" where
  "claimed_ids limit s = map l_id (filter (claimable limit s) (st_deliveries s))"

lemma claim_deliveries_update_eq:
  "claim_deliveries_update limit lockFor s = Inr (claimed_items limit lockFor s, claimed_store limit lockFor s)"
  unfolding claim_deliveries_update_def claimed_items_def claimed_store_def Let_def claimable_def by simp

lemmas claimed_effect = claim_rows_effect [OF _ claimed_store_def claimed_ids_def]

lemma claimed_items_ids: "map pd_id (claimed_items limit lockFor s) = claimed_ids limit s"
proof -
  let ?q = "\<lambda>l. l_id l \<in> set (claim_delivery_ids limit s) \<and> delivery_view s l \<noteq> None"
  have "map pd_id (claimed_items limit lockFor s)
      = map l_id (filter ?q (update_where (claimable limit s) (claim_delivery_row (st_now s) lockFor) (st_deliveries s)))"
    unfolding claimed_items_def claimed_store_def map_filter_view filter_filter by simp
  also have "\<dots> = map l_id (filter ?q (st_deliveries s))" by (rule filter_update_where_ids) simp_all
  also have "?q = claimable limit s" by (simp add: claimable_def fun_eq_iff)
  finally show ?thesis by (simp add: claimed_ids_def)
qed

lemma claimed_items_rows:
  assumes ok: "deliveries_ok s" and c: "c \<in> set (claimed_items limit lockFor s)"
  shows "drow_of (claimed_store limit lockFor s) (pd_id c) = Some (DDelivering, pd_attempts c)"
proof -
  let ?t = "claimed_store limit lockFor s"
  from set_map_filter_view [OF c [unfolded claimed_items_def]] obtain l where
    l: "l \<in> set (st_deliveries ?t)" "delivery_view s l = Some c" by auto
  have i: "pd_id c = l_id l" "pd_attempts c = l_attempts l" using view_sel [OF l(2)] by auto
  have "pd_id c \<in> set (map pd_id (claimed_items limit lockFor s))" using c by simp
  then have m: "pd_id c \<in> set (claimed_ids limit s)" unfolding claimed_items_ids .
  then obtain n where n: "drow_of s (pd_id c) = Some (DPending, n)" using claimed_effect(3) [OF ok] by blast
  have "drow_of ?t (pd_id c) = Some (DDelivering, n + 1)"
    unfolding claimed_effect(4) [OF ok] htaken_def using m n by simp
  moreover have "drow_of ?t (l_id l) = Some (l_status l, l_attempts l)"
    by (rule drow_of_row [OF claimed_effect(1) [OF ok] l(1)])
  ultimately show ?thesis using i by simp
qed

lemma claim_deliveries_law:
  assumes ok: "deliveries_ok s" and q: "ClaimDeliveries limit lockFor s = (batch, s')"
  shows "deliveries_ok s' \<and> (\<exists>ids. distinct ids \<and> (\<forall>i \<in> set ids. \<exists>n. drow_of s i = Some (DPending, n))
       \<and> drow_of s' = htaken ids (drow_of s)
       \<and> (\<forall>cs. batch = Inr cs \<longrightarrow> distinct (map pd_id cs) \<and> set (map pd_id cs) = set ids
            \<and> (\<forall>c \<in> set cs. drow_of s' (pd_id c) = Some (DDelivering, pd_attempts c))))"
proof -
  let ?s = "tail_fates s"
  have ok': "deliveries_ok ?s" using ok by simp
  let ?t = "claimed_store limit lockFor ?s" and ?out = "claimed_items limit lockFor ?s" and ?ids = "claimed_ids limit ?s"
  have eff: "deliveries_ok ?t" "distinct ?ids" "\<forall>i \<in> set ?ids. \<exists>n. drow_of s i = Some (DPending, n)"
    "drow_of ?t = htaken ?ids (drow_of s)"
    using claimed_effect(1,4) [OF ok', of limit lockFor] claimed_effect(2,3) [OF ok', of limit] by simp_all
  have "s' = ?s \<and> isl batch \<or> s' = ?t \<and> (isl batch \<or> batch = Inr ?out)"
    using q unfolding ClaimDeliveries_def
    by (cases rule: run_wrapped_cases [of "''claiming deliveries''" "[]" "claim_deliveries_update limit lockFor" s])
       (auto simp: claim_deliveries_update_eq)
  then consider "s' = ?s" "isl batch" | "s' = ?t" "isl batch" | "s' = ?t" "batch = Inr ?out" by blast
  then show ?thesis
  proof cases
    case 1
    then show ?thesis using ok by (auto simp: htaken_def intro!: exI [of _ "[]"])
  next
    case 2
    then show ?thesis using eff by auto
  next
    case 3
    have "distinct (map pd_id ?out)" "set (map pd_id ?out) = set ?ids" unfolding claimed_items_ids by (rule eff(2), rule refl)
    with 3 eff claimed_items_rows [OF ok', of _ limit lockFor] show ?thesis by blast
  qed
qed

definition hook_ok :: "hook_world \<Rightarrow> bool" where "hook_ok w \<longleftrightarrow> deliveries_ok (hw_store w)"
definition hook_rows :: "hook_world \<Rightarrow> int \<Rightarrow> hrow option" where "hook_rows w = drow_of (hw_store w)"

lemma in_storeD: "in_store f w = (r, w') \<Longrightarrow> f (hw_store w) = (r, hw_store w')"
  by (auto simp: in_store_def split: prod.splits)

lemma in_store_snd [simp]: "hw_store (snd (in_store f w)) = snd (f (hw_store w))"
  by (simp add: in_store_def case_prod_unfold)

interpretation hooks: delivery_queue "store_dispatcher L" hook_ok hook_rows for L
proof
  fix s limit lockFor batch s'
  assume "hook_ok s" "hq_claim (di_queue (store_dispatcher L)) limit lockFor s = (batch, s')"
  then show "hook_ok s' \<and> (\<exists>ids. distinct ids \<and> (\<forall>i \<in> set ids. \<exists>n. hook_rows s i = Some (DPending, n))
              \<and> hook_rows s' = htaken ids (hook_rows s)
              \<and> (\<forall>cs. batch = Inr cs \<longrightarrow> distinct (map pd_id cs) \<and> set (map pd_id cs) = set ids
                   \<and> (\<forall>c \<in> set cs. hook_rows s' (pd_id c) = Some (DDelivering, pd_attempts c))))"
    unfolding hook_ok_def hook_rows_def
    by (intro claim_deliveries_law) (auto simp: store_dispatcher_def dest: in_storeD)
next
  fix s i r s' assume ok: "hook_ok s" and q: "hq_succeeded (di_queue (store_dispatcher L)) i s = (r, s')"
  have "MarkDeliverySucceeded i (hw_store s) = (r, hw_store s')" using q by (auto simp: store_dispatcher_def dest: in_storeD)
  then show "hook_ok s' \<and> (hook_rows s' = hmoved DDelivered i (hook_rows s) \<or> isl r \<and> hook_rows s' = hook_rows s)"
    using ok unfolding hook_ok_def hook_rows_def MarkDeliverySucceeded_def by (intro mark_delivery_law) auto
next
  fix s i at' reason r s' assume ok: "hook_ok s" and q: "hq_again (di_queue (store_dispatcher L)) i at' reason s = (r, s')"
  have "RescheduleDelivery i at' reason (hw_store s) = (r, hw_store s')"
    using q by (auto simp: store_dispatcher_def dest: in_storeD)
  then show "hook_ok s' \<and> (hook_rows s' = hmoved DPending i (hook_rows s) \<or> isl r \<and> hook_rows s' = hook_rows s)"
    using ok unfolding hook_ok_def hook_rows_def RescheduleDelivery_def by (intro mark_delivery_law) auto
next
  fix s i reason r s' assume ok: "hook_ok s" and q: "hq_failed (di_queue (store_dispatcher L)) i reason s = (r, s')"
  have "MarkDeliveryFailed i reason (hw_store s) = (r, hw_store s')" using q by (auto simp: store_dispatcher_def dest: in_storeD)
  then show "hook_ok s' \<and> (hook_rows s' = hmoved DFailed i (hook_rows s) \<or> isl r \<and> hook_rows s' = hook_rows s)"
    using ok unfolding hook_ok_def hook_rows_def MarkDeliveryFailed_def by (intro mark_delivery_law) auto
next
  fix s url secret payload result s'
  assume "hook_ok s" "di_send (store_dispatcher L) url secret payload s = (result, s')"
  then show "hook_ok s' \<and> hook_rows s' = hook_rows s"
    by (auto simp: store_dispatcher_def hook_ok_def hook_rows_def split: prod.splits)
qed

section \<open>Publishing\<close>

text \<open>Publishing only adds rows: the others keep status and attempts.\<close>

definition arrivals :: "(int \<Rightarrow> hrow option) \<Rightarrow> (int \<Rightarrow> hrow option) \<Rightarrow> bool" where
  "arrivals f g \<longleftrightarrow> hstep\<^sup>*\<^sup>* f g \<and> (\<forall>j. f j \<noteq> None \<longrightarrow> g j = f j)"

lemma arrivals_refl [simp]: "arrivals f f"
  by (simp add: arrivals_def)

lemma arrivals_first: "f i = None \<Longrightarrow> arrivals (f(i \<mapsto> (DPending, 0))) g \<Longrightarrow> arrivals f g"
  using hstep.arrive [of f i] by (auto simp: arrivals_def intro: converse_rtranclp_into_rtranclp split: if_splits)

text \<open>One turn of the loop: a number is drawn, and a row is added unless the endpoint has one.\<close>

definition add_delivery :: "bytes \<Rightarrow> bytes \<Rightarrow> bytes \<Rightarrow> endpoint_row \<Rightarrow> store \<Rightarrow> store" where
  "add_delivery e m p w s = fan_out e m p [w] s"

lemma fan_out_Cons: "fan_out e m p (w # ws) s = fan_out e m p ws (add_delivery e m p w s)"
  by (simp add: add_delivery_def nextval_def Let_def)

definition published :: "bytes \<Rightarrow> endpoint_row \<Rightarrow> store \<Rightarrow> bool" where
  "published e w s \<longleftrightarrow> list_ex (\<lambda>l. l_endpoint_id l = w_id w \<and> l_event_id l = e) (st_deliveries s)"

lemma add_delivery_frame [simp]:
  "st_endpoints (add_delivery e m p w s) = st_endpoints s" "st_messages (add_delivery e m p w s) = st_messages s"
  by (simp_all add: add_delivery_def nextval_def Let_def)

lemma add_delivery_published: "published e w (add_delivery e m p w s)"
  by (simp add: add_delivery_def published_def nextval_def Let_def)

lemma add_delivery_mono: "published e v s \<Longrightarrow> published e v (add_delivery e' m p w s)"
  by (auto simp: add_delivery_def published_def nextval_def Let_def)

lemma add_delivery_again: "published e w s \<Longrightarrow> st_deliveries (add_delivery e m p w s) = st_deliveries s"
  by (simp add: add_delivery_def published_def nextval_def Let_def)

lemma add_delivery_rows:
  assumes ok: "deliveries_ok s"
  shows "deliveries_ok (add_delivery e m p w s)"
    "drow_of (add_delivery e m p w s) = drow_of s
     \<or> (\<exists>i. drow_of s i = None \<and> drow_of (add_delivery e m p w s) = (drow_of s)(i \<mapsto> (DPending, 0)))"
proof -
  let ?i = "st_seq s Webhook_deliveries"
  let ?s = "add_delivery e m p w s"
  show "deliveries_ok ?s" using ok by (auto simp: add_delivery_def nextval_def Let_def deliveries_ok_def)
  have none: "drow_of s ?i = None" using ok by (auto simp: deliveries_ok_def drow_of_def find_None_iff)
  show "drow_of ?s = drow_of s \<or> (\<exists>i. drow_of s i = None \<and> drow_of ?s = (drow_of s)(i \<mapsto> (DPending, 0)))"
  proof (cases "published e w s")
    case True
    then show ?thesis using add_delivery_again by (simp add: drow_of_def fun_eq_iff)
  next
    case False
    then have "drow_of ?s = (drow_of s)(?i \<mapsto> (DPending, 0))"
      using none by (auto simp: add_delivery_def nextval_def Let_def published_def drow_of_def find_append fun_eq_iff
          split: option.splits)
    with none show ?thesis by blast
  qed
qed

lemma fan_out_frame:
  "st_endpoints (fan_out e m p ws s) = st_endpoints s \<and> st_messages (fan_out e m p ws s) = st_messages s"
  by (induction ws arbitrary: s) (simp_all add: fan_out_Cons del: fan_out.simps(2))

lemma fan_out_rows:
  "deliveries_ok s \<Longrightarrow> deliveries_ok (fan_out e m p ws s) \<and> arrivals (drow_of s) (drow_of (fan_out e m p ws s))"
proof (induction ws arbitrary: s)
  case (Cons w ws)
  let ?s = "add_delivery e m p w s"
  note r = add_delivery_rows [OF Cons.prems, of e m p w]
  from Cons.IH [OF r(1)] have ih: "deliveries_ok (fan_out e m p ws ?s)" "arrivals (drow_of ?s) (drow_of (fan_out e m p ws ?s))"
    by blast+
  have "arrivals (drow_of s) (drow_of (fan_out e m p ws ?s))"
    using r(2)
  proof
    assume "drow_of ?s = drow_of s"
    with ih(2) show ?thesis by simp
  next
    assume "\<exists>i. drow_of s i = None \<and> drow_of ?s = (drow_of s)(i \<mapsto> (DPending, 0))"
    with ih(2) show ?thesis using arrivals_first by metis
  qed
  with ih(1) show ?case by (simp only: fan_out_Cons)
qed simp

lemma EnqueueDelivery_rows:
  assumes "deliveries_ok s"
  shows "deliveries_ok (snd (EnqueueDelivery L e m p s)) \<and> arrivals (drow_of s) (drow_of (snd (EnqueueDelivery L e m p s)))"
  unfolding EnqueueDelivery_def
proof (rule run_wrapped_rel [where R = "\<lambda>s t. deliveries_ok t \<and> arrivals (drow_of s) (drow_of t)"])
  show "deliveries_ok (tail_fates s) \<and> arrivals (drow_of s) (drow_of (tail_fates s))" using assms by simp
  fix a t assume "insert_deliveries L e m p (tail_fates s) = Inr (a, t)"
  then obtain q ws where "t = fan_out e m q ws (tail_fates s)"
    by (auto simp: insert_deliveries_def Let_def split: option.splits if_splits)
  then show "deliveries_ok t \<and> arrivals (drow_of s) (drow_of t)"
    using fan_out_rows [of "tail_fates s" e m q ws] assms by simp
qed

lemma fan_out_mono: "published e v s \<Longrightarrow> published e v (fan_out e m p ws s)"
  by (induction ws arbitrary: s) (simp_all add: fan_out_Cons add_delivery_mono del: fan_out.simps(2))

lemma fan_out_published: "w \<in> set ws \<Longrightarrow> published e w (fan_out e m p ws s)"
  by (induction ws arbitrary: s)
     (auto simp: fan_out_Cons simp del: fan_out.simps(2) intro: fan_out_mono add_delivery_published)

lemma fan_out_nothing:
  "(\<And>w. w \<in> set ws \<Longrightarrow> published e w s) \<Longrightarrow> st_deliveries (fan_out e m p ws s) = st_deliveries s"
  by (induction ws arbitrary: s)
     (simp_all add: fan_out_Cons add_delivery_mono add_delivery_again del: fan_out.simps(2))

text \<open>
  C22. Publishing an event is idempotent: after an answered EnqueueDelivery every active endpoint
  has a delivery of the event, and publishing the same event again, for whatever message and
  payload and whatever the connection does, adds none.
\<close>

theorem EnqueueDelivery_idempotent:
  assumes "EnqueueDelivery L eventID messageID payload s = (Inr (), s1)"
  shows "(\<forall>w \<in> set (st_endpoints s1). w_active w \<longrightarrow>
            (\<exists>l \<in> set (st_deliveries s1). l_endpoint_id l = w_id w \<and> l_event_id l = eventID))
     \<and> st_deliveries (snd (EnqueueDelivery L eventID messageID' payload' s1)) = st_deliveries s1"
proof -
  from run_wrapped_InrD [OF assms [unfolded EnqueueDelivery_def]]
  obtain q where s1: "s1 = fan_out eventID messageID q (filter w_active (st_endpoints s)) (tail_fates s)"
    by (auto simp: insert_deliveries_def Let_def split: option.splits if_splits)
  have ep: "st_endpoints s1 = st_endpoints s" by (simp add: s1 fan_out_frame)
  have pub: "published eventID w s1" if "w \<in> set (filter w_active (st_endpoints s1))" for w
    using fan_out_published [of w "filter w_active (st_endpoints s)" eventID messageID q "tail_fates s"] that ep s1 by simp
  have "st_deliveries (fan_out eventID messageID' p (filter w_active (st_endpoints s1)) (tail_fates s1)) = st_deliveries s1" for p
    using fan_out_nothing [of "filter w_active (st_endpoints s1)" eventID "tail_fates s1"] pub by (simp add: published_def)
  then have "st_deliveries (snd (EnqueueDelivery L eventID messageID' payload' s1)) = st_deliveries s1"
    unfolding EnqueueDelivery_def
    by (intro run_wrapped_rel [where R = "\<lambda>s t. st_deliveries t = st_deliveries s"])
       (auto simp: insert_deliveries_def Let_def split: option.splits if_splits)
  then show ?thesis using pub by (auto simp: published_def list_ex_iff)
qed

definition sample_hooks :: store where
  "sample_hooks = sample_queued\<lparr>st_endpoints := [\<lparr>w_id = 1, w_url = ''http://a.test/'', w_secret = ''k'',
     w_active = True, w_created_at = 0\<rparr>]\<rparr>"

definition sample_published :: store where
  "sample_published = snd (EnqueueDelivery sample_lib ''e1'' ''m1'' ''{}'' sample_hooks)"

lemma EnqueueDelivery_idempotent_witness:
  "map l_event_id (st_deliveries sample_published) = [''e1'']
   \<and> st_deliveries (snd (EnqueueDelivery sample_lib ''e1'' ''m1'' ''[]'' sample_published)) = st_deliveries sample_published"
proof -
  have e: "EnqueueDelivery sample_lib ''e1'' ''m1'' ''{}'' sample_hooks = (Inr (), sample_published)" by code_simp
  have "map l_event_id (st_deliveries sample_published) = [''e1'']" by code_simp
  with EnqueueDelivery_idempotent [OF e] show ?thesis by blast
qed

section \<open>Many dispatchers\<close>

definition items :: "go_error + pending_delivery list \<Rightarrow> pending_delivery list" where
  "items r = (case r of Inl e \<Rightarrow> [] | Inr cs \<Rightarrow> cs)"

inductive hook_step ::
  "golib \<Rightarrow> hook_world \<times> pending_delivery list \<Rightarrow> hook_world \<times> pending_delivery list \<Rightarrow> bool" for L where
  publish: "hook_step L (w, fl) (snd (in_store (EnqueueDelivery L e m p) w), fl)"
| claim: "hq_claim (di_queue (store_dispatcher L)) webhookBatch webhookLock w = (r, w') \<Longrightarrow>
    hook_step L (w, fl) (w', fl @ items r)"
| dispatch: "c \<in> set fl \<Longrightarrow> hook_step L (w, fl) (dispatch (store_dispatcher L) c w, remove1 c fl)"
| crash: "hook_step L (w, fl) (w, filter P fl)"
| environment: "hook_step L (w, fl) (w\<lparr>hw_store := (hw_store w)\<lparr>st_now := t, st_fates := f\<rparr>,
    hw_traffic := (hw_traffic w)\<lparr>tr_dns := dns, tr_replies := replies\<rparr>, hw_clock := clock\<rparr>, fl)"

definition hook_run where "hook_run L = (hook_step L)\<^sup>*\<^sup>*"

lemma hook_step_held:
  assumes "hook_step L (w, fl) (w', fl')" "hooks.held_ok fl w"
  shows "hooks.held_ok fl' w' \<and> hstep\<^sup>*\<^sup>* (hook_rows w) (hook_rows w')"
  using assms(1)
proof cases
  case (publish e m p)
  have "deliveries_ok (hw_store w)" using assms(2) by (simp add: hooks.held_ok_def hook_ok_def)
  from EnqueueDelivery_rows [OF this, of L e m p]
  have "hook_ok w'" "arrivals (hook_rows w) (hook_rows w')"
    unfolding publish(1) by (simp_all add: hook_rows_def hook_ok_def)
  then show ?thesis
    using assms(2) hsteps_ok [of "hook_rows w" "hook_rows w'"] publish(2) by (simp add: hooks.held_ok_def arrivals_def)
next
  case (claim r)
  then show ?thesis using hooks.claim_held [OF assms(2)] by (simp add: items_def)
next
  case (dispatch c)
  then show ?thesis using hooks.dispatch_held [OF assms(2)] by blast
next
  case (crash P)
  then show ?thesis using hooks.crash_held [OF assms(2)] by simp
next
  case (environment t f dns replies clock)
  have "hook_rows w' = hook_rows w" "hook_ok w' = hook_ok w"
    unfolding environment(1) by (simp_all add: hook_rows_def hook_ok_def drow_of_def deliveries_ok_def fun_eq_iff)
  with assms(2) environment(2) show ?thesis by (simp add: hooks.held_ok_def)
qed

lemma hook_run_held:
  assumes "hook_run L (w, fl) (w', fl')" "hooks.held_ok fl w"
  shows "hooks.held_ok fl' w' \<and> hstep\<^sup>*\<^sup>* (hook_rows w) (hook_rows w')"
  using assms(1) unfolding hook_run_def
proof (induction "(w', fl')" arbitrary: w' fl' rule: rtranclp_induct)
  case base
  then show ?case using assms(2) by simp
next
  case (step y)
  obtain w1 fl1 where y: "y = (w1, fl1)" by fastforce
  from step y have "hooks.held_ok fl1 w1 \<and> hstep\<^sup>*\<^sup>* (hook_rows w) (hook_rows w1)" by simp
  moreover from step(2) y hook_step_held this
  have "hooks.held_ok fl' w' \<and> hstep\<^sup>*\<^sup>* (hook_rows w1) (hook_rows w')" by blast
  ultimately show ?case by (auto intro: rtranclp_trans)
qed

lemma no_deliveries_held: "st_deliveries (hw_store w) = [] \<Longrightarrow> hooks.held_ok [] w"
  by (simp add: hooks.held_ok_def hook_ok_def hook_rows_def deliveries_ok_def drow_of_def hrows_ok_def)

text \<open>
  C21. However many dispatchers run, publish and crash, and whatever the database, the resolvers
  and the endpoints do: no delivery is in two hands, one in hand is marked as delivering with the
  attempt it was claimed for, no delivery is claimed more than eight times, and one that was
  delivered or given up stays as it is for ever.
\<close>

theorem webhook_deliveries_bounded:
  assumes "st_deliveries (hw_store w0) = []" "hook_run L (w0, []) (w, fl)" "hook_run L (w, fl) (w', fl')"
  shows "distinct (map pd_id fl)
     \<and> (\<forall>c \<in> set fl. drow_of (hw_store w) (pd_id c) = Some (DDelivering, pd_attempts c))
     \<and> (\<forall>i st n. drow_of (hw_store w) i = Some (st, n) \<longrightarrow> n \<le> MaxWebhookTries
          \<and> (st = DDelivered \<or> st = DFailed \<longrightarrow> drow_of (hw_store w') i = Some (st, n)))"
proof -
  from hook_run_held [OF assms(2) no_deliveries_held [OF assms(1)]] have h: "hooks.held_ok fl w" by blast
  from hook_run_held [OF assms(3) h] have "hstep\<^sup>*\<^sup>* (hook_rows w) (hook_rows w')" by blast
  then have fin: "hook_rows w' i = Some (st, n)" if "hook_rows w i = Some (st, n)" "st = DDelivered \<or> st = DFailed" for i st n
    using hsteps_final that by blast
  have "n \<le> MaxWebhookTries" if "hook_rows w i = Some (st, n)" for i st n
    using h hrows_okD [of "hook_rows w" i "(st, n)"] that by (auto simp: hooks.held_ok_def hrow_ok_def)
  with h fin show ?thesis by (auto simp: hooks.held_ok_def hook_rows_def)
qed

definition sample_hook_world :: hook_world where
  "sample_hook_world = \<lparr>hw_store = sample_hooks, hw_traffic = \<lparr>tr_dns = [], tr_replies = [], tr_reached = []\<rparr>, hw_clock = 0\<rparr>"

definition sample_hook_claim :: "(go_error + pending_delivery list) \<times> hook_world" where
  "sample_hook_claim = hq_claim (di_queue (store_dispatcher sample_lib)) webhookBatch webhookLock
     (snd (in_store (EnqueueDelivery sample_lib ''e1'' ''m1'' ''{}'') sample_hook_world))"

lemma sample_hook_run:
  "hook_run sample_lib (sample_hook_world, []) (snd sample_hook_claim, items (fst sample_hook_claim))"
proof -
  let ?w = "snd (in_store (EnqueueDelivery sample_lib ''e1'' ''m1'' ''{}'') sample_hook_world)"
  have "hook_step sample_lib (sample_hook_world, []) (?w, [])" by (rule hook_step.publish)
  moreover have "hook_step sample_lib (?w, []) (snd sample_hook_claim, [] @ items (fst sample_hook_claim))"
    unfolding sample_hook_claim_def by (rule hook_step.claim) simp
  ultimately show ?thesis unfolding hook_run_def by (simp add: converse_rtranclp_into_rtranclp)
qed

lemma sample_no_deliveries: "st_deliveries (hw_store sample_hook_world) = []"
  by code_simp

lemma sample_hook_items: "map pd_id (items (fst sample_hook_claim)) = [1]"
  by code_simp

lemma webhook_deliveries_bounded_witness:
  "map pd_id (items (fst sample_hook_claim)) = [1]
   \<and> list_all (\<lambda>c. drow_of (hw_store (snd sample_hook_claim)) (pd_id c) = Some (DDelivering, pd_attempts c))
        (items (fst sample_hook_claim))"
proof -
  have "hook_run sample_lib (snd sample_hook_claim, items (fst sample_hook_claim))
      (snd sample_hook_claim, items (fst sample_hook_claim))" by (simp add: hook_run_def)
  from webhook_deliveries_bounded [OF sample_no_deliveries sample_hook_run this] sample_hook_items
  show ?thesis unfolding list_all_iff by blast
qed

text \<open>A delivery nobody holds any more.\<close>

lemma hook_step_lost:
  assumes "hook_step L (w, fl) (w', fl')" "hooks.held_ok fl w"
    and i: "hook_rows w i = Some (DDelivering, n)" "i \<notin> pd_id ` set fl"
  shows "hook_rows w' i = Some (DDelivering, n) \<and> i \<notin> pd_id ` set fl'"
  using assms(1)
proof cases
  case (publish e m p)
  have "deliveries_ok (hw_store w)" using assms(2) by (simp add: hooks.held_ok_def hook_ok_def)
  from EnqueueDelivery_rows [OF this, of L e m p] i show ?thesis
    unfolding publish by (simp add: hook_rows_def arrivals_def)
next
  case (claim r)
  have ok: "hook_ok w" using assms(2) by (simp add: hooks.held_ok_def)
  from hooks.claim_law [OF ok claim(2)] obtain ids where l: "\<forall>i \<in> set ids. \<exists>n. hook_rows w i = Some (DPending, n)"
      "hook_rows w' = htaken ids (hook_rows w)"
    and cs: "\<forall>cs. r = Inr cs \<longrightarrow> set (map pd_id cs) = set ids" by blast
  have no: "i \<notin> set ids" using l(1) i(1) by auto
  then have "i \<notin> pd_id ` set (items r)" using cs by (cases r) (auto simp: items_def)
  with no l(2) i claim(1) show ?thesis by (auto simp: htaken_def)
next
  case (dispatch c)
  have ok: "hook_ok w" using assms(2) by (simp add: hooks.held_ok_def)
  from i(2) dispatch have "pd_id c \<noteq> i" by auto
  moreover have "set (remove1 c fl) \<subseteq> set fl" by (rule set_remove1_subset)
  ultimately show ?thesis using hooks.dispatch_effect [OF ok, of L c] i dispatch by (auto simp: hmoved_def)
next
  case (crash P)
  with i show ?thesis by auto
next
  case (environment t f dns replies clock)
  with i show ?thesis by (simp add: hook_rows_def drow_of_def)
qed

text \<open>
  C38. A delivery that was claimed and is in nobody's hands (its dispatcher crashed, or the
  outcome could not be recorded) stays marked as delivering for ever and is never claimed again:
  the expiry of its lock has no effect.
\<close>

theorem lost_delivery_is_never_retried:
  assumes "st_deliveries (hw_store w0) = []" "hook_run L (w0, []) (w, fl)"
    and "drow_of (hw_store w) i = Some (DDelivering, n)" "i \<notin> pd_id ` set fl"
    and "hook_run L (w, fl) (w', fl')"
  shows "drow_of (hw_store w') i = Some (DDelivering, n) \<and> i \<notin> pd_id ` set fl'"
  using assms(5) unfolding hook_run_def
proof (induction "(w', fl')" arbitrary: w' fl' rule: rtranclp_induct)
  case base
  then show ?case using assms(3,4) by simp
next
  case (step y)
  obtain w1 fl1 where y: "y = (w1, fl1)" by fastforce
  have "hook_run L (w0, []) (w1, fl1)" using assms(2) step(1) y unfolding hook_run_def by simp
  from hook_run_held [OF this no_deliveries_held [OF assms(1)]] have "hooks.held_ok fl1 w1" by blast
  from hook_step_lost [OF step(2) [unfolded y] this] step(3) [OF y] show ?case by (simp add: hook_rows_def)
qed

lemma lost_delivery_is_never_retried_witness:
  "drow_of (hw_store ((snd sample_hook_claim)\<lparr>hw_store := (hw_store (snd sample_hook_claim))
      \<lparr>st_now := 100 * Hour, st_fates := []\<rparr>, hw_traffic := (hw_traffic (snd sample_hook_claim))
      \<lparr>tr_dns := [], tr_replies := []\<rparr>, hw_clock := 100 * Hour\<rparr>)) 1 = Some (DDelivering, 1)"
proof -
  have crash: "hook_run sample_lib (sample_hook_world, []) (snd sample_hook_claim, filter (\<lambda>_. False) (items (fst sample_hook_claim)))"
    using sample_hook_run hook_step.crash [of sample_lib "snd sample_hook_claim" "items (fst sample_hook_claim)" "\<lambda>_. False"]
    unfolding hook_run_def by (rule rtranclp.rtrancl_into_rtrancl)
  have row: "drow_of (hw_store (snd sample_hook_claim)) 1 = Some (DDelivering, 1)" by code_simp
  from lost_delivery_is_never_retried [OF sample_no_deliveries crash row _ r_into_rtranclp [of "hook_step sample_lib",
      OF hook_step.environment, folded hook_run_def]]
  show ?thesis by simp
qed

end
