(* ===== verification/Domain_Check.thy ===== *)
theory Domain_Check
  imports Store_Admin
begin

text \<open>
  Package dnsverify, internal/dnsverify/dnsverify.go, and the DomainChecker of
  internal/worker/webhooks.go: a sender proves with a TXT record that it controls its domain, and
  the proof is looked up again every day.
\<close>

section \<open>Model\<close>

definition RecordPrefix :: bytes where "RecordPrefix = ''_aiemail.''"

text \<open>What LookupTXT returns: records, a DNS error that says the name does not exist, another error.\<close>

datatype dns_answer = Records "bytes list" | NotFound bytes | LookupError bytes

datatype proof_error = ErrNoRecord | ErrMismatch | ErrLookupFail bytes

definition proof_name :: "golib \<Rightarrow> bytes \<Rightarrow> bytes" where
  "proof_name L domain = RecordPrefix @ TrimSuffix (ToLower L domain) ''.''"

text \<open>Verifier.Verify: None when the proof holds. The resolver is a function of the name.\<close>

definition dns_Verify :: "golib \<Rightarrow> (bytes \<Rightarrow> dns_answer) \<Rightarrow> bytes \<Rightarrow> bytes \<Rightarrow> proof_error option" where
  "dns_Verify L resolver domain expected =
     (if TrimSpace domain = [] \<or> TrimSpace expected = [] then Some ErrMismatch
      else case resolver (proof_name L domain) of
        NotFound e \<Rightarrow> Some ErrNoRecord
      | LookupError e \<Rightarrow> Some (ErrLookupFail e)
      | Records records \<Rightarrow>
          if records = [] then Some ErrNoRecord
          else if list_ex (\<lambda>record. TrimSpace record = expected) records then None
          else Some ErrMismatch)"

definition Recheckable :: "proof_error \<Rightarrow> bool" where
  "Recheckable e = (case e of ErrLookupFail t \<Rightarrow> True | _ \<Rightarrow> False)"

definition domainRecheckInterval :: duration where "domainRecheckInterval = 24 * Hour"
definition domainBatch :: nat where "domainBatch = 50"

record 's domain_store =
  ds_due :: "duration \<Rightarrow> nat \<Rightarrow> 's \<Rightarrow> (go_error + domain_proof list) \<times> 's"
  ds_verified :: "int \<Rightarrow> 's \<Rightarrow> (go_error + unit) \<times> 's"
  ds_suspend :: "int \<Rightarrow> 's \<Rightarrow> (go_error + unit) \<times> 's"
  ds_touch :: "int \<Rightarrow> 's \<Rightarrow> (go_error + unit) \<times> 's"

definition check_domain ::
  "'s domain_store \<Rightarrow> (bytes \<Rightarrow> bytes \<Rightarrow> proof_error option) \<Rightarrow> domain_proof \<Rightarrow> 's \<Rightarrow> 's" where
  "check_domain st verify domain s =
     (case verify (dp_name domain) (dp_token domain) of
        None \<Rightarrow> snd (ds_verified st (dp_id domain) s)
      | Some e \<Rightarrow>
          if Recheckable e then snd (ds_touch st (dp_id domain) s)
          else snd (ds_suspend st (dp_id domain) s))"

definition checker_tick ::
  "'s domain_store \<Rightarrow> (bytes \<Rightarrow> bytes \<Rightarrow> proof_error option) \<Rightarrow> 's \<Rightarrow> go_error option \<times> 's" where
  "checker_tick st verify s =
     (case ds_due st domainRecheckInterval domainBatch s of
        (Inl e, s1) \<Rightarrow> (Some e, s1)
      | (Inr ds, s1) \<Rightarrow> (None, fold (check_domain st verify) ds s1))"

definition store_domains :: "store domain_store" where
  "store_domains = \<lparr>ds_due = DomainsDueForRecheck, ds_verified = MarkDomainVerified,
     ds_suspend = SuspendDomain, ds_touch = TouchDomainCheck\<rparr>"

section \<open>Verification\<close>

text \<open>
  A domain is proved exactly when its name and token are not blank and one of the TXT records
  under the proof name is the token, up to surrounding white space. The error tells a missing
  record from a resolver that failed, and only the latter may be looked up again without
  consequence.
\<close>

theorem dns_Verify_iff:
  "(dns_Verify L resolver domain expected = None \<longleftrightarrow>
      TrimSpace domain \<noteq> [] \<and> TrimSpace expected \<noteq> []
      \<and> (\<exists>rs r. resolver (proof_name L domain) = Records rs \<and> r \<in> set rs \<and> TrimSpace r = expected))
   \<and> ((\<exists>e. dns_Verify L resolver domain expected = Some e \<and> Recheckable e) \<longleftrightarrow>
      TrimSpace domain \<noteq> [] \<and> TrimSpace expected \<noteq> []
      \<and> (\<exists>t. resolver (proof_name L domain) = LookupError t))"
  by (auto simp: dns_Verify_def Recheckable_def list_ex_iff split: dns_answer.splits)

section \<open>What the checker relies on\<close>

locale domain_registry =
  fixes st :: "'s domain_store" and ok :: "'s \<Rightarrow> bool" and trust :: "'s \<Rightarrow> int \<Rightarrow> domain_status option"
    and name_of :: "'s \<Rightarrow> int \<Rightarrow> bytes \<times> bytes"
  assumes due_law:
      "ok s \<Longrightarrow> ds_due st age limit s = (r, s') \<Longrightarrow>
         ok s' \<and> trust s' = trust s \<and> name_of s' = name_of s
         \<and> (\<forall>ds. r = Inr ds \<longrightarrow> distinct (map dp_id ds) \<and> length ds \<le> limit
              \<and> (\<forall>d \<in> set ds. trust s (dp_id d) = Some (dp_status d) \<and> dp_status d \<noteq> Suspended
                   \<and> name_of s (dp_id d) = (dp_name d, dp_token d)))"
    and verified_law:
      "ok s \<Longrightarrow> ds_verified st i s = (a, s') \<Longrightarrow>
         ok s' \<and> name_of s' = name_of s
         \<and> (trust s' = (trust s)(i := map_option (\<lambda>_. Verified) (trust s i)) \<or> isl a \<and> trust s' = trust s)"
    and suspend_law:
      "ok s \<Longrightarrow> ds_suspend st i s = (a, s') \<Longrightarrow>
         ok s' \<and> name_of s' = name_of s
         \<and> (trust s' = (trust s)(i := map_option (\<lambda>_. Suspended) (trust s i)) \<or> isl a \<and> trust s' = trust s)"
    and touch_law:
      "ok s \<Longrightarrow> ds_touch st i s = (a, s') \<Longrightarrow> ok s' \<and> name_of s' = name_of s \<and> trust s' = trust s"
begin

text \<open>What one check may do to the trust in a domain.\<close>

definition judged :: "(bytes \<Rightarrow> bytes \<Rightarrow> proof_error option) \<Rightarrow> 's \<Rightarrow> int \<Rightarrow> domain_status option \<Rightarrow> bool" where
  "judged verify s i t \<longleftrightarrow>
     t = trust s i
     \<or> (\<exists>n k. name_of s i = (n, k)
          \<and> (verify n k = None \<and> t = Some Verified
             \<or> (\<exists>e. verify n k = Some e \<and> \<not> Recheckable e) \<and> t = Some Suspended))"

lemma check_domain_effect:
  assumes s: "ok s" and n: "name_of s (dp_id d) = (dp_name d, dp_token d)"
  shows "ok (check_domain st verify d s) \<and> name_of (check_domain st verify d s) = name_of s
    \<and> (\<forall>i. i \<noteq> dp_id d \<longrightarrow> trust (check_domain st verify d s) i = trust s i)
    \<and> (trust s (dp_id d) = None \<or> judged verify s (dp_id d) (trust (check_domain st verify d s) (dp_id d)))"
proof (cases "verify (dp_name d) (dp_token d)")
  case None
  obtain a s' where q: "ds_verified st (dp_id d) s = (a, s')" by fastforce
  with None have "check_domain st verify d s = s'" by (simp add: check_domain_def)
  with verified_law [OF s q] n None show ?thesis by (auto simp: judged_def)
next
  case (Some e)
  show ?thesis
  proof (cases "Recheckable e")
    case True
    obtain a s' where q: "ds_touch st (dp_id d) s = (a, s')" by fastforce
    with Some True have "check_domain st verify d s = s'" by (simp add: check_domain_def)
    with touch_law [OF s q] show ?thesis by (auto simp: judged_def)
  next
    case False
    obtain a s' where q: "ds_suspend st (dp_id d) s = (a, s')" by fastforce
    with Some False have "check_domain st verify d s = s'" by (simp add: check_domain_def)
    with suspend_law [OF s q] n Some False show ?thesis by (auto simp: judged_def)
  qed
qed

lemma check_all_effect:
  assumes "ok s" "distinct (map dp_id ds)" "\<forall>d \<in> set ds. name_of s (dp_id d) = (dp_name d, dp_token d)"
  shows "ok (fold (check_domain st verify) ds s) \<and> name_of (fold (check_domain st verify) ds s) = name_of s
    \<and> (\<forall>i. i \<notin> dp_id ` set ds \<longrightarrow> trust (fold (check_domain st verify) ds s) i = trust s i)
    \<and> (\<forall>i \<in> dp_id ` set ds. trust s i = None \<or> judged verify s i (trust (fold (check_domain st verify) ds s) i))"
  using assms
proof (induction ds arbitrary: s)
  case (Cons d ds)
  let ?s = "check_domain st verify d s"
  have n: "name_of s (dp_id d) = (dp_name d, dp_token d)" using Cons.prems(3) by simp
  note e = check_domain_effect [OF Cons.prems(1) n, of verify]
  have nm: "name_of ?s = name_of s" using e by blast
  have "\<forall>d \<in> set ds. name_of ?s (dp_id d) = (dp_name d, dp_token d)" using Cons.prems(3) by (simp add: nm)
  moreover have "ok ?s" using e by blast
  ultimately have ih: "ok (fold (check_domain st verify) ds ?s)" "name_of (fold (check_domain st verify) ds ?s) = name_of ?s"
    "\<forall>i. i \<notin> dp_id ` set ds \<longrightarrow> trust (fold (check_domain st verify) ds ?s) i = trust ?s i"
    "\<forall>i \<in> dp_id ` set ds. trust ?s i = None \<or> judged verify ?s i (trust (fold (check_domain st verify) ds ?s) i)"
    using Cons.IH [of ?s] Cons.prems(2) by auto
  have d: "dp_id d \<notin> dp_id ` set ds" using Cons.prems(2) by simp
  have same: "trust ?s i = trust s i" if "i \<in> dp_id ` set ds" for i
  proof -
    from that d have "i \<noteq> dp_id d" by blast
    then show ?thesis using e by blast
  qed
  have "trust s i = None \<or> judged verify s i (trust (fold (check_domain st verify) ds ?s) i)" if "i \<in> dp_id ` set ds" for i
  proof -
    have "trust ?s i = None \<or> judged verify ?s i (trust (fold (check_domain st verify) ds ?s) i)"
      using ih(4) that by (rule bspec)
    then show ?thesis unfolding judged_def same [OF that] nm .
  qed
  moreover have "trust (fold (check_domain st verify) ds ?s) (dp_id d) = trust ?s (dp_id d)" using ih(3) d by blast
  ultimately show ?case using ih(1-3) e nm by auto
qed simp

lemma checker_tick_effect:
  assumes s: "ok s" and t: "checker_tick st verify s = (r, s')"
  shows "ok s' \<and> name_of s' = name_of s
    \<and> (\<forall>i x. trust s i = Some x \<longrightarrow> (x = Suspended \<longrightarrow> trust s' i = Some x) \<and> judged verify s i (trust s' i))
    \<and> (\<forall>i. trust s i = None \<longrightarrow> trust s' i = None)"
proof -
  obtain a s1 where q: "ds_due st domainRecheckInterval domainBatch s = (a, s1)" by fastforce
  note l = due_law [OF s q]
  show ?thesis
  proof (cases a)
    case (Inl e)
    with t q have "s' = s1" by (simp add: checker_tick_def)
    with l show ?thesis by (auto simp: judged_def)
  next
    case (Inr ds)
    with t q have s': "s' = fold (check_domain st verify) ds s1" by (simp add: checker_tick_def)
    have ds: "distinct (map dp_id ds)" "\<forall>d \<in> set ds. name_of s1 (dp_id d) = (dp_name d, dp_token d)"
      "\<forall>d \<in> set ds. trust s (dp_id d) \<noteq> None \<and> trust s (dp_id d) \<noteq> Some Suspended"
      and same: "trust s1 = trust s" "name_of s1 = name_of s" and ok1: "ok s1"
      using l Inr by auto
    note f = check_all_effect [OF ok1 ds(1,2), of verify, folded s']
    have "trust s' i = Some Suspended" if "trust s i = Some Suspended" for i
    proof -
      have "i \<notin> dp_id ` set ds" using ds(3) that by auto
      then show ?thesis using f that same by simp
    qed
    moreover have "judged verify s i (trust s' i)" if "trust s i = Some x" for i x
      using f that same by (cases "i \<in> dp_id ` set ds") (auto simp: judged_def)
    moreover have "trust s' i = None" if "trust s i = None" for i
    proof -
      have "i \<notin> dp_id ` set ds" using ds(3) that by auto
      then show ?thesis using f that same by simp
    qed
    ultimately show ?thesis using f same by auto
  qed
qed

end

section \<open>The store is such a registry\<close>

definition domains_ok :: "store \<Rightarrow> bool" where "domains_ok s \<longleftrightarrow> distinct (map d_id (st_domains s))"

definition domain_trust :: "store \<Rightarrow> int \<Rightarrow> domain_status option" where
  "domain_trust s i = map_option d_status (List.find (\<lambda>d. d_id d = i) (st_domains s))"

definition domain_claim :: "store \<Rightarrow> int \<Rightarrow> bytes \<times> bytes" where
  "domain_claim s i =
     (case List.find (\<lambda>d. d_id d = i) (st_domains s) of None \<Rightarrow> ([], []) | Some d \<Rightarrow> (d_name d, d_token d))"


lemma due_domains_rows:
  "\<exists>ds. due_domains age limit s = map (\<lambda>d. \<lparr>dp_id = d_id d, dp_name = d_name d, dp_token = d_token d, dp_status = d_status d\<rparr>) ds
     \<and> set ds \<subseteq> set (st_domains s) \<and> (\<forall>d \<in> set ds. d_status d \<noteq> Suspended) \<and> length ds \<le> limit
     \<and> (distinct (map d_id (st_domains s)) \<longrightarrow> distinct (map d_id ds))"
proof -
  let ?due = "filter (recheck_due age (st_now s)) (st_domains s)"
  let ?all = "filter (\<lambda>d. d_last_checked_at d = None) ?due
    @ sort_key (\<lambda>d. the (d_last_checked_at d)) (filter (\<lambda>d. d_last_checked_at d \<noteq> None) ?due)"
  have sub: "set (take limit ?all) \<subseteq> set (st_domains s)" by (auto dest!: in_set_takeD)
  have st: "\<forall>d \<in> set (take limit ?all). d_status d \<noteq> Suspended"
    by (auto simp: recheck_due_def dest!: in_set_takeD)
  have "distinct (map d_id (take limit ?all))" if "distinct (map d_id (st_domains s))"
  proof -
    have "distinct ?all" using that by (auto simp: distinct_map)
    moreover have "inj_on d_id (set ?all)" using that by (auto simp: distinct_map inj_on_def)
    ultimately have "distinct (map d_id ?all)" unfolding distinct_map by blast
    then show ?thesis unfolding take_map [symmetric] by (rule distinct_take)
  qed
  with sub st show ?thesis
    by (intro exI [of _ "take limit ?all"]) (simp add: due_domains_def Let_def)
qed

lemma set_domain_law:
  assumes f: "\<And>now d. d_id (f now d) = d_id d" "\<And>now d. d_name (f now d) = d_name d" "\<And>now d. d_token (f now d) = d_token d"
    and g: "\<And>now d. d_status (f now d) = g (d_status d)"
    and ok: "domains_ok s" and r: "run_wrapped what [] (stmt_update (set_domain i f)) s = (a, s')"
  shows "domains_ok s' \<and> domain_claim s' = domain_claim s
    \<and> (domain_trust s' = (domain_trust s)(i := map_option g (domain_trust s i)) \<or> isl a \<and> domain_trust s' = domain_trust s)"
proof -
  have tail: "domain_claim (tail_fates s) = domain_claim s" "domain_trust (tail_fates s) = domain_trust s"
    "domains_ok (tail_fates s) = domains_ok s"
    by (simp_all add: domain_claim_def domain_trust_def domains_ok_def fun_eq_iff)
  let ?t = "set_domain i f (tail_fates s)"
  have find: "List.find (\<lambda>d. d_id d = j) (st_domains ?t)
      = map_option (\<lambda>d. if d_id d = i then f (st_now s) d else d) (List.find (\<lambda>d. d_id d = j) (st_domains s))" for j
    unfolding set_domain_def by (simp add: find_update_where f)
  have "domains_ok ?t" using ok by (simp add: domains_ok_def set_domain_def map_update_where f)
  moreover have "domain_claim ?t = domain_claim s"
    unfolding domain_claim_def find fun_eq_iff by (auto simp: f split: option.splits)
  moreover have "domain_trust ?t = (domain_trust s)(i := map_option g (domain_trust s i))"
    unfolding domain_trust_def find fun_eq_iff
    by (auto simp: g option.map_comp find_Some_iff intro!: option.map_cong0 dest!: find_SomeD split: option.splits)
  ultimately show ?thesis
    using r ok tail
    by (cases rule: run_wrapped_cases [of what "[]" "stmt_update (set_domain i f)" s]) (auto simp: stmt_update_def)
qed

lemma domain_tail [simp]:
  "domain_claim (tail_fates s) = domain_claim s" "domain_trust (tail_fates s) = domain_trust s"
  "domains_ok (tail_fates s) = domains_ok s"
  by (simp_all add: domain_claim_def domain_trust_def domains_ok_def fun_eq_iff)

lemma due_law_store:
  assumes ok: "domains_ok s" and q: "DomainsDueForRecheck age limit s = (r, s')"
  shows "domains_ok s' \<and> domain_trust s' = domain_trust s \<and> domain_claim s' = domain_claim s
    \<and> (\<forall>ds. r = Inr ds \<longrightarrow> distinct (map dp_id ds) \<and> length ds \<le> limit
         \<and> (\<forall>d \<in> set ds. domain_trust s (dp_id d) = Some (dp_status d) \<and> dp_status d \<noteq> Suspended
              \<and> domain_claim s (dp_id d) = (dp_name d, dp_token d)))"
proof -
  have s': "s' = tail_fates s" using q snd_query unfolding DomainsDueForRecheck_def by (metis snd_conv)
  have "distinct (map dp_id ds) \<and> length ds \<le> limit
         \<and> (\<forall>d \<in> set ds. domain_trust s (dp_id d) = Some (dp_status d) \<and> dp_status d \<noteq> Suspended
              \<and> domain_claim s (dp_id d) = (dp_name d, dp_token d))" if "r = Inr ds" for ds
  proof -
    have "ds = due_domains age limit (tail_fates s)"
      using q that unfolding DomainsDueForRecheck_def by (auto dest: query_InrD)
    with due_domains_rows [of age limit "tail_fates s"] ok obtain rows where
      rows: "ds = map (\<lambda>d. \<lparr>dp_id = d_id d, dp_name = d_name d, dp_token = d_token d, dp_status = d_status d\<rparr>) rows"
        "set rows \<subseteq> set (st_domains s)" "\<forall>d \<in> set rows. d_status d \<noteq> Suspended" "length rows \<le> limit"
        "distinct (map d_id rows)"
      by (auto simp: domains_ok_def)
    have "domain_trust s (d_id d) = Some (d_status d) \<and> domain_claim s (d_id d) = (d_name d, d_token d)"
      if "d \<in> set rows" for d
      using find_unique [of d_id "st_domains s" d] ok that rows(2)
      by (auto simp: domain_trust_def domain_claim_def domains_ok_def)
    with rows show ?thesis by (auto simp: comp_def)
  qed
  with s' ok show ?thesis by simp
qed

interpretation trust: domain_registry store_domains domains_ok domain_trust domain_claim
proof
  fix s age limit r s' assume "domains_ok s" "ds_due store_domains age limit s = (r, s')"
  then show "domains_ok s' \<and> domain_trust s' = domain_trust s \<and> domain_claim s' = domain_claim s
    \<and> (\<forall>ds. r = Inr ds \<longrightarrow> distinct (map dp_id ds) \<and> length ds \<le> limit
         \<and> (\<forall>d \<in> set ds. domain_trust s (dp_id d) = Some (dp_status d) \<and> dp_status d \<noteq> Suspended
              \<and> domain_claim s (dp_id d) = (dp_name d, dp_token d)))"
    by (intro due_law_store) (simp_all add: store_domains_def)
next
  fix s i a s' assume "domains_ok s" "ds_verified store_domains i s = (a, s')"
  then show "domains_ok s' \<and> domain_claim s' = domain_claim s
    \<and> (domain_trust s' = (domain_trust s)(i := map_option (\<lambda>_. Verified) (domain_trust s i)) \<or> isl a \<and> domain_trust s' = domain_trust s)"
    unfolding store_domains_def MarkDomainVerified_def domain_store.simps
    by - (rule set_domain_law; assumption?; simp)
next
  fix s i a s' assume "domains_ok s" "ds_suspend store_domains i s = (a, s')"
  then show "domains_ok s' \<and> domain_claim s' = domain_claim s
    \<and> (domain_trust s' = (domain_trust s)(i := map_option (\<lambda>_. Suspended) (domain_trust s i)) \<or> isl a \<and> domain_trust s' = domain_trust s)"
    unfolding store_domains_def SuspendDomain_def domain_store.simps
    by - (rule set_domain_law; assumption?; simp)
next
  fix s i a s' assume ok: "domains_ok s" and q: "ds_touch store_domains i s = (a, s')"
  have "domains_ok s' \<and> domain_claim s' = domain_claim s
    \<and> (domain_trust s' = (domain_trust s)(i := map_option (\<lambda>x. x) (domain_trust s i)) \<or> isl a \<and> domain_trust s' = domain_trust s)"
    using ok q unfolding store_domains_def TouchDomainCheck_def domain_store.simps
    by - (rule set_domain_law; assumption?; simp)
  then show "domains_ok s' \<and> domain_claim s' = domain_claim s \<and> domain_trust s' = domain_trust s"
    by (auto simp: option.map_ident fun_eq_iff)
qed

section \<open>Properties\<close>


definition sample_domains :: store where
  "sample_domains = sample_store\<lparr>st_now := 30 * Hour\<rparr>"


text \<open>
  A domain that was just registered and has not published its record yet is suspended by the
  first check, and no later check looks at it again.
\<close>

lemma pending_domain_is_suspended:
  "domain_trust (snd (checker_tick store_domains (dns_Verify sample_lib (\<lambda>_. NotFound []))
     (sample_domains\<lparr>st_domains := map (\<lambda>d. d\<lparr>d_status := Pending\<rparr>) (st_domains sample_domains)\<rparr>))) 1
   = Some Suspended"
  by code_simp

text \<open>
  C39. Suspension is final as far as the checker goes: through any number of ticks, with any DNS
  answers and any database faults in between, a suspended domain stays suspended even when its
  record is back, because only verified and pending domains are ever due.
\<close>

theorem suspended_domain_stays:
  assumes "domains_ok s" "domain_trust s i = Some Suspended"
  shows "domain_trust (fold (\<lambda>(f, now, resolver) s.
             snd (checker_tick store_domains (dns_Verify L resolver) (s\<lparr>st_fates := f, st_now := now\<rparr>)))
           days s) i = Some Suspended"
  using assms
proof (induction days arbitrary: s)
  case (Cons day days)
  obtain f now resolver where d: "day = (f, now, resolver)" by (metis prod_cases3)
  let ?s = "s\<lparr>st_fates := f, st_now := now\<rparr>"
  have ok: "domains_ok ?s" "domain_trust ?s i = Some Suspended"
    using Cons.prems by (simp_all add: domains_ok_def domain_trust_def)
  obtain r s' where t: "checker_tick store_domains (dns_Verify L resolver) ?s = (r, s')" by fastforce
  from trust.checker_tick_effect [OF ok(1) t] ok(2) have "domains_ok s'" "domain_trust s' i = Some Suspended" by blast+
  with Cons.IH [of s'] t d show ?case by simp
qed simp

lemma suspended_domain_stays_witness:
  "domain_trust (fold (\<lambda>(f, now, resolver) s.
       snd (checker_tick store_domains (dns_Verify sample_lib resolver) (s\<lparr>st_fates := f, st_now := now\<rparr>)))
     [([], 60 * Hour, \<lambda>_. Records [''tok''])]
     (sample_domains\<lparr>st_domains := map (\<lambda>d. d\<lparr>d_status := Suspended\<rparr>) (st_domains sample_domains)\<rparr>)) 1
   = Some Suspended"
proof (rule suspended_domain_stays)
  show "domains_ok (sample_domains\<lparr>st_domains := map (\<lambda>d. d\<lparr>d_status := Suspended\<rparr>) (st_domains sample_domains)\<rparr>)"
    "domain_trust (sample_domains\<lparr>st_domains := map (\<lambda>d. d\<lparr>d_status := Suspended\<rparr>) (st_domains sample_domains)\<rparr>) 1
      = Some Suspended" by code_simp+
qed

end
