(* ===== verification/Worker_Run.thy ===== *)
theory Worker_Run
  imports Worker_Properties Dispatcher_System Domain_Check
begin

text \<open>
  The loops around the ticks: Worker.Run, Dispatcher.Run and DomainChecker.Run. What the loop
  does not decide itself, whether its context is cancelled and what the rest of the system does
  while it pauses, comes from a list of polls, one for each turn; a loop that has used up its
  polls is still running. The section on the backlog shows what the turns of a worker achieve.
\<close>

section \<open>Model\<close>

text \<open>
  \<open>pl_cancelled\<close>: ctx.Err() after the tick is not nil; \<open>pl_done\<close>: the select takes ctx.Done().
  The two are not tied together: the context may be cancelled between the two looks at it, and a
  select with both channels ready may take either.
\<close>

record 's poll =
  pl_cancelled :: bool
  pl_done :: bool
  pl_pause :: "'s \<Rightarrow> 's"

text \<open>A loop answers whether it returned, the pauses it made and the state.\<close>

fun worker_Run :: "golib \<Rightarrow> 's worker \<Rightarrow> 's poll list \<Rightarrow> 's \<Rightarrow> bool \<times> duration list \<times> 's" where
  "worker_Run L w [] s = (False, [], s)"
| "worker_Run L w (p # ps) s =
     (case tick L w s of
        (r, s1) \<Rightarrow>
          if isl r \<and> pl_cancelled p then (True, [], s1)
          else if pl_done p then (True, [], s1)
          else
            let (stopped, waits, s2) = worker_Run L w ps (pl_pause p s1) in
            (stopped, run_wait r # waits, s2))"

fun dispatcher_Run :: "'s dispatcher \<Rightarrow> 's poll list \<Rightarrow> 's \<Rightarrow> bool \<times> duration list \<times> 's" where
  "dispatcher_Run d [] s = (False, [], s)"
| "dispatcher_Run d (p # ps) s =
     (case dispatcher_tick d s of
        (r, s1) \<Rightarrow>
          if pl_done p then (True, [], s1)
          else
            let (stopped, waits, s2) = dispatcher_Run d ps (pl_pause p s1) in
            (stopped, run_wait r # waits, s2))"

definition checkInterval :: duration where "checkInterval = Hour"

text \<open>The answers of the resolver may change from turn to turn: each comes with its poll.\<close>

fun checker_Run ::
  "'s domain_store \<Rightarrow> ((bytes \<Rightarrow> bytes \<Rightarrow> proof_error option) \<times> 's poll) list \<Rightarrow> 's \<Rightarrow> bool \<times> duration list \<times> 's" where
  "checker_Run st [] s = (False, [], s)"
| "checker_Run st ((verify, p) # ps) s =
     (case checker_tick st verify s of
        (_, s1) \<Rightarrow>
          if pl_done p then (True, [], s1)
          else
            let (stopped, waits, s2) = checker_Run st ps (pl_pause p s1) in
            (stopped, checkInterval # waits, s2))"

section \<open>What a delivery does to the rows\<close>

text \<open>
  From \<open>s\<close> to \<open>s'\<close> only rows of the messages \<open>I\<close> changed, none of them became due, and their
  attempts stayed.
\<close>

definition settled :: "instant \<Rightarrow> bytes set \<Rightarrow> message_row \<Rightarrow> message_row \<Rightarrow> bool" where
  "settled now I m m' \<longleftrightarrow>
     (if m_id m \<in> I
      then m_id m' = m_id m \<and> m_attempts m' = m_attempts m \<and> (due now m' \<longrightarrow> due now m) else m' = m)"

definition settles :: "bytes set \<Rightarrow> store \<Rightarrow> store \<Rightarrow> bool" where
  "settles I s s' \<longleftrightarrow> st_now s' = st_now s \<and> (st_fates s = [] \<longrightarrow> st_fates s' = [])
     \<and> list_all2 (settled (st_now s) I) (st_messages s) (st_messages s')"

lemma settled_refl [simp]: "settled now I m m"
  by (simp add: settled_def)

lemma settled_trans: "settled now I m m' \<Longrightarrow> settled now I m' m'' \<Longrightarrow> settled now I m m''"
  by (auto simp: settled_def split: if_splits)

lemma settled_due: "settled now I m m' \<Longrightarrow> due now m' \<Longrightarrow> due now m"
  by (auto simp: settled_def split: if_splits)

lemma settled_mono: "settled now I m m' \<Longrightarrow> I \<subseteq> J \<Longrightarrow> settled now J m m'"
  by (auto simp: settled_def split: if_splits)

lemma settles_same:
  "st_now s' = st_now s \<Longrightarrow> st_fates s' = tl (st_fates s) \<Longrightarrow> st_messages s' = st_messages s \<Longrightarrow> settles I s s'"
  by (simp add: settles_def list_all2_same)

lemma settles_tail [simp]: "settles I s (tail_fates s)"
  by (rule settles_same) (simp_all add: tail_fates_def)

lemma settles_refl [simp]: "settles I s s"
  by (simp add: settles_def list_all2_same)

lemma settles_trans [trans]: "settles I s t \<Longrightarrow> settles I t u \<Longrightarrow> settles I s u"
  unfolding settles_def using list_all2_trans [of "settled (st_now s) I", OF settled_trans] by auto

lemma settles_mono: "settles I s t \<Longrightarrow> I \<subseteq> J \<Longrightarrow> settles J s t"
  unfolding settles_def by (auto elim: list_all2_mono settled_mono)

lemma settles_update:
  assumes "\<And>m. m_id (f m) = m_id m \<and> m_attempts (f m) = m_attempts m \<and> (due (st_now s) (f m) \<longrightarrow> due (st_now s) m)"
    and "st_now s' = st_now s" "st_fates s' = tl (st_fates s)"
    and "st_messages s' = update_where (\<lambda>m. m_id m = i) f (st_messages s)"
  shows "settles {i} s s'"
  using assms by (auto simp: settles_def update_where_def list_all2_map2 list_all2_same settled_def)

lemma tail_fates_tl [simp]: "st_fates (tail_fates s) = tl (st_fates s)"
  by (simp add: tail_fates_def)

lemma RecordEvent_settles: "settles I s (snd (RecordEvent i event detail s))"
  unfolding RecordEvent_def
  by (rule run_wrapped_rel)
     (auto simp: insert_event_def nextval_def Let_def intro!: settles_same split: option.splits if_splits)

lemma mark_settles:
  assumes "\<And>m. m_id (h (st_now s) m) = m_id m \<and> m_attempts (h (st_now s) m) = m_attempts m
      \<and> \<not> due (st_now s) (h (st_now s) m)"
  shows "settles {i} s (snd (mark what texts h i event detail s))"
proof -
  let ?upd = "\<lambda>s. s\<lparr>st_messages := update_where (\<lambda>m. m_id m = i) (h (st_now s)) (st_messages s)\<rparr>"
  obtain r t where t: "run_wrapped what texts (stmt_update ?upd) s = (r, t)" by fastforce
  have "settles {i} s (snd (run_wrapped what texts (stmt_update ?upd) s))"
  proof (rule run_wrapped_rel)
    fix a s' assume "stmt_update ?upd (tail_fates s) = Inr (a, s')"
    then show "settles {i} s s'"
      by (intro settles_update [where f = "h (st_now s)"]) (auto simp: stmt_update_def assms)
  qed simp
  with t have "settles {i} s t" by simp
  then show ?thesis
    using t settles_trans [OF _ RecordEvent_settles] by (cases r) (simp_all add: mark_def)
qed

lemma marks_settle:
  "settles {i} s (snd (MarkSent i s))" "settles {i} s (snd (MarkFailed i reason s))"
  "st_now s < t \<Longrightarrow> settles {i} s (snd (MarkDeferred i t reason s))"
  unfolding mark_simps
  by (rule mark_settles; simp add: status_row_def defer_row_def due_def)+

lemma fan_out_fates: "st_fates (fan_out e i p ws s) = st_fates s"
  by (induction e i p ws s rule: fan_out.induct) (simp_all add: nextval_def Let_def)

lemma others_settle:
  "settles {i} s (snd (MarkSigned i s))" "settles I s (snd (SigningKeyForMessage i s))"
  "settles I s (snd (Suppress L a r d m s))" "settles I s (snd (EnqueueDelivery L e i p s))"
proof -
  show "settles {i} s (snd (MarkSigned i s))"
    unfolding MarkSigned_def
  proof (rule run_wrapped_rel)
    fix a s' assume "stmt_update (\<lambda>s. s\<lparr>st_messages := update_where (\<lambda>m. m_id m = i)
        (\<lambda>m. m\<lparr>m_signed_at := Some (st_now s)\<rparr>) (st_messages s)\<rparr>) (tail_fates s) = Inr (a, s')"
    then show "settles {i} s s'"
      by (intro settles_update [where f = "\<lambda>m. m\<lparr>m_signed_at := Some (st_now s)\<rparr>"])
         (auto simp: stmt_update_def due_def)
  qed simp
  show "settles I s (snd (SigningKeyForMessage i s))" by (simp add: SigningKeyForMessage_snd)
  show "settles I s (snd (Suppress L a r d m s))"
    unfolding Suppress_def
    by (rule run_wrapped_rel)
       (auto simp: insert_suppression_def nextval_def Let_def intro!: settles_same split: if_splits)
  show "settles I s (snd (EnqueueDelivery L e i p s))"
    unfolding EnqueueDelivery_def
    by (rule run_wrapped_rel)
       (auto simp: insert_deliveries_def Let_def fan_out_quiet fan_out_fates intro!: settles_same
          split: option.splits if_splits)
qed

text \<open>The same on the world of the worker, whose clock and network a delivery does not set back.\<close>

definition world_settles :: "bytes set \<Rightarrow> world \<Rightarrow> world \<Rightarrow> bool" where
  "world_settles I w w' \<longleftrightarrow> settles I (wd_store w) (wd_store w') \<and> wd_clock w' = wd_clock w"

lemma world_settles_refl [simp]: "world_settles I w w"
  by (simp add: world_settles_def)

lemma world_settles_trans [trans]: "world_settles I w x \<Longrightarrow> world_settles I x y \<Longrightarrow> world_settles I w y"
  by (auto simp: world_settles_def intro: settles_trans)

lemma on_store_settles: "settles I (wd_store w) (snd (f (wd_store w))) \<Longrightarrow> world_settles I w (snd (on_store f w))"
  by (auto simp: world_settles_def on_store_def split: prod.splits)

lemma on_store_settlesD:
  "on_store f w = (r, x) \<Longrightarrow> settles I (wd_store w) (snd (f (wd_store w))) \<Longrightarrow> world_settles I w x"
  using on_store_settles by (metis snd_conv)

lemma on_net_settles: "world_settles I w (snd (on_net f w))"
  by (auto simp: world_settles_def on_net_def split: prod.splits)

lemma publish_settles: "world_settles I w (publish L (store_worker L cfg) i ty reason n w)"
  by (simp add: publish_def store_worker_def Let_def on_store_settles others_settle)

lemma fail_settles: "world_settles {c_id msg} w (fail L (store_worker L cfg) msg reason w)"
proof -
  obtain r x where x: "on_store (MarkFailed (c_id msg) reason) w = (r, x)" by fastforce
  then have "world_settles {c_id msg} w x" by (rule on_store_settlesD) (rule marks_settle)
  then show ?thesis
    using x world_settles_trans [OF _ publish_settles] by (cases r) (simp_all add: fail_def store_worker_sel)
qed

lemma suppress_settles: "world_settles I w (suppressIfAddressIsBad L (store_worker L cfg) msg reason w)"
proof -
  have "world_settles I w (fold (\<lambda>r w. snd (on_store (Suppress L r a b c) w)) rs w)" for a b c rs
  proof (induction rs arbitrary: w)
    case (Cons r rs)
    have "world_settles I w (snd (on_store (Suppress L r a b c) w))" by (simp add: on_store_settles others_settle)
    from world_settles_trans [OF this Cons.IH] show ?case by simp
  qed simp
  then show ?thesis by (simp add: suppressIfAddressIsBad_def store_worker_def Let_def)
qed

lemma sign_settles: "world_settles {c_id msg} w (snd (sign L (store_worker L cfg) msg w))"
proof -
  obtain r x where x: "on_store (SigningKeyForMessage (c_id msg)) w = (r, x)" by fastforce
  then have k: "world_settles {c_id msg} w x" by (rule on_store_settlesD) (rule others_settle)
  have "world_settles {c_id msg} w (snd (on_store (MarkSigned (c_id msg)) x))"
    using k by (rule world_settles_trans) (simp add: on_store_settles others_settle)
  with k x show ?thesis
    by (auto simp: sign_def store_worker_def split: sum.splits)
qed

lemma Backoff_pos: "0 < Backoff n"
  unfolding Backoff_min by simp

lemma store_worker_now: "wk_now (store_worker L cfg) = wd_clock"
  by (simp add: store_worker_def)

lemma deliver_settles:
  assumes "st_now (wd_store w) \<le> wd_clock w"
  shows "world_settles {c_id msg} w (deliver L (store_worker L cfg) msg w)"
proof -
  let ?W = "store_worker L cfg" and ?S = "world_settles {c_id msg}"
  obtain r x where x: "sign L ?W msg w = (r, x)" by fastforce
  then have sx: "?S w x" using sign_settles [of msg w L cfg] by simp
  show ?thesis
  proof (cases r)
    case (Inl e)
    then show ?thesis using x world_settles_trans [OF sx fail_settles] by (simp add: deliver_def)
  next
    case (Inr raw)
    obtain resp y where y: "on_net (engine_Send L (wc_engine_url cfg) (post_of L msg raw)) x = (resp, y)" by fastforce
    then have sy: "?S w y" using world_settles_trans [OF sx on_net_settles] by (metis snd_conv)
    then have later: "st_now (wd_store y) < wd_clock y + Backoff n" for n
      using assms Backoff_pos [of n] by (simp add: world_settles_def settles_def)
    have sent: "?S w z" if "on_store (MarkSent (c_id msg)) y = (q, z)" for q z
      by (rule world_settles_trans [OF sy on_store_settlesD [OF that]]) (rule marks_settle)
    have deferred: "?S w z" if "on_store (MarkDeferred (c_id msg) (wd_clock y + Backoff n) reason) y = (q, z)" for n reason q z
      by (rule world_settles_trans [OF sy on_store_settlesD [OF that]]) (rule marks_settle(3) [OF later])
    have failed: "?S w (fail L ?W msg reason z)" if "?S w z" for reason z
      using that fail_settles by (rule world_settles_trans)
    have published: "?S w (publish L ?W i ty reason n z)" if "?S w z" for i ty reason n z
      using that publish_settles by (rule world_settles_trans)
    have d: "deliver L ?W msg w = (case re_result resp of
        EngineSent \<Rightarrow> (case on_store (MarkSent (c_id msg)) y of
           (Inl e, z) \<Rightarrow> z | (Inr _, z) \<Rightarrow> publish L ?W (c_id msg) ''email.sent'' [] (c_attempts msg) z)
      | Temporary \<Rightarrow> if c_attempts msg \<ge> MaxAttempts
          then fail L ?W msg (''gave up after repeated temporary failures: '' @ re_reason resp) y
          else (case on_store (MarkDeferred (c_id msg) (wd_clock y + Backoff (c_attempts msg)) (re_reason resp)) y of
             (Inl e, z) \<Rightarrow> z
           | (Inr _, z) \<Rightarrow> publish L ?W (c_id msg) ''email.deferred'' (re_reason resp) (c_attempts msg) z)
      | Permanent \<Rightarrow> fail L ?W msg (re_reason resp) (suppressIfAddressIsBad L ?W msg (re_reason resp) y))"
      using x y Inr by (cases "re_result resp") (simp_all add: deliver_def store_worker_now)
    show ?thesis
      unfolding d
      by (auto split: engine_result.splits prod.splits sum.splits intro!: failed published
          intro: sy sent deferred world_settles_trans [OF sy suppress_settles])
  qed
qed

section \<open>The backlog\<close>

text \<open>One tick: the batch is tried once and no longer due, every other row stays.\<close>

definition tried :: "instant \<Rightarrow> message_row \<Rightarrow> message_row \<Rightarrow> bool" where
  "tried now m m' \<longleftrightarrow> due now m \<and> m_id m' = m_id m \<and> m_attempts m' = m_attempts m + 1 \<and> \<not> due now m'"

definition backlog :: "store \<Rightarrow> nat" where
  "backlog s = length (filter (due (st_now s)) (st_messages s))"

definition advances :: "nat \<Rightarrow> store \<Rightarrow> store \<Rightarrow> bool" where
  "advances n s s' \<longleftrightarrow> st_now s' = st_now s \<and> st_fates s' = []
     \<and> list_all2 (\<lambda>m m'. m' = m \<or> tried (st_now s) m m') (st_messages s) (st_messages s')
     \<and> backlog s' \<le> backlog s - n"

lemma filter_update_where:
  "(\<And>m. P m \<Longrightarrow> \<not> Q (f m)) \<Longrightarrow> filter Q (update_where P f xs) = filter (\<lambda>m. Q m \<and> \<not> P m) xs"
  by (induction xs) (auto simp: update_where_def)

lemma length_filter_key:
  assumes "distinct (map g xs)" "distinct ids" "set ids \<subseteq> g ` set (filter P xs)"
  shows "length (filter (\<lambda>x. P x \<and> g x \<in> set ids) xs) = length ids"
proof -
  let ?ys = "filter (\<lambda>x. P x \<and> g x \<in> set ids) xs"
  have "distinct (map g ?ys)" using assms(1) by (simp add: distinct_map_filter)
  moreover have "set (map g ?ys) = set ids" using assms(3) by auto
  ultimately show ?thesis using assms(2) by (metis distinct_card length_map)
qed

lemma length_filter_split:
  "length (filter P xs) = length (filter (\<lambda>x. P x \<and> Q x) xs) + length (filter (\<lambda>x. P x \<and> \<not> Q x) xs)"
  by (induction xs) auto

lemma claimed_backlog:
  assumes "messages_ok s"
  shows "length (filter (due (st_now s)) (claimed_rows limit lockFor s)) = backlog s - limit"
proof -
  let ?ids = "set (claim_ids limit s)" and ?d = "due (st_now s)"
  have "filter ?d (claimed_rows limit lockFor s) = filter (\<lambda>m. ?d m \<and> m_id m \<notin> ?ids) (st_messages s)"
    unfolding claimed_rows_def by (rule filter_update_where) (simp add: claim_row_def due_def)
  moreover have "length (filter (\<lambda>m. ?d m \<and> m_id m \<in> ?ids) (st_messages s)) = length (claim_ids limit s)"
    using messages_okD(1) [OF assms] distinct_claim_ids [OF assms]
    by (rule length_filter_key) (auto simp: claim_ids_batch dest: claim_batch_due)
  ultimately show ?thesis
    using length_filter_split [of ?d "st_messages s" "\<lambda>m. m_id m \<in> ?ids"]
    by (simp add: claim_ids_batch length_claim_batch backlog_def)
qed

lemma length_filter_list_all2:
  assumes "list_all2 R xs ys" "\<And>x y. R x y \<Longrightarrow> P y \<Longrightarrow> P x"
  shows "length (filter P ys) \<le> length (filter P xs)"
  using assms(1) by (induction rule: list_all2_induct) (use assms(2) in auto)

text \<open>The claim of a tick below the ceiling, with a database that answers.\<close>

definition batch_tried :: "instant \<Rightarrow> bytes list \<Rightarrow> message_row \<Rightarrow> message_row \<Rightarrow> bool" where
  "batch_tried now ids m m' \<longleftrightarrow> (if m_id m \<in> set ids then tried now m m' else m' = m)"

lemma batch_tried_settled:
  "batch_tried now ids m m' \<Longrightarrow> settled now I m' m'' \<Longrightarrow> I \<subseteq> set ids \<Longrightarrow> batch_tried now ids m m''"
  by (auto simp: batch_tried_def settled_def tried_def split: if_splits)

lemma claim_tries:
  assumes "messages_ok s" "st_fates s = []"
  obtains r where "ClaimMessages L limit lockFor s = (r, s\<lparr>st_messages := claimed_rows limit lockFor s\<rparr>)"
    "list_all2 (batch_tried (st_now s) (claim_ids limit s)) (st_messages s) (claimed_rows limit lockFor s)"
    "c_id ` set (claims r) \<subseteq> set (claim_ids limit s)"
proof -
  let ?rows = "filter (\<lambda>m. m_id m \<in> set (claim_ids limit s)) (claimed_rows limit lockFor s)"
  have t: "tail_fates s = s" using assms(2) by (simp add: tail_fates_def)
  have c: "ClaimMessages L limit lockFor s
      = (read_claimed L (st_keeper s) ?rows, s\<lparr>st_messages := claimed_rows limit lockFor s\<rparr>)"
    using claim_update_eq [of limit lockFor s] assms(2)
    by (simp add: ClaimMessages_def run_wrapped_answering t)
  have "due (st_now s) m" if "m \<in> set (st_messages s)" "m_id m \<in> set (claim_ids limit s)" for m
    using in_batch_iff [OF assms(1) that(1)] that(2) claim_batch_due by blast
  then have "list_all2 (batch_tried (st_now s) (claim_ids limit s)) (st_messages s) (claimed_rows limit lockFor s)"
    by (auto simp: claimed_rows_def update_where_def list_all2_map2 list_all2_same batch_tried_def tried_def
        claim_row_def due_def)
  moreover have "c_id ` set (claims (read_claimed L (st_keeper s) ?rows)) \<subseteq> set (claim_ids limit s)"
  proof (cases "read_claimed L (st_keeper s) ?rows")
    case (Inr cs)
    then have "set (map c_id cs) = set (map m_id ?rows)" using read_claimed_InrD by metis
    with Inr show ?thesis by auto
  qed simp
  ultimately show thesis using that c by blast
qed

lemma deliveries_settle:
  assumes "st_now (wd_store w) \<le> wd_clock w"
  shows "world_settles (c_id ` set cs) w (fold (deliver L (store_worker L cfg)) cs w)"
  using assms
proof (induction cs arbitrary: w)
  case (Cons c cs)
  let ?w = "deliver L (store_worker L cfg) c w"
  have d: "world_settles {c_id c} w ?w" using Cons.prems by (rule deliver_settles)
  then have "st_now (wd_store ?w) \<le> wd_clock ?w" using Cons.prems by (simp add: world_settles_def settles_def)
  from Cons.IH [OF this] d show ?case
    by (auto simp: world_settles_def intro: settles_trans settles_mono)
qed simp

lemma tick_advances:
  assumes "messages_ok (wd_store w)" "st_fates (wd_store w) = []" "st_now (wd_store w) \<le> wd_clock w"
    and "0 < wc_max_per_hour cfg \<longrightarrow> int (sent_events (wd_store w)) < wc_max_per_hour cfg"
    and "tick L (store_worker L cfg) w = (r, w')"
  shows "advances batchSize (wd_store w) (wd_store w') \<and> wd_clock w' = wd_clock w"
proof -
  let ?s = "wd_store w" and ?W = "store_worker L cfg"
  obtain rc where c: "ClaimMessages L batchSize lockDuration ?s
      = (rc, ?s\<lparr>st_messages := claimed_rows batchSize lockDuration ?s\<rparr>)"
    and rows: "list_all2 (batch_tried (st_now ?s) (claim_ids batchSize ?s)) (st_messages ?s)
      (claimed_rows batchSize lockDuration ?s)"
    and ids: "c_id ` set (claims rc) \<subseteq> set (claim_ids batchSize ?s)"
    using claim_tries [OF assms(1,2)] by blast
  let ?w = "w\<lparr>wd_store := ?s\<lparr>st_messages := claimed_rows batchSize lockDuration ?s\<rparr>\<rparr>"
  have count: "SentInLastHour ?s = (Inr (sent_events ?s), ?s)"
    using assms(2) by (simp add: SentInLastHour_def run_wrapped_answering stmt_query_def)
  have "tick_claim ?W w = (rc, ?w)"
    using assms(4) c count by (auto simp: tick_claim_def on_store_def)
  then have w': "w' = fold (deliver L ?W) (claims rc) ?w"
    using assms(5) by (cases rc) (auto simp: tick_def)
  have d: "world_settles (c_id ` set (claims rc)) ?w w'"
    unfolding w' using assms(3) by (intro deliveries_settle) simp
  then have z: "list_all2 (settled (st_now ?s) (c_id ` set (claims rc))) (claimed_rows batchSize lockDuration ?s)
      (st_messages (wd_store w'))" "st_now (wd_store w') = st_now ?s" "st_fates (wd_store w') = []" "wd_clock w' = wd_clock w"
    using assms(2) by (auto simp: world_settles_def settles_def)
  have "list_all2 (batch_tried (st_now ?s) (claim_ids batchSize ?s)) (st_messages ?s) (st_messages (wd_store w'))"
    using batch_tried_settled [OF _ _ ids] rows z(1) by (rule list_all2_trans)
  then have "list_all2 (\<lambda>m m'. m' = m \<or> tried (st_now ?s) m m') (st_messages ?s) (st_messages (wd_store w'))"
    by (rule list_all2_mono) (auto simp: batch_tried_def split: if_splits)
  moreover have "length (filter (due (st_now ?s)) (st_messages (wd_store w'))) \<le> backlog ?s - batchSize"
    using length_filter_list_all2 [OF z(1), of "due (st_now ?s)"] settled_due claimed_backlog [OF assms(1), of batchSize lockDuration]
    by metis
  ultimately show ?thesis using z by (simp add: advances_def backlog_def)
qed

lemma advances_trans: "advances a s t \<Longrightarrow> advances b t u \<Longrightarrow> advances (a + b) s u"
proof -
  assume a: "advances a s t" and b: "advances b t u"
  let ?R = "\<lambda>m m'. m' = m \<or> tried (st_now s) m m'"
  have "list_all2 ?R (st_messages s) (st_messages u)"
  proof (rule list_all2_trans)
    show "list_all2 ?R (st_messages s) (st_messages t)" "list_all2 ?R (st_messages t) (st_messages u)"
      using a b by (simp_all add: advances_def)
    show "?R x y \<Longrightarrow> ?R y z \<Longrightarrow> ?R x z" for x y z by (auto simp: tried_def)
  qed
  then show ?thesis using a b by (auto simp: advances_def)
qed

text \<open>Turns in which nothing is cancelled and nothing else happens.\<close>

definition calm :: "'s poll" where
  "calm = \<lparr>pl_cancelled = False, pl_done = False, pl_pause = (\<lambda>s. s)\<rparr>"

lemma worker_Run_calm:
  "snd (snd (worker_Run L w (calm # ps) s)) = snd (snd (worker_Run L w ps (snd (tick L w s))))"
  by (simp add: calm_def split: prod.splits)

lemma calm_run_advances:
  assumes "mail_worker.flight_ok fl w" "st_fates (wd_store w) = []" "st_now (wd_store w) \<le> wd_clock w"
    and "0 < wc_max_per_hour cfg \<longrightarrow> int (sent_events (wd_store w) + k * batchSize) \<le> wc_max_per_hour cfg"
  shows "advances (k * batchSize) (wd_store w)
    (wd_store (snd (snd (worker_Run L (store_worker L cfg) (replicate k calm) w))))"
  using assms
proof (induction k arbitrary: w)
  case 0
  then show ?case by (simp add: advances_def list_all2_same)
next
  case (Suc k)
  obtain r x where t: "tick L (store_worker L cfg) w = (r, x)" by fastforce
  note f = mail_worker.tick_flight [OF Suc.prems(1) t]
  have m: "messages_ok (wd_store w)" using mail_worker.flight_okD(1) [OF Suc.prems(1)] by (simp add: world_ok_def)
  have below: "0 < wc_max_per_hour cfg \<longrightarrow> int (sent_events (wd_store w)) < wc_max_per_hour cfg"
    using Suc.prems(4) by (auto simp: batchSize_def)
  have a: "advances batchSize (wd_store w) (wd_store x)" "wd_clock x = wd_clock w"
    using tick_advances [OF m Suc.prems(2,3) below t] by auto
  have "0 < wc_max_per_hour cfg \<longrightarrow> int (sent_events (wd_store x) + k * batchSize) \<le> wc_max_per_hour cfg"
    using f(3) Suc.prems(4) by (auto simp: world_dispatched_def)
  then have "advances (k * batchSize) (wd_store x)
      (wd_store (snd (snd (worker_Run L (store_worker L cfg) (replicate k calm) x))))"
    using a Suc.prems(3) by (intro Suc.IH [OF f(1)]) (auto simp: advances_def)
  from advances_trans [OF a(1) this] t show ?case
    using worker_Run_calm [of L "store_worker L cfg" "replicate k calm" w] by (simp del: worker_Run.simps)
qed



section \<open>The loop as a run of the system\<close>

lemma deliveries_run:
  assumes "distinct (map c_id (fl @ cs))"
  shows "sys_run L cfg (w, fl @ cs) (fold (deliver L (store_worker L cfg)) cs w, fl)"
  using assms
proof (induction cs arbitrary: w)
  case Nil
  then show ?case by (simp add: sys_run_def)
next
  case (Cons c cs)
  have "remove1 c (fl @ c # cs) = fl @ cs" using Cons.prems by (auto simp: remove1_append)
  then have "sys_step L cfg (w, fl @ c # cs) (deliver L (store_worker L cfg) c w, fl @ cs)"
    using sys_step.deliver [of c "fl @ c # cs" L cfg w] by simp
  moreover have "sys_run L cfg (deliver L (store_worker L cfg) c w, fl @ cs)
      (fold (deliver L (store_worker L cfg)) cs (deliver L (store_worker L cfg) c w), fl)"
    using Cons by simp
  ultimately show ?case unfolding sys_run_def by (simp add: converse_rtranclp_into_rtranclp)
qed

lemma tick_run:
  assumes "mail_worker.flight_ok fl w" "tick L (store_worker L cfg) w = (r, w')"
  shows "sys_run L cfg (w, fl) (w', fl)"
proof -
  obtain rc x where c: "tick_claim (store_worker L cfg) w = (rc, x)" by fastforce
  then have w': "w' = fold (deliver L (store_worker L cfg)) (claims rc) x"
    using assms(2) by (cases rc) (auto simp: tick_def)
  have s: "sys_step L cfg (w, fl) (x, fl @ claims rc)" using c by (rule sys_step.claim)
  then have "mail_worker.flight_ok (fl @ claims rc) x" using sys_step_flight assms(1) by blast
  then have "sys_run L cfg (x, fl @ claims rc) (w', fl)"
    unfolding w' by (intro deliveries_run mail_worker.flight_okD(3))
  with s show ?thesis unfolding sys_run_def by (rule converse_rtranclp_into_rtranclp)
qed

lemma worker_Run_run:
  assumes "mail_worker.flight_ok fl w" "\<forall>p \<in> set ps. \<forall>w. sys_run L cfg (w, fl) (pl_pause p w, fl)"
    and "worker_Run L (store_worker L cfg) ps w = (stopped, waits, w')"
  shows "sys_run L cfg (w, fl) (w', fl) \<and> (stopped \<longrightarrow> list_ex (\<lambda>p. pl_cancelled p \<or> pl_done p) ps)
    \<and> (\<not> stopped \<longrightarrow> length waits = length ps) \<and> set waits \<subseteq> {0, idleInterval}"
  using assms
proof (induction ps arbitrary: w stopped waits)
  case Nil
  then show ?case by (auto simp: sys_run_def)
next
  case (Cons p ps)
  obtain r x where t: "tick L (store_worker L cfg) w = (r, x)" by fastforce
  have x: "sys_run L cfg (w, fl) (x, fl)" using Cons.prems(1) t by (rule tick_run)
  show ?case
  proof (cases "isl r \<and> pl_cancelled p \<or> pl_done p")
    case True
    then show ?thesis using Cons.prems(3) t x by (auto split: if_splits)
  next
    case False
    let ?y = "pl_pause p x"
    obtain st ws where y: "worker_Run L (store_worker L cfg) ps ?y = (st, ws, w')" "stopped = st" "waits = run_wait r # ws"
      using Cons.prems(3) t False by (auto split: if_splits prod.splits)
    have p: "sys_run L cfg (x, fl) (?y, fl)" using Cons.prems(2) by simp
    have xy: "sys_run L cfg (w, fl) (?y, fl)" using x p unfolding sys_run_def by (rule rtranclp_trans)
    then have "mail_worker.flight_ok fl ?y" using sys_run_flight Cons.prems(1) by blast
    from Cons.IH [OF this _ y(1)] Cons.prems(2) xy show ?thesis
      unfolding y sys_run_def by (auto simp: run_wait_def split: sum.splits intro: rtranclp_trans)
  qed
qed

text \<open>
  Worker.Run is a run of the system the delivery theorems speak of, whatever happens between
  its turns: it returns only because its context was cancelled and never because of an error, it
  makes one tick for each turn, and between two ticks it pauses for the idle interval or not at
  all.
\<close>

theorem worker_loop_is_a_run:
  assumes "fresh_world w0" "sys_run L cfg (w0, []) (w, fl)"
    and "\<forall>p \<in> set ps. \<forall>w. sys_run L cfg (w, fl) (pl_pause p w, fl)"
    and "worker_Run L (store_worker L cfg) ps w = (stopped, waits, w')"
  shows "sys_run L cfg (w0, []) (w', fl) \<and> (stopped \<longrightarrow> list_ex (\<lambda>p. pl_cancelled p \<or> pl_done p) ps)
    \<and> (\<not> stopped \<longrightarrow> length waits = length ps) \<and> set waits \<subseteq> {0, idleInterval}"
proof -
  have "mail_worker.flight_ok fl w" using sys_run_flight [OF assms(2) fresh_flight [OF assms(1)]] by blast
  from worker_Run_run [OF this assms(3,4)] assms(2) show ?thesis
    unfolding sys_run_def by (auto intro: rtranclp_trans)
qed

lemma worker_loop_is_a_run_witness:
  "list_ex (\<lambda>p. pl_cancelled p \<or> pl_done p) [calm, calm\<lparr>pl_done := True\<rparr> :: world poll]
   \<and> fst (worker_Run sample_lib (store_worker sample_lib sample_config)
        [calm, calm\<lparr>pl_done := True\<rparr>] sample_world)"
proof -
  let ?ps = "[calm, calm\<lparr>pl_done := True\<rparr> :: world poll]"
  obtain stopped waits w' where l: "worker_Run sample_lib (store_worker sample_lib sample_config) ?ps sample_world
      = (stopped, waits, w')" by (metis prod.collapse)
  have s: stopped using l by (auto simp: calm_def split: prod.splits)
  have "sys_run sample_lib sample_config (sample_world, []) (sample_world, [])" by (simp add: sys_run_def)
  from worker_loop_is_a_run [OF sample_fresh this _ l] s l show ?thesis
    by (simp add: calm_def sys_run_def del: worker_Run.simps)
qed

section \<open>Shutdown\<close>

lemma worker_Run_stops:
  assumes "worker_Run L w ps s = (stopped, waits, s')"
  shows "list_ex pl_done ps \<longrightarrow> stopped" "stopped \<longrightarrow> list_ex (\<lambda>p. pl_cancelled p \<or> pl_done p) ps"
    "length waits \<le> length (takeWhile (\<lambda>p. \<not> pl_done p) ps)"
  using assms
  by (induction ps arbitrary: s stopped waits) (fastforce split: prod.splits if_splits)+

lemma dispatcher_Run_stops:
  "dispatcher_Run d ps s = (stopped, waits, s') \<Longrightarrow>
     stopped = list_ex pl_done ps \<and> length waits = length (takeWhile (\<lambda>p. \<not> pl_done p) ps)"
  by (induction ps arbitrary: s stopped waits) (auto split: prod.splits if_splits)

lemma checker_Run_stops:
  "checker_Run st vs s = (stopped, waits, s') \<Longrightarrow>
     stopped = list_ex (\<lambda>v. pl_done (snd v)) vs
     \<and> waits = replicate (length (takeWhile (\<lambda>v. \<not> pl_done (snd v)) vs)) checkInterval"
  by (induction st vs s arbitrary: stopped waits rule: checker_Run.induct) (auto split: prod.splits if_splits)



end
