(* ===== verification/Config.thy ===== *)
theory Config
  imports Encoding
begin

text \<open>
  Package config, internal/config/config.go: the configuration read from the environment, and
  the combinations it refuses at startup. The environment is a function from names to values,
  the empty string where a variable is not set, as os.Getenv has it.
\<close>

section \<open>Model\<close>

type_synonym environ = "bytes \<Rightarrow> bytes"

definition EnvDevelopment :: bytes where "EnvDevelopment = ''development''"
definition EnvProduction :: bytes where "EnvProduction = ''production''"

record config =
  cf_env :: bytes
  cf_listen_addr :: bytes
  cf_database_url :: bytes
  cf_log_level :: bytes
  cf_send_enabled :: bool
  cf_engine_url :: bytes
  cf_max_send_per_hour :: int
  cf_dkim_master_key :: bytes
  cf_mta_sts_hosts :: "bytes list"
  cf_mta_sts_mode :: bytes
  cf_mta_sts_max_age :: int
  cf_security_contact :: bytes
  cf_security_policy_url :: bytes
  cf_public_base_url :: bytes
  cf_console_password_hash :: bytes
  cf_console_secure_cookies :: bool
  cf_shutdown_grace :: duration

text \<open>\<open>ValidationError\<close>: its problems, and the text of its Error method.\<close>

definition validation_error_text :: "bytes list \<Rightarrow> bytes" where
  "validation_error_text problems =
     ''invalid configuration:'' @ [CHR 0x0A] @ ''  - '' @ Join problems ([CHR 0x0A] @ ''  - '')"

definition IsProduction :: "config \<Rightarrow> bool" where
  "IsProduction c \<longleftrightarrow> cf_env c = EnvProduction"

definition splitList :: "bytes \<Rightarrow> bytes list" where
  "splitList raw = filter (\<lambda>part. part \<noteq> []) (map TrimSpace (SplitByte raw CHR '',''))"

definition envOr :: "environ \<Rightarrow> bytes \<Rightarrow> bytes \<Rightarrow> bytes" where
  "envOr env key fallback = (let v = TrimSpace (env key) in if v \<noteq> [] then v else fallback)"

text \<open>strconv.ParseBool.\<close>

definition ParseBool :: "bytes \<Rightarrow> bool option" where
  "ParseBool s =
     (if s \<in> {''1'', ''t'', ''T'', ''TRUE'', ''true'', ''True''} then Some True
      else if s \<in> {''0'', ''f'', ''F'', ''FALSE'', ''false'', ''False''} then Some False
      else None)"

text \<open>Both return the value the caller uses with the error, when there is one.\<close>

definition envBool :: "golib \<Rightarrow> environ \<Rightarrow> bytes \<Rightarrow> bool \<Rightarrow> bool \<times> bytes option" where
  "envBool L env key fallback =
     (let raw = TrimSpace (env key) in
      if raw = [] then (fallback, None)
      else case ParseBool raw of
        None \<Rightarrow> (fallback, Some (key @ '' must be a boolean, got '' @ quote L raw))
      | Some v \<Rightarrow> (v, None))"

definition envInt :: "golib \<Rightarrow> environ \<Rightarrow> bytes \<Rightarrow> int \<Rightarrow> int \<times> bytes option" where
  "envInt L env key fallback =
     (let raw = TrimSpace (env key) in
      if raw = [] then (fallback, None)
      else case ParseInt64 raw of
        None \<Rightarrow> (fallback, Some (key @ '' must be an integer, got '' @ quote L raw))
      | Some v \<Rightarrow> (v, None))"

definition validateDatabaseURL :: "golib \<Rightarrow> bytes \<Rightarrow> bytes \<Rightarrow> bytes option" where
  "validateDatabaseURL L raw env =
     (case url_parse L raw of
        None \<Rightarrow> Some (''AIEMAIL_DATABASE_URL is not a valid URL: '' @ url_error L raw)
      | Some u \<Rightarrow>
          if u_scheme u \<noteq> ''postgres'' \<and> u_scheme u \<noteq> ''postgresql''
          then Some (''AIEMAIL_DATABASE_URL must use the postgres scheme, got '' @ quote L (u_scheme u))
          else if env = EnvProduction \<and> u_query u ''sslmode'' = ''disable''
          then Some ''AIEMAIL_DATABASE_URL disables TLS; production requires an encrypted database connection''
          else None)"

definition validateEngineURL :: "golib \<Rightarrow> bytes \<Rightarrow> bytes option" where
  "validateEngineURL L raw =
     (case url_parse L raw of
        None \<Rightarrow> Some (''AIEMAIL_ENGINE_URL is not a valid URL: '' @ url_error L raw)
      | Some u \<Rightarrow>
          if u_scheme u \<noteq> ''http'' \<and> u_scheme u \<noteq> ''https''
          then Some (''AIEMAIL_ENGINE_URL must be http or https, got '' @ quote L (u_scheme u))
          else if u_host u = [] then Some ''AIEMAIL_ENGINE_URL is missing a host''
          else None)"

text \<open>
  Config.validate: the problems in the order the code appends them. \<open>problem_if\<close> is one
  conditional append, \<open>problem_of\<close> the append of an error when there is one.
\<close>

definition problem_if :: "bool \<Rightarrow> bytes \<Rightarrow> bytes list" where
  "problem_if b text = (if b then [text] else [])"

definition problem_of :: "bytes option \<Rightarrow> bytes list" where
  "problem_of e = (case e of None \<Rightarrow> [] | Some text \<Rightarrow> [text])"

definition mta_sts_problems :: "golib \<Rightarrow> config \<Rightarrow> bytes list" where
  "mta_sts_problems L c =
     problem_if (cf_mta_sts_mode c \<notin> {''testing'', ''enforce'', ''none''})
       (''AIEMAIL_MTA_STS_MODE must be testing, enforce or none, got '' @ quote L (cf_mta_sts_mode c))
     @ problem_if (cf_mta_sts_max_age c < 86400 \<or> cf_mta_sts_max_age c > 31557600)
       ''AIEMAIL_MTA_STS_MAX_AGE must be between 86400 and 31557600 seconds''"

definition sending_problems :: "golib \<Rightarrow> config \<Rightarrow> bytes list" where
  "sending_problems L c =
     (if cf_engine_url c = []
      then [''AIEMAIL_ENGINE_URL is required when AIEMAIL_SEND_ENABLED is true'']
      else problem_of (validateEngineURL L (cf_engine_url c)))
     @ problem_if (cf_max_send_per_hour c \<le> 0)
       ''AIEMAIL_MAX_SEND_PER_HOUR must be greater than zero when sending is enabled''
     @ problem_if (cf_dkim_master_key c = [])
       ''AIEMAIL_DKIM_MASTER_KEY is required when sending is enabled; unsigned mail is refused by mailbox providers''"

definition validate :: "golib \<Rightarrow> config \<Rightarrow> bytes list" where
  "validate L c =
     problem_if (cf_env c \<noteq> EnvDevelopment \<and> cf_env c \<noteq> EnvProduction)
       (''AIEMAIL_ENV must be '' @ quote L EnvDevelopment @ '' or '' @ quote L EnvProduction
        @ '', got '' @ quote L (cf_env c))
     @ problem_if (cf_log_level c \<notin> {''debug'', ''info'', ''warn'', ''error''})
       (''AIEMAIL_LOG_LEVEL must be debug, info, warn or error, got '' @ quote L (cf_log_level c))
     @ (if cf_database_url c = [] then [''AIEMAIL_DATABASE_URL is required'']
        else problem_of (validateDatabaseURL L (cf_database_url c) (cf_env c)))
     @ problem_if (cf_listen_addr c = []) ''AIEMAIL_LISTEN_ADDR is required''
     @ problem_if (cf_max_send_per_hour c < 0) ''AIEMAIL_MAX_SEND_PER_HOUR cannot be negative''
     @ (if cf_mta_sts_hosts c \<noteq> [] then mta_sts_problems L c else [])
     @ (if cf_send_enabled c then sending_problems L c else [])
     @ problem_if (IsProduction c \<and> HasPrefix (cf_listen_addr c) ''0.0.0.0:'')
       ''AIEMAIL_LISTEN_ADDR binds every interface in production; bind a specific address and terminate TLS in front''"

text \<open>The master key of the environment: nothing, a problem, or 32 bytes.\<close>

definition master_key :: "environ \<Rightarrow> bytes \<times> bytes option" where
  "master_key env =
     (let raw = TrimSpace (env ''AIEMAIL_DKIM_MASTER_KEY'') in
      if raw = [] then ([], None)
      else case Std_decode raw of
        None \<Rightarrow> ([], Some ''AIEMAIL_DKIM_MASTER_KEY must be base64'')
      | Some key \<Rightarrow>
          if length key \<noteq> 32
          then ([], Some (''AIEMAIL_DKIM_MASTER_KEY must decode to 32 bytes, got '' @ itoa_nat (length key)))
          else (key, None))"

text \<open>What Load reads, and Load itself: the configuration or all the problems.\<close>

definition read_config :: "golib \<Rightarrow> environ \<Rightarrow> config" where
  "read_config L env =
     \<lparr>cf_env = envOr env ''AIEMAIL_ENV'' EnvDevelopment,
      cf_listen_addr = envOr env ''AIEMAIL_LISTEN_ADDR'' ''127.0.0.1:8080'',
      cf_database_url = env ''AIEMAIL_DATABASE_URL'',
      cf_log_level = envOr env ''AIEMAIL_LOG_LEVEL'' ''info'',
      cf_send_enabled = fst (envBool L env ''AIEMAIL_SEND_ENABLED'' False),
      cf_engine_url = env ''AIEMAIL_ENGINE_URL'',
      cf_max_send_per_hour = fst (envInt L env ''AIEMAIL_MAX_SEND_PER_HOUR'' 0),
      cf_dkim_master_key = fst (master_key env),
      cf_mta_sts_hosts = splitList (env ''AIEMAIL_MTA_STS_HOSTS''),
      cf_mta_sts_mode = envOr env ''AIEMAIL_MTA_STS_MODE'' ''testing'',
      cf_mta_sts_max_age = fst (envInt L env ''AIEMAIL_MTA_STS_MAX_AGE'' 604800),
      cf_security_contact = TrimSpace (env ''AIEMAIL_SECURITY_CONTACT''),
      cf_security_policy_url = TrimSpace (env ''AIEMAIL_SECURITY_POLICY_URL''),
      cf_public_base_url = TrimSuffix (TrimSpace (env ''AIEMAIL_PUBLIC_BASE_URL'')) ''/'',
      cf_console_password_hash = TrimSpace (env ''AIEMAIL_CONSOLE_PASSWORD_HASH''),
      cf_console_secure_cookies = (envOr env ''AIEMAIL_ENV'' EnvDevelopment = EnvProduction),
      cf_shutdown_grace = 30 * Second\<rparr>"

definition Load :: "golib \<Rightarrow> environ \<Rightarrow> bytes list + config" where
  "Load L env =
     (let cfg = read_config L env;
          problems =
            problem_of (snd (envBool L env ''AIEMAIL_SEND_ENABLED'' False))
            @ problem_of (snd (envInt L env ''AIEMAIL_MAX_SEND_PER_HOUR'' 0))
            @ problem_of (snd (master_key env))
            @ problem_of (snd (envInt L env ''AIEMAIL_MTA_STS_MAX_AGE'' 604800))
            @ validate L cfg in
      if problems \<noteq> [] then Inl problems else Inr cfg)"

section \<open>What a loaded configuration guarantees\<close>

lemma problem_simps [simp]:
  "problem_if b t = [] \<longleftrightarrow> \<not> b" "problem_of e = [] \<longleftrightarrow> e = None"
  by (auto simp: problem_if_def problem_of_def split: option.splits)

lemma master_key_length: "fst (master_key env) = [] \<or> length (fst (master_key env)) = 32"
  by (auto simp: master_key_def Let_def split: option.splits)

lemma validateEngineURL_None:
  "validateEngineURL L raw = None \<longleftrightarrow>
     (\<exists>u. url_parse L raw = Some u \<and> u_scheme u \<in> {''http'', ''https''} \<and> u_host u \<noteq> [])"
  by (auto simp: validateEngineURL_def split: option.splits)

lemma validateDatabaseURL_None:
  "validateDatabaseURL L raw env = None \<longleftrightarrow>
     (\<exists>u. url_parse L raw = Some u \<and> u_scheme u \<in> {''postgres'', ''postgresql''}
        \<and> (env = EnvProduction \<longrightarrow> u_query u ''sslmode'' \<noteq> ''disable''))"
  by (auto simp: validateDatabaseURL_def split: option.splits)

lemma Load_InrD:
  assumes "Load L env = Inr c"
  shows "c = read_config L env \<and> snd (envBool L env ''AIEMAIL_SEND_ENABLED'' False) = None
     \<and> snd (envInt L env ''AIEMAIL_MAX_SEND_PER_HOUR'' 0) = None \<and> snd (master_key env) = None
     \<and> snd (envInt L env ''AIEMAIL_MTA_STS_MAX_AGE'' 604800) = None \<and> validate L c = []"
  using assms unfolding Load_def Let_def by (simp split: if_splits)

lemma Load_sending:
  assumes "Load L env = Inr c" "cf_send_enabled c"
  shows "0 < cf_max_send_per_hour c" "length (cf_dkim_master_key c) = 32" "validateEngineURL L (cf_engine_url c) = None"
proof -
  have v: "validate L c = []" "c = read_config L env" using Load_InrD [OF assms(1)] by blast+
  then have "sending_problems L c = []" using assms(2) by (simp add: validate_def split: if_splits)
  moreover have "cf_dkim_master_key c = [] \<or> length (cf_dkim_master_key c) = 32"
    using v(2) master_key_length [of env] by (simp add: read_config_def)
  ultimately show "0 < cf_max_send_per_hour c" "length (cf_dkim_master_key c) = 32" "validateEngineURL L (cf_engine_url c) = None"
    by (auto simp: sending_problems_def not_le split: if_splits)
qed


definition sample_environ :: environ where
  "sample_environ key =
     (if key = ''AIEMAIL_ENV'' then ''production''
      else if key = ''AIEMAIL_DATABASE_URL'' then ''postgres://db/mail''
      else if key = ''AIEMAIL_SEND_ENABLED'' then '' true ''
      else if key = ''AIEMAIL_MAX_SEND_PER_HOUR'' then ''100''
      else if key = ''AIEMAIL_ENGINE_URL'' then ''http://engine''
      else if key = ''AIEMAIL_DKIM_MASTER_KEY'' then ''AAAAAAAAAAAAAAAAAAAAAAAAAAAAAAAAAAAAAAAAAAA=''
      else [])"

lemma Load_sample: "Load sample_lib sample_environ = Inr (read_config sample_lib sample_environ)"
  by code_simp


text \<open>The guard on the listener does not see the other spellings of every interface.\<close>

lemma listen_on_every_interface:
  "Load sample_lib (sample_environ(''AIEMAIL_LISTEN_ADDR'' := '':8080''))
   = Inr (read_config sample_lib (sample_environ(''AIEMAIL_LISTEN_ADDR'' := '':8080'')))"
  by code_simp

end
