(* ===== verification/Keys.thy ===== *)
theory Keys
  imports Encoding Store_Base
begin

text \<open>
  Package keys, internal/keys/keys.go: the secrets of API keys, how they are made, shown, hashed
  and checked for their shape, and how long they live.
\<close>

section \<open>base32 without padding\<close>

text \<open>
  The decoder of encoding/base32 with NoPadding: line breaks are skipped, every other character
  must be in the alphabet, and five bits of each are regrouped into bytes. A last quantum of
  one, three or six characters decodes to nothing at all. (The decoder also takes the byte 0xFF
  for a pad character; strings.ToUpper, through which the program passes its input, never
  produces that byte.)
\<close>

definition bits5 :: "nat \<Rightarrow> bool list" where
  "bits5 n = map (\<lambda>i. odd (n div 2 ^ i)) [4, 3, 2, 1, 0]"

fun bytes_of_bits :: "bool list \<Rightarrow> bytes" where
  "bytes_of_bits (a # b # c # d # e # f # g # h # bs) =
     char_of (bits_value [a, b, c, d, e, f, g, h] 0) # bytes_of_bits bs"
| "bytes_of_bits _ = []"

definition whole_quanta :: "'a list \<Rightarrow> 'a list" where
  "whole_quanta s =
     (let r = length s mod 8 in if r = 1 \<or> r = 3 \<or> r = 6 then take (length s - r) s else s)"

definition Base32_decode :: "bytes \<Rightarrow> bytes option" where
  "Base32_decode s =
     (let t = no_breaks s in
      if list_all (\<lambda>c. c \<in> set b32_alphabet) t
      then Some (bytes_of_bits (concat (map (\<lambda>c. bits5 (the (index_of c b32_alphabet))) (whole_quanta t))))
      else None)"

section \<open>Model\<close>

definition LivePrefix :: bytes where "LivePrefix = ''aiem_live_''"

definition secretBytes :: nat where "secretBytes = 32"

definition DefaultLifetime :: duration where "DefaultLifetime = 90 * 24 * Hour"

definition MaxLifetime :: duration where "MaxLifetime = 365 * 24 * Hour"

datatype key_error = KeyMalformed | KeyExpired | KeyRevoked

record generated =
  g_secret :: bytes
  g_hash :: bytes
  g_prefix :: bytes

definition key_Hash :: "golib \<Rightarrow> bytes \<Rightarrow> bytes" where
  "key_Hash L secret = sha256 L secret"

definition key_Equal :: "bytes \<Rightarrow> bytes \<Rightarrow> bool" where
  "key_Equal a b \<longleftrightarrow> a = b"

text \<open>The ellipsis is three bytes.\<close>

definition Display :: "bytes \<Rightarrow> bytes" where
  "Display secret =
     (let body = TrimPrefix secret LivePrefix; dots = [CHR 0xE2, CHR 0x80, CHR 0xA6] in
      if length body < 6 then LivePrefix @ dots else LivePrefix @ take 6 body @ dots)"

text \<open>\<open>rand\<close> is what rand.Read filled the buffer with, or its error.\<close>

definition key_Generate :: "golib \<Rightarrow> go_error + bytes \<Rightarrow> go_error + generated" where
  "key_Generate L rand =
     (case rand of
        Inl e \<Rightarrow> Inl (Wrapped ''generating key material'' e)
      | Inr raw \<Rightarrow>
          let secret = LivePrefix @ ToLower L (Base32_encode raw) in
          Inr \<lparr>g_secret = secret, g_hash = key_Hash L secret, g_prefix = Display secret\<rparr>)"

definition key_Parse :: "golib \<Rightarrow> bytes \<Rightarrow> key_error option" where
  "key_Parse L secret =
     (if \<not> HasPrefix secret LivePrefix then Some KeyMalformed
      else
        let body = TrimPrefix secret LivePrefix in
        case Base32_decode (ToUpper L body) of
          None \<Rightarrow> Some KeyMalformed
        | Some decoded \<Rightarrow> if length decoded \<noteq> secretBytes then Some KeyMalformed else None)"

definition Lifetime :: "duration \<Rightarrow> duration" where
  "Lifetime requested =
     (if requested \<le> 0 then DefaultLifetime
      else if requested > MaxLifetime then MaxLifetime
      else requested)"

section \<open>Lemmas on base32\<close>

lemma bits5_value: "bits5 (bits_value [a, b, c, d, e] 0) = [a, b, c, d, e]"
  by (cases a; cases b; cases c; cases d; cases e) (simp_all add: bits5_def)

lemma bits_value_less32: "bits_value [a, b, c, d, e] 0 < 32"
  by (cases a; cases b; cases c; cases d; cases e) simp_all

lemma b32_alphabet_props: "length b32_alphabet = 32" "distinct b32_alphabet"
  "CHR 0x0D \<notin> set b32_alphabet" "CHR 0x0A \<notin> set b32_alphabet" "is_ascii b32_alphabet"
  by code_simp+

text \<open>The character of five bits.\<close>

definition sym5 :: "bool list \<Rightarrow> char" where
  "sym5 bs = sym b32_alphabet (bits_value bs 0)"

abbreviation char_bits :: "char \<Rightarrow> bool list" where
  "char_bits c \<equiv> bits5 (the (index_of c b32_alphabet))"

lemma sym5_props:
  "sym5 [a, b, c, d, e] \<in> set b32_alphabet" "char_bits (sym5 [a, b, c, d, e]) = [a, b, c, d, e]"
proof -
  have i: "bits_value [a, b, c, d, e] 0 < length b32_alphabet"
    using bits_value_less32 b32_alphabet_props(1) by simp
  then show "sym5 [a, b, c, d, e] \<in> set b32_alphabet" unfolding sym5_def sym_def by (rule nth_mem)
  show "char_bits (sym5 [a, b, c, d, e]) = [a, b, c, d, e]"
    using index_of_nth [OF b32_alphabet_props(2) i] by (simp only: sym5_def sym_def option.sel bits5_value)
qed

lemma b32_groups_sym5:
  "b32_groups (a # b # c # d # e # bs) = sym5 [a, b, c, d, e] # b32_groups bs"
  "b32_groups [a] = [sym5 [a, False, False, False, False]]"
  "b32_groups [a, b] = [sym5 [a, b, False, False, False]]"
  "b32_groups [a, b, c] = [sym5 [a, b, c, False, False]]"
  "b32_groups [a, b, c, d] = [sym5 [a, b, c, d, False]]"
  by (simp_all only: b32_groups.simps sym5_def) (simp_all add: numeral_eq_Suc)

text \<open>The characters of an encoding carry its bits, filled up with fewer than five zeros.\<close>

lemma b32_groups_bits:
  "set (b32_groups bs) \<subseteq> set b32_alphabet
   \<and> (\<exists>n < 5. concat (map char_bits (b32_groups bs)) = bs @ replicate n False)"
proof (induction bs rule: b32_groups.induct [case_names five empty one two three four])
  case (five a b c d e bs)
  then show ?case by (simp only: b32_groups_sym5) (simp add: sym5_props)
next
  case (one a)
  show ?case unfolding b32_groups_sym5 by (intro conjI exI [of _ 4]) (simp_all add: sym5_props numeral_eq_Suc)
next
  case (two a b)
  show ?case unfolding b32_groups_sym5 by (intro conjI exI [of _ 3]) (simp_all add: sym5_props numeral_eq_Suc)
next
  case (three a b c)
  show ?case unfolding b32_groups_sym5 by (intro conjI exI [of _ 2]) (simp_all add: sym5_props numeral_eq_Suc)
next
  case (four a b c d)
  show ?case unfolding b32_groups_sym5 by (intro conjI exI [of _ 1]) (simp_all add: sym5_props)
qed simp

lemma length_b32_groups: "length (b32_groups bs) = (length bs + 4) div 5"
  by (induction bs rule: b32_groups.induct) auto

lemma bits_of_byte_value: "bits_value (bits_of_byte (byte c)) 0 = byte c"
proof (cases c)
  case (Char b0 b1 b2 b3 b4 b5 b6 b7)
  then show ?thesis
    by (cases b0; cases b1; cases b2; cases b3; cases b4; cases b5; cases b6; cases b7)
       (simp_all add: bits_of_byte_def of_char_def)
qed

lemma length_bits_of_byte [simp]: "length (bits_of_byte n) = 8"
  by (simp add: bits_of_byte_def)

lemma bytes_of_bits_byte: "bytes_of_bits (bits_of_byte (byte c) @ bs) = c # bytes_of_bits bs"
proof -
  obtain a b c' d e f g h where l: "bits_of_byte (byte c) = [a, b, c', d, e, f, g, h]"
    by (auto simp: bits_of_byte_def)
  have "char_of (bits_value [a, b, c', d, e, f, g, h] 0) = c"
    using bits_of_byte_value [of c] unfolding l by simp
  then show ?thesis unfolding l by (simp only: append.simps bytes_of_bits.simps)
qed

lemma bytes_of_short_bits: "length bs < 8 \<Longrightarrow> bytes_of_bits bs = []"
  by (cases bs rule: bytes_of_bits.cases) auto

lemma bytes_of_bits_bytes:
  "n < 5 \<Longrightarrow> bytes_of_bits (concat (map (bits_of_byte \<circ> of_char) s) @ replicate n False) = s"
  by (induction s) (simp_all add: bytes_of_bits_byte bytes_of_short_bits)

lemma length_bytes_of_bits: "length (bytes_of_bits bs) = length bs div 8"
  by (induction bs rule: bytes_of_bits.induct) auto

lemma length_Base32_encode: "length (Base32_encode s) = (8 * length s + 4) div 5"
proof -
  have "length (concat (map (bits_of_byte \<circ> of_char) s)) = 8 * length s"
    by (induction s) simp_all
  then show ?thesis by (simp add: Base32_encode_def length_b32_groups)
qed

text \<open>An encoding never ends in a quantum that decodes to nothing.\<close>

lemma encoded_quantum: "(8 * m + 4) div 5 mod 8 \<notin> {1, 3, 6::nat}"
proof -
  obtain q t where m: "m = 5 * q + t" "t < 5" using div_mod_decomp [of m 5] by (metis mult.commute mod_less_divisor zero_less_numeral)
  have "8 * (5 * q + t) + 4 = (8 * t + 4) + 5 * (8 * q)" by simp
  then have "(8 * m + 4) div 5 = (8 * t + 4) div 5 + 8 * q" unfolding m by (simp only: div_mult_self2)
  then have "(8 * m + 4) div 5 mod 8 = (8 * t + 4) div 5 mod 8" by simp
  moreover have "t \<in> {0, 1, 2, 3, 4}" using m(2) by auto
  ultimately show ?thesis by auto
qed

lemma no_breaks_b32: "set s \<subseteq> set b32_alphabet \<Longrightarrow> no_breaks s = s"
  using b32_alphabet_props(3,4) by (auto simp: no_breaks_def filter_id_conv)

lemma set_Base32_encode: "set (Base32_encode s) \<subseteq> set b32_alphabet"
  using b32_groups_bits by (simp add: Base32_encode_def)

lemma Base32_decode_encode: "Base32_decode (Base32_encode s) = Some s"
proof -
  have q: "whole_quanta (Base32_encode s) = Base32_encode s"
    using encoded_quantum [of "length s"] by (simp add: whole_quanta_def length_Base32_encode)
  obtain n where "n < 5" "concat (map char_bits (Base32_encode s)) = concat (map (bits_of_byte \<circ> of_char) s) @ replicate n False"
    using b32_groups_bits unfolding Base32_encode_def by blast
  then show ?thesis
    using set_Base32_encode [of s] bytes_of_bits_bytes [of n s]
    by (simp add: Base32_decode_def no_breaks_b32 q list_all_iff subset_iff)
qed

interpretation base32: codec Base32_encode Base32_decode "set b32_alphabet"
  by unfold_locales (simp_all add: Base32_decode_encode set_Base32_encode)

lemma length_Base32_decode:
  assumes "Base32_decode s = Some d"
  shows "length d = secretBytes \<longleftrightarrow> length (no_breaks s) = 52"
proof -
  let ?n = "length (no_breaks s)"
  have b: "length (bits5 n) = 5" for n by (simp add: bits5_def)
  have c: "length (concat (map (\<lambda>c. bits5 (f c)) t)) = 5 * length t" for f and t :: bytes
    by (induction t) (simp_all add: b)
  have d: "length d = 5 * length (whole_quanta (no_breaks s)) div 8"
    using assms by (auto simp: Base32_decode_def Let_def length_bytes_of_bits c split: if_splits)
  obtain q r where n: "?n = 8 * q + r" "r < 8" using div_mod_decomp [of ?n 8] by (metis mult.commute mod_less_divisor zero_less_numeral)
  then have "r = ?n mod 8" by simp
  have "r \<in> {0, 1, 2, 3, 4, 5, 6, 7}" using n(2) by auto
  then show ?thesis
    using d n by (auto simp: whole_quanta_def secretBytes_def) presburger+
qed

section \<open>Properties\<close>

lemma upper_lower_b32: "set s \<subseteq> set b32_alphabet \<Longrightarrow> ToUpper L (ToLower L s) = s"
proof -
  assume s: "set s \<subseteq> set b32_alphabet"
  have "list_all (\<lambda>c. \<not> (97 \<le> byte c \<and> byte c \<le> 122)) b32_alphabet" by code_simp
  then have n: "\<not> (97 \<le> byte c \<and> byte c \<le> 122)" if "c \<in> set s" for c
    using s that by (auto simp: list_all_iff)
  have "ascii_upper (ascii_lower c) = c" if "c \<in> set s" for c
  proof -
    have "byte (ascii_upper (ascii_lower c)) = byte c"
      using n [OF that] by (auto simp: byte_ascii_upper byte_ascii_lower simp del: byte_eq_iff)
    then show ?thesis by simp
  qed
  moreover have a: "is_ascii s" using is_ascii_subset [OF s b32_alphabet_props(5)] .
  ultimately show ?thesis by (simp add: ToLower_ascii ToUpper_ascii map_idI)
qed

lemma key_Parse_iff:
  "key_Parse L secret = None \<longleftrightarrow>
     (\<exists>body. secret = LivePrefix @ body \<and> length (no_breaks (ToUpper L body)) = 52
        \<and> set (no_breaks (ToUpper L body)) \<subseteq> set b32_alphabet)"
proof (cases "HasPrefix secret LivePrefix")
  case True
  then obtain body where s: "secret = LivePrefix @ body" by (auto simp: HasPrefix_iff)
  show ?thesis
  proof (cases "Base32_decode (ToUpper L body)")
    case None
    then have "\<not> set (no_breaks (ToUpper L body)) \<subseteq> set b32_alphabet"
      by (auto simp: Base32_decode_def Let_def list_all_iff split: if_splits)
    then show ?thesis using None by (simp add: key_Parse_def s)
  next
    case (Some d)
    then have "set (no_breaks (ToUpper L body)) \<subseteq> set b32_alphabet"
      by (auto simp: Base32_decode_def Let_def list_all_iff split: if_splits)
    then show ?thesis using length_Base32_decode [OF Some] Some by (simp add: key_Parse_def s)
  qed
next
  case False
  then show ?thesis by (auto simp: key_Parse_def)
qed

text \<open>
  Every generated key is well formed: Parse accepts its secret, which decodes to the random
  bytes it was made from, so different random bytes give different secrets; what is stored of it
  is its hash and a prefix that depends on the first six characters of its body only. Parse
  accepts exactly the secrets that are the prefix followed by 52 base32 characters in either
  case, line breaks, which the decoder skips, not counted.
\<close>

theorem Generate_Parse_roundtrip:
  assumes "key_Generate L (Inr raw) = Inr g" "length raw = secretBytes"
  shows "key_Parse L (g_secret g) = None
     \<and> Base32_decode (ToUpper L (TrimPrefix (g_secret g) LivePrefix)) = Some raw
     \<and> (\<forall>raw' g'. key_Generate L (Inr raw') = Inr g' \<and> g_secret g' = g_secret g \<longrightarrow> raw' = raw)
     \<and> g_hash g = key_Hash L (g_secret g)
     \<and> g_prefix g = take 16 (g_secret g) @ [CHR 0xE2, CHR 0x80, CHR 0xA6]
     \<and> (\<forall>secret. key_Parse L secret = None \<longleftrightarrow>
          (\<exists>body. secret = LivePrefix @ body \<and> length (no_breaks (ToUpper L body)) = 52
             \<and> set (no_breaks (ToUpper L body)) \<subseteq> set b32_alphabet))"
proof -
  have g: "g_secret g = LivePrefix @ ToLower L (Base32_encode raw)" "g_hash g = key_Hash L (g_secret g)"
    "g_prefix g = Display (g_secret g)"
    using assms(1) by (auto simp: key_Generate_def Let_def)
  have d: "Base32_decode (ToUpper L (ToLower L (Base32_encode r))) = Some r" for r
    by (simp add: upper_lower_b32 [OF set_Base32_encode] Base32_decode_encode)
  have ascii: "is_ascii (Base32_encode raw)"
    using is_ascii_subset [OF set_Base32_encode b32_alphabet_props(5)] .
  have l: "length (ToLower L (Base32_encode raw)) = 52"
    using assms(2) by (simp add: ToLower_ascii [OF ascii] length_Base32_encode secretBytes_def)
  have p: "g_prefix g = take 16 (g_secret g) @ [CHR 0xE2, CHR 0x80, CHR 0xA6]"
  proof -
    have "length LivePrefix = 10" by (simp add: LivePrefix_def)
    then show ?thesis using l by (simp add: g Display_def Let_def)
  qed
  have inj: "raw' = raw" if "key_Generate L (Inr raw') = Inr g'" "g_secret g' = g_secret g" for raw' g'
  proof -
    have "g_secret g' = LivePrefix @ ToLower L (Base32_encode raw')"
      using that(1) by (auto simp: key_Generate_def Let_def)
    then have "ToLower L (Base32_encode raw') = ToLower L (Base32_encode raw)"
      using that(2) g(1) by simp
    then show ?thesis using d [of raw'] d [of raw] by (metis option.inject)
  qed
  have b: "Base32_decode (ToUpper L (TrimPrefix (g_secret g) LivePrefix)) = Some raw"
    by (simp add: g(1) d)
  moreover have "HasPrefix (g_secret g) LivePrefix" by (simp add: g(1))
  ultimately have "key_Parse L (g_secret g) = None" using assms(2) by (simp add: key_Parse_def)
  with b inj g(2) p show ?thesis using key_Parse_iff [of L] by (intro conjI) blast+
qed

lemma Lifetime_bounds: "0 < Lifetime d \<and> Lifetime d \<le> MaxLifetime"
  by (simp add: Lifetime_def DefaultLifetime_def MaxLifetime_def)

end
