(* ===== verification/Console_Auth.thy ===== *)
theory Console_Auth
  imports Encoding Store_Base
begin

text \<open>
  internal/console/auth.go: the password of the console and its sessions. The key derivation of
  golang.org/x/crypto/argon2 with the cost parameters the program passes is the parameter
  \<open>argon\<close>, a function of the password and the salt.
\<close>

section \<open>The password\<close>

type_synonym key_derivation = "bytes \<Rightarrow> bytes \<Rightarrow> bytes"

record password_hash =
  ph_salt :: bytes
  ph_hash :: bytes

definition HashPassword :: "key_derivation \<Rightarrow> go_error + bytes \<Rightarrow> bytes \<Rightarrow> go_error + bytes" where
  "HashPassword argon rand password =
     (if length password < 12 then Inl (Msg ''console password must be at least 12 characters'')
      else case rand of
        Inl e \<Rightarrow> Inl (Wrapped ''generating salt'' e)
      | Inr salt \<Rightarrow>
          Inr (''argon2id$'' @ RawStd_encode salt @ ''$'' @ RawStd_encode (argon password salt)))"

definition ParsePasswordHash :: "bytes \<Rightarrow> go_error + password_hash" where
  "ParsePasswordHash encoded =
     (case SplitByte encoded CHR ''$'' of
        [p0, p1, p2] \<Rightarrow>
          if p0 \<noteq> ''argon2id'' then Inl (Msg ''password hash is not in the expected argon2id format'')
          else case RawStd_decode p1 of
            None \<Rightarrow> Inl (Msg ''password hash salt is not valid base64'')
          | Some salt \<Rightarrow>
              (case RawStd_decode p2 of
                 None \<Rightarrow> Inl (Msg ''password hash is not valid base64'')
               | Some hash \<Rightarrow> Inr \<lparr>ph_salt = salt, ph_hash = hash\<rparr>)
      | _ \<Rightarrow> Inl (Msg ''password hash is not in the expected argon2id format''))"

definition password_Verify :: "key_derivation \<Rightarrow> password_hash \<Rightarrow> bytes \<Rightarrow> bool" where
  "password_Verify argon p password \<longleftrightarrow> argon password (ph_salt p) = ph_hash p"

section \<open>Sessions\<close>

definition SessionTTL :: duration where "SessionTTL = 2 * Hour"

record session =
  se_csrf :: bytes
  se_expires :: instant

type_synonym sessions = "bytes \<rightharpoonup> session"

definition randomToken :: "go_error + bytes \<Rightarrow> go_error + bytes" where
  "randomToken rand =
     (case rand of Inl e \<Rightarrow> Inl (Wrapped ''generating token'' e) | Inr b \<Rightarrow> Inr (RawURL_encode b))"

definition sessions_prune :: "instant \<Rightarrow> sessions \<Rightarrow> sessions" where
  "sessions_prune now live =
     (\<lambda>i. case live i of None \<Rightarrow> None | Some sess \<Rightarrow> if now > se_expires sess then None else Some sess)"

definition sessions_create ::
  "go_error + bytes \<Rightarrow> go_error + bytes \<Rightarrow> instant \<Rightarrow> sessions \<Rightarrow> (go_error + bytes \<times> bytes) \<times> sessions" where
  "sessions_create rand1 rand2 now live =
     (case randomToken rand1 of
        Inl e \<Rightarrow> (Inl e, live)
      | Inr i \<Rightarrow>
          (case randomToken rand2 of
             Inl e \<Rightarrow> (Inl e, live)
           | Inr csrf \<Rightarrow>
               (Inr (i, csrf),
                (sessions_prune now live)(i \<mapsto> \<lparr>se_csrf = csrf, se_expires = now + SessionTTL\<rparr>))))"

definition sessions_get :: "bytes \<Rightarrow> instant \<Rightarrow> sessions \<Rightarrow> session option \<times> sessions" where
  "sessions_get i now live =
     (case live i of
        None \<Rightarrow> (None, live(i := None))
      | Some sess \<Rightarrow>
          if now > se_expires sess then (None, live(i := None)) else (Some sess, live))"

definition sessions_destroy :: "bytes \<Rightarrow> sessions \<Rightarrow> sessions" where
  "sessions_destroy i live = live(i := None)"

definition validCSRF :: "bytes \<Rightarrow> bytes \<Rightarrow> bool" where
  "validCSRF expected submitted \<longleftrightarrow> expected = submitted"

section \<open>Properties\<close>

text \<open>
  The hash the command line prints for a password is one the console accepts: it parses, the
  password it was made from verifies, and any other password verifies exactly when the key
  derivation maps it to the same value under the same salt; a password below twelve bytes is
  never hashed.
\<close>

theorem HashPassword_verifies:
  "case HashPassword argon (Inr salt) password of
     Inl e \<Rightarrow> length password < 12
   | Inr encoded \<Rightarrow> 12 \<le> length password \<and>
       (\<exists>p. ParsePasswordHash encoded = Inr p \<and> password_Verify argon p password
          \<and> (\<forall>other. password_Verify argon p other \<longleftrightarrow> argon other salt = argon password salt))"
proof (cases "length password < 12")
  case True
  then show ?thesis by (simp add: HashPassword_def)
next
  case False
  have n: "CHR ''$'' \<notin> set (RawStd_encode s)" for s
  proof -
    have "CHR ''$'' \<notin> set std_alphabet" by code_simp
    then show ?thesis using raw_std.enc_symbols by blast
  qed
  let ?e = "''argon2id$'' @ RawStd_encode salt @ ''$'' @ RawStd_encode (argon password salt)"
  have "SplitByte (''argon2id'' @ CHR ''$'' # RawStd_encode salt @ CHR ''$'' # RawStd_encode (argon password salt)) (CHR ''$'')
      = [''argon2id'', RawStd_encode salt, RawStd_encode (argon password salt)]"
    by (simp add: SplitByte_append SplitByte_no_sep n)
  then have "ParsePasswordHash ?e = Inr \<lparr>ph_salt = salt, ph_hash = argon password salt\<rparr>"
    by (simp add: ParsePasswordHash_def raw_std.dec_enc)
  then show ?thesis using False by (simp add: HashPassword_def password_Verify_def)
qed

lemma sessions_get_Some:
  assumes "sessions_get i now live = (Some sess, live')"
  shows "live' = live \<and> live i = Some sess \<and> now \<le> se_expires sess"
  using assms by (auto simp: sessions_get_def split: option.splits if_splits)

lemma sessions_get_other:
  "snd (sessions_get i now live) j = (if j = i \<and> fst (sessions_get i now live) = None then None else live j)"
  by (auto simp: sessions_get_def split: option.splits)

end
