(* ===== verification/Http_Api.thy ===== *)
theory Http_Api
  imports Config Keys Console_Auth Mail_Address Template_Render Unsubscribe Store_Admin Netguard
begin

text \<open>
  Package httpapi, internal/httpapi: the REST surface. A handler takes the headers set on the
  response so far, the request, what the environment gives it (clocks, random bytes) and the
  state, and returns the response and the state. The store behind the interfaces KeyStore,
  MessageStore and Pinger is a record of operations on a state of any type.
\<close>

section \<open>Requests and responses\<close>

datatype json = JString bytes | JBool bool | JObject "(bytes \<times> json) list"

datatype body = NoBody | JsonBody json | HtmlBody bytes | TextBody bytes

type_synonym headers = "(bytes \<times> bytes) list"

text \<open>Header.Set.\<close>

definition set_header :: "bytes \<Rightarrow> bytes \<Rightarrow> headers \<Rightarrow> headers" where
  "set_header name value h = filter (\<lambda>kv. fst kv \<noteq> name) h @ [(name, value)]"

definition get_header :: "bytes \<Rightarrow> headers \<Rightarrow> bytes option" where
  "get_header name h = map_of h name"

record http_response =
  rs_status :: int
  rs_headers :: headers
  rs_body :: body

text \<open>
  The parts of http.Request the handlers read. \<open>rq_segments\<close> are the segments of the cleaned
  path; \<open>rq_body\<close> is what reading the whole body gives; \<open>rq_form\<close> is the posted form, None
  where ParseForm fails.
\<close>

record request =
  rq_method :: bytes
  rq_segments :: "bytes list"
  rq_header :: "bytes \<Rightarrow> bytes"
  rq_cookie :: "bytes \<Rightarrow> bytes option"
  rq_query :: "bytes \<Rightarrow> bytes"
  rq_form :: "(bytes \<Rightarrow> bytes) option"
  rq_remote_addr :: bytes
  rq_body :: "go_error + bytes"
  rq_path_value :: "bytes \<Rightarrow> bytes"
  rq_request_id :: bytes              \<comment> \<open>RequestIDFrom of the request's context\<close>

text \<open>What one request takes from outside: its readings of the clock and its random values.\<close>

record inputs =
  io_auth_now :: instant
  io_now :: instant
  io_ulid :: bytes                    \<comment> \<open>ulid.Make().String()\<close>
  io_request_rand :: "bytes option"   \<comment> \<open>the 12 bytes of newRequestID\<close>
  io_nonce :: "go_error + bytes"      \<comment> \<open>the nonce the keeper draws to encrypt the recipients\<close>
  io_session_rand :: "go_error + bytes"
  io_csrf_rand :: "go_error + bytes"

text \<open>The decoders of encoding/json for the request, and time.Duration.String.\<close>

record send_request =
  sr_from :: bytes
  sr_to :: bytes
  sr_subject :: bytes
  sr_html :: bytes
  sr_text :: bytes
  sr_reply_to :: bytes
  sr_headers :: "(bytes \<times> bytes) list option"
  sr_tags :: "(bytes \<times> bytes) list option"
  sr_scheduled_at :: bytes
  sr_variables :: "(bytes \<times> bytes) list option"

record api_lib =
  al_send_request :: "bytes \<Rightarrow> send_request option"
  al_string :: "bytes \<Rightarrow> bytes option"
  al_strings :: "bytes \<Rightarrow> bytes list option"
  al_duration_string :: "duration \<Rightarrow> bytes"

section \<open>The server\<close>

record 's backend =
  b_ping :: "'s \<Rightarrow> (go_error + unit) \<times> 's"
  b_key :: "bytes \<Rightarrow> 's \<Rightarrow> (go_error + api_key) \<times> 's"
  b_touch :: "int \<Rightarrow> addr \<Rightarrow> 's \<Rightarrow> (go_error + unit) \<times> 's"
  b_sends :: "int \<Rightarrow> 's \<Rightarrow> (go_error + nat) \<times> 's"
  b_domain :: "bytes \<Rightarrow> 's \<Rightarrow> (go_error + domain) \<times> 's"
  b_enqueue :: "go_error + bytes \<Rightarrow> new_message \<Rightarrow> 's \<Rightarrow> (go_error + message \<times> bool) \<times> 's"
  b_message :: "bytes \<Rightarrow> 's \<Rightarrow> (go_error + message) \<times> 's"
  b_filter :: "bytes list \<Rightarrow> 's \<Rightarrow> (go_error + bytes list \<times> bytes list) \<times> 's"
  b_suppress :: "bytes \<Rightarrow> bytes \<Rightarrow> bytes \<Rightarrow> bytes \<Rightarrow> 's \<Rightarrow> (go_error + unit) \<times> 's"

text \<open>
  The state a handler works on: the store, the calls of TouchAPIKey that recordKeyUse has left to
  run in the background, the console's sessions, and the request log: request id, method, path
  and status of each line.
\<close>

record 's api_state =
  ap_db :: 's
  ap_uses :: "(int \<times> addr) list"
  ap_sessions :: sessions
  ap_log :: "(bytes \<times> bytes \<times> bytes list \<times> int) list"

type_synonym 's handler = "headers \<Rightarrow> request \<Rightarrow> inputs \<Rightarrow> 's api_state \<Rightarrow> http_response \<times> 's api_state"

text \<open>A call of the store from a handler.\<close>

definition db :: "('s \<Rightarrow> 'a \<times> 's) \<Rightarrow> 's api_state \<Rightarrow> 'a \<times> 's api_state" where
  "db f a = (let (r, s) = f (ap_db a) in (r, a\<lparr>ap_db := s\<rparr>))"

record 's server =
  sv_cfg :: config
  sv_backend :: "'s backend"
  sv_unsubscribe_secret :: bytes
  sv_version :: bytes
  sv_started :: instant

definition new_server :: "golib \<Rightarrow> config \<Rightarrow> 's backend \<Rightarrow> bytes \<Rightarrow> instant \<Rightarrow> 's server" where
  "new_server L cfg b version now =
     \<lparr>sv_cfg = cfg, sv_backend = b, sv_unsubscribe_secret = DeriveSecret L (cf_dkim_master_key cfg),
      sv_version = version, sv_started = now\<rparr>"

section \<open>server.go: answers\<close>

definition writeJSON :: "headers \<Rightarrow> request \<Rightarrow> int \<Rightarrow> json \<Rightarrow> http_response" where
  "writeJSON h r status body =
     \<lparr>rs_status = status,
      rs_headers = set_header ''X-Content-Type-Options'' ''nosniff''
        (set_header ''Content-Type'' ''application/json; charset=utf-8'' h),
      rs_body = (if rq_method r = ''HEAD'' then NoBody else JsonBody body)\<rparr>"

definition writeError :: "headers \<Rightarrow> request \<Rightarrow> int \<Rightarrow> bytes \<Rightarrow> bytes \<Rightarrow> http_response" where
  "writeError h r status kind' message =
     writeJSON h r status
       (JObject [(''error'', JObject [(''type'', JString kind'), (''message'', JString message)]),
                 (''request_id'', JString (rq_request_id r))])"

definition internalError :: "headers \<Rightarrow> request \<Rightarrow> http_response" where
  "internalError h r = writeError h r 500 ''internal_error'' ''the request could not be completed''"

definition message_json :: "golib \<Rightarrow> message \<Rightarrow> json" where
  "message_json L m =
     JObject [(''id'', JString (msg_id m)), (''status'', JString (status_text (msg_status m))),
              (''created_at'', JString (rfc3339 L (msg_created_at m)))]"

section \<open>auth.go\<close>

definition ScopeEmailsSend :: bytes where "ScopeEmailsSend = ''emails:send''"
definition ScopeEmailsRead :: bytes where "ScopeEmailsRead = ''emails:read''"
definition ScopeDomainsRead :: bytes where "ScopeDomainsRead = ''domains:read''"

definition bearerToken :: "request \<Rightarrow> bytes option" where
  "bearerToken r =
     (let raw = rq_header r ''Authorization'' in
      if raw = [] then None
      else case Cut raw '' '' of
        None \<Rightarrow> None
      | Some (scheme, token) \<Rightarrow>
          if \<not> EqualFold scheme ''bearer'' then None
          else
            let token = TrimSpace token in
            if token = [] then None else Some token)"

definition splitHostPort :: "bytes \<Rightarrow> (bytes \<times> bytes) option" where
  "splitHostPort hostport =
     (case LastIndexByte hostport CHR '':'' of
        None \<Rightarrow> None
      | Some i \<Rightarrow> Some (TrimSuffix (TrimPrefix (take i hostport) ''['') '']'', drop (i + 1) hostport))"

definition clientAddr :: "golib \<Rightarrow> request \<Rightarrow> addr" where
  "clientAddr L r =
     (let host = (case splitHostPort (rq_remote_addr r) of None \<Rightarrow> rq_remote_addr r | Some (h, _) \<Rightarrow> h) in
      case netip_parse L host of None \<Rightarrow> NoAddr | Some a \<Rightarrow> a)"

definition unauthorized :: "headers \<Rightarrow> request \<Rightarrow> http_response" where
  "unauthorized h r =
     writeError (set_header ''WWW-Authenticate'' (''Bearer realm='' @ [CHR 0x22] @ ''aiemail'' @ [CHR 0x22]) h) r
       401 ''unauthorized'' ''the API key is missing, invalid, or no longer usable''"

text \<open>recordKeyUse starts a goroutine; the call it makes stays pending until the goroutine runs.\<close>

definition recordKeyUse :: "golib \<Rightarrow> request \<Rightarrow> int \<Rightarrow> 's api_state \<Rightarrow> 's api_state" where
  "recordKeyUse L r i a = a\<lparr>ap_uses := ap_uses a @ [(i, clientAddr L r)]\<rparr>"

definition run_key_use :: "'s server \<Rightarrow> int \<times> addr \<Rightarrow> 's api_state \<Rightarrow> 's api_state" where
  "run_key_use srv u a =
     (let a1 = a\<lparr>ap_uses := remove1 u (ap_uses a)\<rparr> in
      snd (db (b_touch (sv_backend srv) (fst u) (snd u)) a1))"

text \<open>\<open>next\<close> receives the key that APIKeyFrom finds in the request's context.\<close>

definition requireKey ::
  "golib \<Rightarrow> 's server \<Rightarrow> bytes \<Rightarrow> (api_key \<Rightarrow> 's handler) \<Rightarrow> 's handler" where
  "requireKey L srv scope nxt h r io a =
     (case bearerToken r of
        None \<Rightarrow> (unauthorized h r, a)
      | Some secret \<Rightarrow>
          if key_Parse L secret \<noteq> None then (unauthorized h r, a)
          else
            (case db (b_key (sv_backend srv) (key_Hash L secret)) a of
               (Inl e, a1) \<Rightarrow> (unauthorized h r, a1)
             | (Inr key, a1) \<Rightarrow>
                 if Revoked key \<or> Expired key (io_auth_now io) then (unauthorized h r, a1)
                 else if \<not> HasScope key scope
                 then (writeError h r 403 ''insufficient_scope''
                         ''this key is not permitted to perform that action'', a1)
                 else nxt key h r io (recordKeyUse L r (ak_id key) a1)))"

section \<open>send.go\<close>

definition maxBodyBytes :: int where "maxBodyBytes = 2 * 1048576"

definition decodeRecipients :: "api_lib \<Rightarrow> bytes \<Rightarrow> bytes + bytes list" where
  "decodeRecipients A rawTo =
     (if rawTo = [] then Inl ''at least one recipient is required''
      else case al_string A rawTo of
        Some single \<Rightarrow> Inr [single]
      | None \<Rightarrow>
          (case al_strings A rawTo of
             Some many \<Rightarrow> Inr many
           | None \<Rightarrow> Inl ''must be an address or an array of addresses''))"

definition orEmpty :: "(bytes \<times> bytes) list option \<Rightarrow> (bytes \<times> bytes) list" where
  "orEmpty m = (case m of None \<Rightarrow> [] | Some kv \<Rightarrow> kv)"

definition template_error_text :: "golib \<Rightarrow> template_error \<Rightarrow> bytes" where
  "template_error_text L e =
     (case e of
        ErrTemplateTooLarge \<Rightarrow> ''template exceeds 524288 bytes''
      | ErrOutputTooLarge \<Rightarrow> ''rendered output exceeds 1048576 bytes''
      | ErrTooManyTags \<Rightarrow> ''template contains more than 500 tags''
      | ErrTooManyVariables \<Rightarrow> ''more than 100 variables supplied''
      | ErrUnclosedTag \<Rightarrow> ''template has an unclosed tag''
      | UnknownVariableError n \<Rightarrow> ''template uses '' @ quote L n @ '' but no such variable was supplied''
      | InvalidNameError n \<Rightarrow>
          quote L n @ '' is not a valid variable name; only letters, digits and underscore are allowed'')"

text \<open>
  The validations of buildMessage after the templates and before the domain, in the order of the
  code: None, or the problem. A map is its pairs in the order the iteration visits them.
\<close>

definition first_problem :: "bytes option list \<Rightarrow> bytes option" where
  "first_problem ps = (case filter (\<lambda>p. p \<noteq> None) ps of [] \<Rightarrow> None | p # _ \<Rightarrow> p)"

definition content_problem ::
  "golib \<Rightarrow> send_request \<Rightarrow> bytes \<Rightarrow> bytes \<Rightarrow> bytes \<Rightarrow> bytes option" where
  "content_problem L req subject bodyHTML bodyText =
     first_problem
       ([map_option (\<lambda>e. ''subject: '' @ mail_error_text L e) (ValidateSubject subject),
         if TrimSpace bodyHTML = [] \<and> TrimSpace bodyText = [] then Some ''either html or text is required'' else None,
         if sr_reply_to req \<noteq> [] then
           (case ParseAddress L (sr_reply_to req) of
              Inl e \<Rightarrow> Some (''reply_to: '' @ mail_error_text L e) | Inr _ \<Rightarrow> None)
         else None]
        @ map (\<lambda>(name, value). map_option (mail_error_text L) (ValidateCustomHeader L name value))
            (orEmpty (sr_headers req))
        @ map (\<lambda>(name, value).
            if ContainsControl name \<or> ContainsControl value
            then Some (''tag '' @ quote L name @ '' contains a control character'') else None)
            (orEmpty (sr_tags req)))"

definition schedule_of :: "golib \<Rightarrow> send_request \<Rightarrow> instant \<Rightarrow> bytes + instant option" where
  "schedule_of L req now =
     (if sr_scheduled_at req = [] then Inr None
      else case parse_rfc3339 L (sr_scheduled_at req) of
        None \<Rightarrow> Inl ''scheduled_at must be an RFC 3339 timestamp''
      | Some t \<Rightarrow> if t < now then Inl ''scheduled_at must be in the future'' else Inr (Some t))"

text \<open>The end of buildMessage: the domain, then the message.\<close>

definition finish_message ::
  "golib \<Rightarrow> 's server \<Rightarrow> request \<Rightarrow> inputs \<Rightarrow> api_key \<Rightarrow> send_request \<Rightarrow> bytes \<Rightarrow> address \<Rightarrow> bytes list
   \<Rightarrow> bytes \<Rightarrow> bytes \<Rightarrow> bytes \<Rightarrow> instant option \<Rightarrow> 's api_state \<Rightarrow> (bytes + new_message) \<times> 's api_state" where
  "finish_message L srv r io key req raw from' recipients subject bodyHTML bodyText scheduledAt a =
     (case db (b_domain (sv_backend srv) (a_domain from')) a of
        (Inl e, a1) \<Rightarrow>
          (Inl (if errors_is e ErrNotFound
                then ''from: domain '' @ quote L (a_domain from') @ '' is not registered on this account''
                else ''the sending domain could not be verified''), a1)
      | (Inr domain, a1) \<Rightarrow>
          if dom_status domain \<noteq> Verified
          then (Inl (''from: domain '' @ quote L (a_domain from') @ '' is not verified''), a1)
          else
            (Inr \<lparr>n_id = io_ulid io, n_api_key_id = ak_id key, n_domain_id = dom_id domain,
                  n_from = a_email from', n_recipients = recipients, n_subject = subject,
                  n_html = bodyHTML, n_text = bodyText,
                  n_headers = json_map_enc L (orEmpty (sr_headers req)),
                  n_tags = json_map_enc L (orEmpty (sr_tags req)), n_scheduled_at = scheduledAt,
                  n_idempotency_key = TrimSpace (rq_header r ''Idempotency-Key''),
                  n_request_hash = sha256 L raw\<rparr>, a1))"

definition buildMessage ::
  "golib \<Rightarrow> api_lib \<Rightarrow> 's server \<Rightarrow> request \<Rightarrow> inputs \<Rightarrow> api_key \<Rightarrow> send_request \<Rightarrow> bytes
   \<Rightarrow> 's api_state \<Rightarrow> (bytes + new_message) \<times> 's api_state" where
  "buildMessage L A srv r io key req raw a =
     (case ParseAddress L (sr_from req) of
        Inl e \<Rightarrow> (Inl (''from: '' @ mail_error_text L e), a)
      | Inr from' \<Rightarrow>
     (case decodeRecipients A (sr_to req) of
        Inl e \<Rightarrow> (Inl (''to: '' @ e), a)
      | Inr recipientList \<Rightarrow>
     (case ParseRecipients L recipientList of
        Inl e \<Rightarrow> (Inl (''to: '' @ mail_error_text L e), a)
      | Inr recipients \<Rightarrow>
     (case db (b_filter (sv_backend srv) recipients) a of
        (Inl e, a1) \<Rightarrow> (Inl ''the recipient list could not be checked'', a1)
      | (Inr (allowed, blocked), a1) \<Rightarrow>
     if allowed = [] then (Inl (''every recipient is suppressed: '' @ Join blocked '', ''), a1)
     else
     (case Render (sr_subject req) (orEmpty (sr_variables req)) False of
        Inl e \<Rightarrow> (Inl (''subject: '' @ template_error_text L e), a1)
      | Inr subject \<Rightarrow>
     (case Render (sr_html req) (orEmpty (sr_variables req)) True of
        Inl e \<Rightarrow> (Inl (''html: '' @ template_error_text L e), a1)
      | Inr bodyHTML \<Rightarrow>
     (case Render (sr_text req) (orEmpty (sr_variables req)) False of
        Inl e \<Rightarrow> (Inl (''text: '' @ template_error_text L e), a1)
      | Inr bodyText \<Rightarrow>
     (case content_problem L req subject bodyHTML bodyText of
        Some problem \<Rightarrow> (Inl problem, a1)
      | None \<Rightarrow>
     (case schedule_of L req (io_now io) of
        Inl problem \<Rightarrow> (Inl problem, a1)
      | Inr scheduledAt \<Rightarrow>
          finish_message L srv r io key req raw from' allowed subject bodyHTML bodyText scheduledAt a1)))))))))"

text \<open>The answer to the result of EnqueueMessage.\<close>

definition enqueue_answer ::
  "golib \<Rightarrow> headers \<Rightarrow> request \<Rightarrow> go_error + message \<times> bool \<Rightarrow> http_response" where
  "enqueue_answer L h r res =
     (case res of
        Inl e \<Rightarrow>
          if errors_is e ErrIdempotencyMismatch
          then writeError h r 422 ''idempotency_mismatch''
                 ''this idempotency key was already used with a different request''
          else if errors_is e ErrIdempotencyInFlight
          then writeError (set_header ''Retry-After'' ''1'' h) r 409 ''request_in_flight''
                 ''an identical request is still being processed''
          else internalError h r
      | Inr (result, replayed) \<Rightarrow>
          writeJSON (if replayed then set_header ''Idempotent-Replay'' ''true'' h else h) r 202
            (message_json L result))"

text \<open>The quota: None when the request may go on.\<close>

definition quota_answer ::
  "'s server \<Rightarrow> headers \<Rightarrow> request \<Rightarrow> api_key \<Rightarrow> 's api_state \<Rightarrow> http_response option \<times> 's api_state" where
  "quota_answer srv h r key a =
     (if ak_quota key > 0 then
        (case db (b_sends (sv_backend srv) (ak_id key)) a of
           (Inl e, a1) \<Rightarrow> (Some (internalError h r), a1)
         | (Inr used, a1) \<Rightarrow>
             if int used \<ge> ak_quota key
             then (Some (writeError (set_header ''Retry-After'' ''3600'' h) r 429 ''quota_exceeded''
                           ''this key has reached its hourly quota''), a1)
             else (None, a1))
      else (None, a))"

definition handleSend :: "golib \<Rightarrow> api_lib \<Rightarrow> 's server \<Rightarrow> api_key \<Rightarrow> 's handler" where
  "handleSend L A srv key h r io a =
     (if \<not> cf_send_enabled (sv_cfg srv)
      then (writeError h r 503 ''sending_disabled'' ''sending is disabled on this deployment'', a)
      else
     (case (case rq_body r of Inl e \<Rightarrow> None | Inr raw \<Rightarrow> if int (length raw) > maxBodyBytes then None else Some raw) of
        None \<Rightarrow> (writeError h r 413 ''payload_too_large'' ''the request body is too large'', a)
      | Some raw \<Rightarrow>
     (case al_send_request A raw of
        None \<Rightarrow> (writeError h r 400 ''invalid_json'' ''the request body could not be parsed'', a)
      | Some req \<Rightarrow>
     (case buildMessage L A srv r io key req raw a of
        (Inl problem, a1) \<Rightarrow> (writeError h r 422 ''invalid_request'' problem, a1)
      | (Inr msg, a1) \<Rightarrow>
     (case quota_answer srv h r key a1 of
        (Some refusal, a2) \<Rightarrow> (refusal, a2)
      | (None, a2) \<Rightarrow>
     (case db (b_enqueue (sv_backend srv) (io_nonce io) msg) a2 of
        (res, a3) \<Rightarrow> (enqueue_answer L h r res, a3)))))))"

section \<open>server.go: the other endpoints\<close>

text \<open>Duration.Round(time.Second): half a second is rounded away from zero.\<close>

definition round_second :: "duration \<Rightarrow> duration" where
  "round_second d =
     (if d < 0 then - (((- d) + 500000000) div Second * Second) else (d + 500000000) div Second * Second)"

definition handleHealth :: "api_lib \<Rightarrow> 's server \<Rightarrow> 's handler" where
  "handleHealth A srv h r io a =
     (writeJSON h r 200
        (JObject [(''status'', JString ''ok''), (''version'', JString (sv_version srv)),
                  (''uptime'', JString (al_duration_string A (round_second (io_now io - sv_started srv))))]), a)"

definition handleReady :: "'s server \<Rightarrow> 's handler" where
  "handleReady srv h r io a =
     (case db (b_ping (sv_backend srv)) a of
        (Inl e, a1) \<Rightarrow>
          (writeJSON h r 503 (JObject [(''status'', JString ''unavailable''), (''database'', JString ''unreachable'')]), a1)
      | (Inr _, a1) \<Rightarrow>
          (writeJSON h r 200 (JObject [(''status'', JString ''ok''), (''database'', JString ''ok''),
             (''send_enabled'', JBool (cf_send_enabled (sv_cfg srv)))]), a1))"

definition handleGetMessage :: "golib \<Rightarrow> 's server \<Rightarrow> api_key \<Rightarrow> 's handler" where
  "handleGetMessage L srv key h r io a =
     (case db (b_message (sv_backend srv) (rq_path_value r ''id'')) a of
        (Inl e, a1) \<Rightarrow>
          (if errors_is e ErrNotFound then writeError h r 404 ''not_found'' ''no such message''
           else internalError h r, a1)
      | (Inr msg, a1) \<Rightarrow> (writeJSON h r 200 (message_json L msg), a1))"

definition handleNotFound :: "'s handler" where
  "handleNotFound h r io a = (writeError h r 404 ''not_found'' ''no such endpoint'', a)"

end
