(* ===== verification/Http_Server.thy ===== *)
theory Http_Server
  imports Http_Api
begin

text \<open>
  Package httpapi, continued: the unsubscribe page (unsubscribe.go), the published policies
  (wellknown.go), the middleware (middleware.go) and the routes (Server.Handler).
\<close>

section \<open>unsubscribe.go\<close>

definition unsubscribe_style :: bytes where
  "unsubscribe_style =
     ''<style>body{background:#0b0f14;color:#e5e7eb;font:16px/1.6 system-ui,sans-serif;display:grid;place-items:center;min-height:90vh;margin:0}''
     @ [CHR 0x0A] @ ''main{max-width:26rem;padding:2rem;text-align:center}''
     @ [CHR 0x0A] @ ''button{font:inherit;background:#1a2331;color:#e5e7eb;border:1px solid #1f2937;border-radius:.5rem;padding:.6rem 1.2rem;cursor:pointer}''
     @ [CHR 0x0A] @ ''.muted{color:#9ca3af;font-size:.9rem}</style>''"

definition renderUnsubscribe :: "headers \<Rightarrow> int \<Rightarrow> bytes \<Rightarrow> bytes \<Rightarrow> http_response" where
  "renderUnsubscribe h status problem confirmAddress =
     \<lparr>rs_status = status,
      rs_headers =
        set_header ''Referrer-Policy'' ''no-referrer''
        (set_header ''Cache-Control'' ''no-store''
        (set_header ''X-Frame-Options'' ''DENY''
        (set_header ''X-Content-Type-Options'' ''nosniff''
        (set_header ''Content-Security-Policy''
           (''default-src '' @ [CHR 0x27] @ ''none'' @ [CHR 0x27] @ ''; style-src '' @ [CHR 0x27]
            @ ''unsafe-inline'' @ [CHR 0x27] @ ''; form-action '' @ [CHR 0x27] @ ''self'' @ [CHR 0x27]
            @ ''; base-uri '' @ [CHR 0x27] @ ''none'' @ [CHR 0x27] @ ''; frame-ancestors '' @ [CHR 0x27]
            @ ''none'' @ [CHR 0x27])
        (set_header ''Content-Type'' ''text/html; charset=utf-8'' h))))),
      rs_body = HtmlBody
        (if problem \<noteq> [] then
           ''<!doctype html><title>Unsubscribe</title>'' @ unsubscribe_style
           @ ''<main><h1>Unsubscribe</h1><p>'' @ EscapeString problem @ ''</p></main>''
         else if confirmAddress \<noteq> [] then
           ''<!doctype html><title>Unsubscribe</title>'' @ unsubscribe_style
           @ ''<main><h1>Unsubscribe</h1><p>Stop sending email to <strong>''
           @ EscapeString confirmAddress @ ''</strong>?</p>''
           @ ''<form method='' @ [CHR 0x22] @ ''post'' @ [CHR 0x22] @ ''><button type='' @ [CHR 0x22]
           @ ''submit'' @ [CHR 0x22] @ ''>Unsubscribe me</button></form>''
           @ ''<p class='' @ [CHR 0x22] @ ''muted'' @ [CHR 0x22]
           @ ''>Nothing changes until you confirm.</p></main>''
         else
           ''<!doctype html><title>Unsubscribed</title>'' @ unsubscribe_style
           @ ''<main><h1>Unsubscribed</h1><p>You will not receive further email from this sender.</p></main>'')\<rparr>"

definition bad_link :: bytes where
  "bad_link = ''This unsubscribe link is not valid or has expired.''"

definition handleUnsubscribeForm :: "golib \<Rightarrow> 's server \<Rightarrow> 's handler" where
  "handleUnsubscribeForm L srv h r io a =
     (case unsubscribe_Verify L (sv_unsubscribe_secret srv) (rq_path_value r ''token'') (io_now io) of
        Inl e \<Rightarrow> (renderUnsubscribe h 400 bad_link [], a)
      | Inr claim \<Rightarrow> (renderUnsubscribe h 200 [] (t_address claim), a))"

definition handleUnsubscribe :: "golib \<Rightarrow> 's server \<Rightarrow> 's handler" where
  "handleUnsubscribe L srv h r io a =
     (case unsubscribe_Verify L (sv_unsubscribe_secret srv) (rq_path_value r ''token'') (io_now io) of
        Inl e \<Rightarrow> (renderUnsubscribe h (if e = TokenExpired then 410 else 400) bad_link [], a)
      | Inr claim \<Rightarrow>
          (case db (b_suppress (sv_backend srv) (t_address claim) ''unsubscribe''
                      ''requested by the recipient'' (t_message_id claim)) a of
             (Inl e, a1) \<Rightarrow> (renderUnsubscribe h 500 ''Something went wrong. Please try again.'' [], a1)
           | (Inr _, a1) \<Rightarrow> (renderUnsubscribe h 200 [] [], a1)))"

section \<open>wellknown.go\<close>

definition nl :: bytes where "nl = [CHR 0x0A]"

definition plain_text :: "headers \<Rightarrow> bytes \<Rightarrow> bytes \<Rightarrow> http_response" where
  "plain_text h cache text' =
     \<lparr>rs_status = 200,
      rs_headers = set_header ''X-Content-Type-Options'' ''nosniff''
        (set_header ''Cache-Control'' cache (set_header ''Content-Type'' ''text/plain; charset=utf-8'' h)),
      rs_body = TextBody text'\<rparr>"

definition handleMTASTSPolicy :: "'s server \<Rightarrow> 's handler" where
  "handleMTASTSPolicy srv h r io a =
     (let c = sv_cfg srv in
      if cf_mta_sts_hosts c = [] then (writeError h r 404 ''not_found'' ''no policy is published'', a)
      else
        (plain_text h ''public, max-age=3600''
           (''version: STSv1'' @ nl @ ''mode: '' @ cf_mta_sts_mode c @ nl
            @ concat (map (\<lambda>host. ''mx: '' @ host @ nl) (cf_mta_sts_hosts c))
            @ ''max_age: '' @ itoa (cf_mta_sts_max_age c) @ nl), a))"

definition handleSecurityTxt :: "'s server \<Rightarrow> 's handler" where
  "handleSecurityTxt srv h r io a =
     (let c = sv_cfg srv in
      if cf_security_contact c = []
      then (writeError h r 404 ''not_found'' ''no security contact is published'', a)
      else
        (plain_text h ''public, max-age=86400''
           (''Contact: '' @ cf_security_contact c @ nl
            @ (if cf_security_policy_url c \<noteq> [] then ''Policy: '' @ cf_security_policy_url c @ nl else [])
            @ ''Preferred-Languages: en'' @ nl), a))"

section \<open>The routes\<close>

text \<open>
  The patterns of Server.Handler. A pattern for GET also matches HEAD, a wildcard matches one
  segment that is not empty, and what no pattern matches goes to handleNotFound. The console's
  own routes are the parameter \<open>ui\<close>, which gives a handler for the requests they match.
\<close>

definition is_get :: "request \<Rightarrow> bool" where
  "is_get r \<longleftrightarrow> rq_method r = ''GET'' \<or> rq_method r = ''HEAD''"

definition is_post :: "request \<Rightarrow> bool" where
  "is_post r \<longleftrightarrow> rq_method r = ''POST''"

definition with_value :: "bytes \<Rightarrow> bytes \<Rightarrow> request \<Rightarrow> request" where
  "with_value name v r = r\<lparr>rq_path_value := (rq_path_value r)(name := v)\<rparr>"

definition mux ::
  "golib \<Rightarrow> api_lib \<Rightarrow> 's server \<Rightarrow> (request \<Rightarrow> 's handler option) \<Rightarrow> 's handler" where
  "mux L A srv ui h r io a =
     (case ui r of
        Some f \<Rightarrow> f h r io a
      | None \<Rightarrow>
          (case rq_segments r of
             [x] \<Rightarrow>
               if is_get r \<and> x = ''healthz'' then handleHealth A srv h r io a
               else if is_get r \<and> x = ''readyz'' then handleReady srv h r io a
               else handleNotFound h r io a
           | [x, y] \<Rightarrow>
               if is_get r \<and> x = ''.well-known'' \<and> y = ''mta-sts.txt'' then handleMTASTSPolicy srv h r io a
               else if is_get r \<and> x = ''.well-known'' \<and> y = ''security.txt'' then handleSecurityTxt srv h r io a
               else if is_get r \<and> x = ''u'' \<and> y \<noteq> [] then handleUnsubscribeForm L srv h (with_value ''token'' y r) io a
               else if is_post r \<and> x = ''u'' \<and> y \<noteq> [] then handleUnsubscribe L srv h (with_value ''token'' y r) io a
               else if is_post r \<and> x = ''v1'' \<and> y = ''emails''
               then requireKey L srv ScopeEmailsSend (handleSend L A srv) h r io a
               else handleNotFound h r io a
           | [x, y, z] \<Rightarrow>
               if is_get r \<and> x = ''v1'' \<and> y = ''emails'' \<and> z \<noteq> []
               then requireKey L srv ScopeEmailsRead (handleGetMessage L srv) h (with_value ''id'' z r) io a
               else handleNotFound h r io a
           | _ \<Rightarrow> handleNotFound h r io a))"

section \<open>middleware.go\<close>

definition hex_digit :: "nat \<Rightarrow> char" where
  "hex_digit n = (''0123456789abcdef'') ! n"

definition hex_encode :: "bytes \<Rightarrow> bytes" where
  "hex_encode s = concat (map (\<lambda>c. [hex_digit (byte c div 16), hex_digit (byte c mod 16)]) s)"

definition newRequestID :: "bytes option \<Rightarrow> bytes" where
  "newRequestID rand = (case rand of None \<Rightarrow> ''unavailable'' | Some b \<Rightarrow> hex_encode b)"

definition withRequestID :: "'s handler \<Rightarrow> 's handler" where
  "withRequestID nxt h r io a =
     (let i = newRequestID (io_request_rand io) in
      nxt (set_header ''X-Request-Id'' i h) (r\<lparr>rq_request_id := i\<rparr>) io a)"

text \<open>statusRecorder: the status logged is the one the handler wrote, 200 when it wrote none.\<close>

definition withLogging :: "'s handler \<Rightarrow> 's handler" where
  "withLogging nxt h r io a =
     (let (resp, a1) = nxt h r io a in
      (resp, a1\<lparr>ap_log := ap_log a1 @ [(rq_request_id r, rq_method r, rq_segments r, rs_status resp)]\<rparr>))"

text \<open>
  withRecovery: a handler either replies or panics; a panic leaves the headers set so far on the
  response, and the answer is written with the request the middleware itself was given.
\<close>

type_synonym 's may_panic =
  "headers \<Rightarrow> request \<Rightarrow> inputs \<Rightarrow> 's api_state \<Rightarrow> (headers + http_response) \<times> 's api_state"

definition withRecovery :: "'s may_panic \<Rightarrow> 's handler" where
  "withRecovery nxt h r io a =
     (case nxt h r io a of
        (Inr resp, a1) \<Rightarrow> (resp, a1)
      | (Inl h1, a1) \<Rightarrow> (internalError h1 r, a1))"

definition no_panic :: "'s handler \<Rightarrow> 's may_panic" where
  "no_panic f h r io a = (let (resp, a1) = f h r io a in (Inr resp, a1))"

definition Handler ::
  "golib \<Rightarrow> api_lib \<Rightarrow> 's server \<Rightarrow> (request \<Rightarrow> 's handler option) \<Rightarrow> 's handler" where
  "Handler L A srv ui =
     withRecovery (no_panic (withRequestID (withLogging (mux L A srv ui))))"

end
