(* ===== verification/Console.thy ===== *)
theory Console
  imports Http_Server
begin

text \<open>
  Package console, internal/console: console.go and views.go, the operator interface. The pages
  are html/template files; what a template makes of its data is a parameter, as are the formats
  of times. A handler has the type of the API's handlers, and its sessions live in the same
  state.
\<close>

section \<open>views.go\<close>

text \<open>Time.UTC().Format with the layouts 2006-01-02 15:04 and 2006-01-02, and the cookie's date.\<close>

record time_formats =
  tf_minute :: "instant \<Rightarrow> bytes"
  tf_day :: "instant \<Rightarrow> bytes"
  tf_cookie :: "instant \<Rightarrow> bytes"

definition formatTime :: "time_formats \<Rightarrow> instant option \<Rightarrow> bytes" where
  "formatTime F t = (case t of None \<Rightarrow> [] | Some t \<Rightarrow> tf_minute F t)"

record domain_view =
  dv_name :: bytes
  dv_status :: bytes
  dv_token :: bytes
  dv_selector :: bytes
  dv_record :: bytes
  dv_last_checked_at :: bytes

definition newDomainView :: "time_formats \<Rightarrow> domain_listing \<Rightarrow> domain_view" where
  "newDomainView F d =
     \<lparr>dv_name = dl_name d, dv_status = domain_status_text (dl_status d), dv_token = dl_token d,
      dv_selector = dl_selector d, dv_record = dl_record d,
      dv_last_checked_at = formatTime F (dl_last_checked_at d)\<rparr>"

record key_view =
  kv_id :: int
  kv_name :: bytes
  kv_prefix :: bytes
  kv_scopes :: "bytes list"
  kv_quota :: int
  kv_expires_at :: bytes
  kv_revoked_at :: bytes
  kv_expired :: bool
  kv_last_used_at :: bytes
  kv_last_used_ip :: "addr option"

definition newKeyView :: "time_formats \<Rightarrow> instant \<Rightarrow> key_listing \<Rightarrow> key_view" where
  "newKeyView F now k =
     \<lparr>kv_id = kl_id k, kv_name = kl_name k, kv_prefix = kl_prefix k, kv_scopes = kl_scopes k,
      kv_quota = kl_quota k, kv_expires_at = tf_day F (kl_expires_at k),
      kv_revoked_at = formatTime F (kl_revoked_at k), kv_expired = (\<not> now < kl_expires_at k),
      kv_last_used_at = formatTime F (kl_last_used_at k), kv_last_used_ip = kl_last_used_ip k\<rparr>"

record message_view =
  mv_id :: bytes
  mv_status :: bytes
  mv_recipients :: "bytes list"
  mv_subject :: bytes
  mv_attempts :: int
  mv_last_error :: bytes
  mv_signed_at :: bytes
  mv_created_at :: bytes

definition newMessageView :: "time_formats \<Rightarrow> message_listing \<Rightarrow> message_view" where
  "newMessageView F m =
     \<lparr>mv_id = ml_id m, mv_status = status_text (ml_status m), mv_recipients = ml_recipients m,
      mv_subject = ml_subject m, mv_attempts = ml_attempts m,
      mv_last_error = (case ml_last_error m of None \<Rightarrow> [] | Some e \<Rightarrow> e),
      mv_signed_at = formatTime F (ml_signed_at m), mv_created_at = tf_minute F (ml_created_at m)\<rparr>"

record suppression_view =
  sv_address :: bytes
  sv_reason :: bytes
  sv_detail :: bytes
  sv_created_at :: bytes

definition newSuppressionView :: "time_formats \<Rightarrow> suppression \<Rightarrow> suppression_view" where
  "newSuppressionView F s =
     \<lparr>sv_address = sup_address s, sv_reason = sup_reason s, sv_detail = sup_detail s,
      sv_created_at = tf_minute F (sup_created_at s)\<rparr>"

section \<open>console.go\<close>

record 's console_store =
  cs_domains :: "'s \<Rightarrow> (go_error + domain_listing list) \<times> 's"
  cs_keys :: "'s \<Rightarrow> (go_error + key_listing list) \<times> 's"
  cs_messages :: "bytes \<Rightarrow> nat \<Rightarrow> 's \<Rightarrow> (go_error + message_listing list) \<times> 's"
  cs_counts :: "'s \<Rightarrow> (go_error + counts) \<times> 's"
  cs_revoke :: "int \<Rightarrow> 's \<Rightarrow> (go_error + unit) \<times> 's"
  cs_suppressions :: "nat \<Rightarrow> 's \<Rightarrow> (go_error + suppression list) \<times> 's"
  cs_unsuppress :: "bytes \<Rightarrow> 's \<Rightarrow> (go_error + unit) \<times> 's"

record console_options =
  op_password :: "password_hash option"
  op_secure :: bool
  op_env :: bytes
  op_version :: bytes
  op_send_enabled :: bool
  op_max_per_hour :: int

record view =
  v_title :: bytes
  v_nav :: bytes
  v_authed :: bool
  v_csrf :: bytes
  v_error :: bytes
  v_env :: bytes
  v_version :: bytes
  v_send_enabled :: bool
  v_max_per_hour :: int
  v_counts :: "counts option"
  v_domains :: "domain_view list"
  v_keys :: "key_view list"
  v_messages :: "message_view list"
  v_suppressions :: "suppression_view list"

definition no_view :: view where
  "no_view =
     \<lparr>v_title = [], v_nav = [], v_authed = False, v_csrf = [], v_error = [], v_env = [], v_version = [],
      v_send_enabled = False, v_max_per_hour = 0, v_counts = None, v_domains = [], v_keys = [],
      v_messages = [], v_suppressions = []\<rparr>"

text \<open>\<open>co_page\<close>: the templates, from the name of the page and its data to HTML.\<close>

record 's console =
  co_store :: "'s console_store"
  co_options :: console_options
  co_page :: "bytes \<Rightarrow> view \<Rightarrow> bytes"
  co_formats :: time_formats
  co_argon :: key_derivation

definition Enabled :: "'s console \<Rightarrow> bool" where
  "Enabled C \<longleftrightarrow> op_password (co_options C) \<noteq> None"

definition q1 :: "bytes \<Rightarrow> bytes" where
  "q1 s = [CHR 0x27] @ s @ [CHR 0x27]"

definition console_policy :: bytes where
  "console_policy = ''default-src '' @ q1 ''none'' @ ''; style-src '' @ q1 ''unsafe-inline'' @ ''; img-src ''
     @ q1 ''self'' @ '' data:; form-action '' @ q1 ''self'' @ ''; base-uri '' @ q1 ''none''
     @ ''; frame-ancestors '' @ q1 ''none''"

definition render :: "'s console \<Rightarrow> headers \<Rightarrow> bytes \<Rightarrow> view \<Rightarrow> http_response" where
  "render C h page data =
     \<lparr>rs_status = 200,
      rs_headers =
        set_header ''Content-Type'' ''text/html; charset=utf-8''
        (set_header ''Cache-Control'' ''no-store''
        (set_header ''Referrer-Policy'' ''same-origin''
        (set_header ''X-Content-Type-Options'' ''nosniff''
        (set_header ''X-Frame-Options'' ''DENY''
        (set_header ''Content-Security-Policy'' console_policy h))))),
      rs_body = HtmlBody (co_page C page data)\<rparr>"

text \<open>http.Error and http.Redirect.\<close>

definition http_Error :: "headers \<Rightarrow> bytes \<Rightarrow> int \<Rightarrow> http_response" where
  "http_Error h msg code =
     \<lparr>rs_status = code,
      rs_headers = set_header ''X-Content-Type-Options'' ''nosniff''
        (set_header ''Content-Type'' ''text/plain; charset=utf-8'' h),
      rs_body = TextBody (msg @ nl)\<rparr>"

definition Redirect :: "headers \<Rightarrow> request \<Rightarrow> bytes \<Rightarrow> http_response" where
  "Redirect h r url =
     \<lparr>rs_status = 303,
      rs_headers =
        (if (rq_method r = ''GET'' \<or> rq_method r = ''HEAD'') \<and> get_header ''Content-Type'' h = None
         then set_header ''Content-Type'' ''text/html; charset=utf-8'' (set_header ''Location'' url h)
         else set_header ''Location'' url h),
      rs_body = (if rq_method r = ''GET''
                 then HtmlBody (''<a href='' @ [CHR 0x22] @ url @ [CHR 0x22] @ ''>See Other</a>.'' @ nl @ nl)
                 else NoBody)\<rparr>"

definition sessionCookie :: bytes where "sessionCookie = ''aiemail_console''"

text \<open>The Set-Cookie lines of setSessionCookie and clearSessionCookie.\<close>

definition setSessionCookie :: "time_formats \<Rightarrow> bytes \<Rightarrow> bool \<Rightarrow> instant \<Rightarrow> headers \<Rightarrow> headers" where
  "setSessionCookie F i secure now h =
     h @ [(''Set-Cookie'', sessionCookie @ ''='' @ i @ ''; Path=/console; Expires='' @ tf_cookie F (now + SessionTTL)
           @ ''; HttpOnly'' @ (if secure then ''; Secure'' else []) @ ''; SameSite=Strict'')]"

definition clearSessionCookie :: "bool \<Rightarrow> headers \<Rightarrow> headers" where
  "clearSessionCookie secure h =
     h @ [(''Set-Cookie'', sessionCookie @ ''=; Path=/console; Max-Age=0; HttpOnly''
           @ (if secure then ''; Secure'' else []) @ ''; SameSite=Strict'')]"

definition currentSession :: "request \<Rightarrow> instant \<Rightarrow> 's api_state \<Rightarrow> session option \<times> 's api_state" where
  "currentSession r now a =
     (case rq_cookie r sessionCookie of
        None \<Rightarrow> (None, a)
      | Some i \<Rightarrow>
          let (sess, live) = sessions_get i now (ap_sessions a) in (sess, a\<lparr>ap_sessions := live\<rparr>))"

definition guard :: "'s console \<Rightarrow> bytes \<Rightarrow> (view \<Rightarrow> 's handler) \<Rightarrow> 's handler" where
  "guard C nav fn h r io a =
     (case currentSession r (io_now io) a of
        (None, a1) \<Rightarrow> (Redirect h r ''/console/login'', a1)
      | (Some sess, a1) \<Rightarrow>
          fn (no_view\<lparr>v_nav := nav, v_authed := True, v_csrf := se_csrf sess, v_env := op_env (co_options C),
                v_version := op_version (co_options C), v_send_enabled := op_send_enabled (co_options C),
                v_max_per_hour := op_max_per_hour (co_options C)\<rparr>) h r io a1)"

text \<open>\<open>fn\<close> receives the posted form, which r.PostFormValue reads.\<close>

definition guardPost :: "((bytes \<Rightarrow> bytes) \<Rightarrow> 's handler) \<Rightarrow> 's handler" where
  "guardPost fn h r io a =
     (case currentSession r (io_now io) a of
        (None, a1) \<Rightarrow> (Redirect h r ''/console/login'', a1)
      | (Some sess, a1) \<Rightarrow>
          (case rq_form r of
             None \<Rightarrow> (http_Error h ''bad request'' 400, a1)
           | Some form \<Rightarrow>
               if \<not> validCSRF (se_csrf sess) (form ''csrf'')
               then (http_Error h ''invalid request token'' 403, a1)
               else fn form h r io a1))"

definition loginForm :: "'s console \<Rightarrow> 's handler" where
  "loginForm C h r io a =
     (case currentSession r (io_now io) a of
        (Some sess, a1) \<Rightarrow> (Redirect h r ''/console'', a1)
      | (None, a1) \<Rightarrow> (render C h ''page-login'' (no_view\<lparr>v_title := ''Sign in''\<rparr>), a1))"

definition login :: "'s console \<Rightarrow> password_hash \<Rightarrow> 's handler" where
  "login C hash h r io a =
     (case rq_form r of
        None \<Rightarrow> (http_Error h ''bad request'' 400, a)
      | Some form \<Rightarrow>
          if \<not> password_Verify (co_argon C) hash (form ''password'')
          then (render C h ''page-login'' (no_view\<lparr>v_title := ''Sign in'', v_error := ''That password is not correct.''\<rparr>), a)
          else
            (case sessions_create (io_session_rand io) (io_csrf_rand io) (io_now io) (ap_sessions a) of
               (Inl e, live) \<Rightarrow> (http_Error h ''could not start a session'' 500, a\<lparr>ap_sessions := live\<rparr>)
             | (Inr (i, _), live) \<Rightarrow>
                 (Redirect (setSessionCookie (co_formats C) i (op_secure (co_options C)) (io_now io) h) r ''/console'',
                  a\<lparr>ap_sessions := live\<rparr>)))"

definition logout :: "'s console \<Rightarrow> (bytes \<Rightarrow> bytes) \<Rightarrow> 's handler" where
  "logout C form h r io a =
     (Redirect (clearSessionCookie (op_secure (co_options C)) h) r ''/console/login'',
      case rq_cookie r sessionCookie of
        None \<Rightarrow> a | Some i \<Rightarrow> a\<lparr>ap_sessions := sessions_destroy i (ap_sessions a)\<rparr>)"

definition page_failed :: "headers \<Rightarrow> http_response" where
  "page_failed h = http_Error h ''the page could not be loaded'' 500"

text \<open>A page that shows the result of one query.\<close>

definition listing ::
  "'s console \<Rightarrow> ('s \<Rightarrow> (go_error + 'a) \<times> 's) \<Rightarrow> bytes \<Rightarrow> ('a \<Rightarrow> view \<Rightarrow> view) \<Rightarrow> view \<Rightarrow> 's handler" where
  "listing C query page fill v h r io a =
     (case db query a of
        (Inl e, a1) \<Rightarrow> (page_failed h, a1)
      | (Inr rows, a1) \<Rightarrow> (render C h page (fill rows v), a1))"

definition overview :: "'s console \<Rightarrow> view \<Rightarrow> 's handler" where
  "overview C = listing C (cs_counts (co_store C)) ''page-overview''
     (\<lambda>counts v. v\<lparr>v_title := ''Overview'', v_counts := Some counts\<rparr>)"

definition domains :: "'s console \<Rightarrow> view \<Rightarrow> 's handler" where
  "domains C = listing C (cs_domains (co_store C)) ''page-domains''
     (\<lambda>rows v. v\<lparr>v_title := ''Domains'', v_domains := v_domains v @ map (newDomainView (co_formats C)) rows\<rparr>)"

definition keys :: "'s console \<Rightarrow> view \<Rightarrow> 's handler" where
  "keys C v h r io = listing C (cs_keys (co_store C)) ''page-keys''
     (\<lambda>rows v. v\<lparr>v_title := ''API keys'', v_keys := v_keys v @ map (newKeyView (co_formats C) (io_now io)) rows\<rparr>) v h r io"

definition status_filter :: "bytes \<Rightarrow> bytes" where
  "status_filter status =
     (if status \<in> {[], ''queued'', ''deferred'', ''failed'', ''sent'', ''delivered''} then status else [])"

definition messages :: "'s console \<Rightarrow> view \<Rightarrow> 's handler" where
  "messages C v h r io = listing C (cs_messages (co_store C) (status_filter (rq_query r ''status'')) 200) ''page-messages''
     (\<lambda>rows v. v\<lparr>v_title := ''Messages'', v_messages := v_messages v @ map (newMessageView (co_formats C)) rows\<rparr>) v h r io"

definition suppressions :: "'s console \<Rightarrow> view \<Rightarrow> 's handler" where
  "suppressions C = listing C (cs_suppressions (co_store C) 500) ''page-suppressions''
     (\<lambda>rows v. v\<lparr>v_title := ''Suppressions'', v_suppressions := v_suppressions v @ map (newSuppressionView (co_formats C)) rows\<rparr>)"

definition unsuppress :: "'s console \<Rightarrow> (bytes \<Rightarrow> bytes) \<Rightarrow> 's handler" where
  "unsuppress C form h r io a =
     (let address = form ''address'' in
      if address = [] then (http_Error h ''no address given'' 400, a)
      else (Redirect h r ''/console/suppressions'', snd (db (cs_unsuppress (co_store C) address) a)))"

definition revokeKey :: "'s console \<Rightarrow> (bytes \<Rightarrow> bytes) \<Rightarrow> 's handler" where
  "revokeKey C form h r io a =
     (case ParseInt64 (form ''id'') of
        None \<Rightarrow> (http_Error h ''bad key id'' 400, a)
      | Some i \<Rightarrow> (Redirect h r ''/console/keys'', snd (db (cs_revoke (co_store C) i) a)))"

text \<open>Console.Routes, mounted when a password is configured.\<close>

definition Routes :: "'s console \<Rightarrow> password_hash \<Rightarrow> request \<Rightarrow> 's handler option" where
  "Routes C hash r =
     (case rq_segments r of
        [x] \<Rightarrow> if is_get r \<and> x = ''console'' then Some (guard C ''overview'' (overview C)) else None
      | [x, y] \<Rightarrow>
          if x \<noteq> ''console'' then None
          else if is_get r then
            (if y = ''domains'' then Some (guard C ''domains'' (domains C))
             else if y = ''keys'' then Some (guard C ''keys'' (keys C))
             else if y = ''messages'' then Some (guard C ''messages'' (messages C))
             else if y = ''suppressions'' then Some (guard C ''suppressions'' (suppressions C))
             else if y = ''login'' then Some (loginForm C)
             else None)
          else if is_post r then
            (if y = ''logout'' then Some (guardPost (logout C))
             else if y = ''login'' then Some (login C hash)
             else None)
          else None
      | [x, y, z] \<Rightarrow>
          if x = ''console'' \<and> is_post r \<and> y = ''suppressions'' \<and> z = ''remove'' then Some (guardPost (unsuppress C))
          else if x = ''console'' \<and> is_post r \<and> y = ''keys'' \<and> z = ''revoke'' then Some (guardPost (revokeKey C))
          else None
      | _ \<Rightarrow> None)"

definition console_ui :: "'s console \<Rightarrow> request \<Rightarrow> 's handler option" where
  "console_ui C r =
     (case op_password (co_options C) of None \<Rightarrow> None | Some hash \<Rightarrow> Routes C hash r)"

end
