(* ===== verification/Http_Properties.thy ===== *)
theory Http_Properties
  imports Http_Server Store_Queue
begin

text \<open>
  What the API lets into the store. The locale \<open>api_backend\<close> states what the handlers rely on in
  the interfaces KeyStore and MessageStore; inside it, every request either leaves the store as
  it is, or makes the one call it is allowed to make. The store of package store is then shown
  to keep the contract.
\<close>

section \<open>Answers\<close>

lemma status_simps [simp]:
  "rs_status (writeJSON h r st b) = st" "rs_status (writeError h r st k m) = st"
  "rs_status (internalError h r) = 500" "rs_status (unauthorized h r) = 401"
  "rs_status (renderUnsubscribe h st p c) = st" "rs_status (plain_text h c t) = 200"
  by (simp_all add: writeJSON_def writeError_def internalError_def unauthorized_def
      renderUnsubscribe_def plain_text_def)

lemma body_writeJSON [simp]:
  "rs_body (writeJSON h r st b) = (if rq_method r = ''HEAD'' then NoBody else JsonBody b)"
  by (simp add: writeJSON_def)

lemma db_eq: "db f a = (x, a') \<longleftrightarrow> f (ap_db a) = (x, ap_db a') \<and> a' = a\<lparr>ap_db := ap_db a'\<rparr>"
  by (auto simp: db_def split: prod.splits)

lemma first_problem_None: "first_problem ps = None \<longleftrightarrow> list_all (\<lambda>p. p = None) ps"
  by (induction ps) (auto simp: first_problem_def)

text \<open>What the checks of buildMessage say of a message, whatever the state of the store.\<close>

definition well_formed :: "golib \<Rightarrow> new_message \<Rightarrow> bool" where
  "well_formed L m \<longleftrightarrow>
     ValidateSubject (n_subject m) = None \<and> n_recipients m \<noteq> []
     \<and> (\<forall>x \<in> insert (n_from m) (set (n_recipients m)). \<exists>raw ad. ParseAddress L raw = Inr ad \<and> x = a_email ad)
     \<and> (\<exists>hs. n_headers m = json_map_enc L hs \<and> list_all (\<lambda>(n, v). ValidateCustomHeader L n v = None) hs)"

lemma parsed_recipients:
  assumes "ParseRecipients L raw = Inr out" "x \<in> set out"
  shows "\<exists>r ad. ParseAddress L r = Inr ad \<and> x = a_email ad"
proof -
  obtain as where "list_all2 (\<lambda>r a. ParseAddress L r = Inr a) raw as" "x \<in> a_email ` set as"
    using assms subsetD [OF set_first_by(2)]
    by (auto simp: ParseRecipients_def recipients_loop_iff image_iff split: if_splits) fastforce
  then obtain i where "i < length as" "x = a_email (as ! i)" "ParseAddress L (raw ! i) = Inr (as ! i)"
    by (auto simp: list_all2_conv_all_nth in_set_conv_nth)
  then show ?thesis by blast
qed

lemma well_formedI:
  assumes "ParseAddress L rawf = Inr from'" "ParseRecipients L raw = Inr rs"
    and "content_problem L req subject html plain = None" "n_subject m = subject"
    and "n_from m = a_email from'" "set (n_recipients m) \<subseteq> set rs" "n_recipients m \<noteq> []"
    and "n_headers m = json_map_enc L (orEmpty (sr_headers req))"
  shows "well_formed L m"
proof -
  have "ValidateSubject (n_subject m) = None"
    "list_all (\<lambda>(n, v). ValidateCustomHeader L n v = None) (orEmpty (sr_headers req))"
    using assms(3,4) by (auto simp: content_problem_def first_problem_None list_all_iff)
  moreover have "\<exists>raw ad. ParseAddress L raw = Inr ad \<and> x = a_email ad" if "x \<in> set (n_recipients m)" for x
    using parsed_recipients [OF assms(2)] assms(6) that by blast
  ultimately show ?thesis
    using assms(1,5,7,8) unfolding well_formed_def by blast
qed

text \<open>The patterns of the routes, one by one.\<close>

lemma mux_cases:
  assumes "mux L A srv ui h r io a = (resp, a')" "ui r = None"
  obtains "handleHealth A srv h r io a = (resp, a')" | "handleReady srv h r io a = (resp, a')"
  | "handleNotFound h r io a = (resp, a')" | "handleMTASTSPolicy srv h r io a = (resp, a')"
  | "handleSecurityTxt srv h r io a = (resp, a')"
  | y where "handleUnsubscribeForm L srv h (with_value ''token'' y r) io a = (resp, a')"
  | "rq_method r = ''POST''" "requireKey L srv ScopeEmailsSend (handleSend L A srv) h r io a = (resp, a')"
  | z where "requireKey L srv ScopeEmailsRead (handleGetMessage L srv) h (with_value ''id'' z r) io a = (resp, a')"
  | y where "rq_method r = ''POST''" "rq_segments r = [''u'', y]"
      "handleUnsubscribe L srv h (with_value ''token'' y r) io a = (resp, a')"
  using assms unfolding mux_def is_post_def
  by (simp split: list.splits if_splits)

section \<open>The contract of the store\<close>

locale api_backend =
  fixes B :: "'s backend"
    and key_at :: "'s \<Rightarrow> bytes \<Rightarrow> api_key option"
    and sends :: "'s \<Rightarrow> int \<Rightarrow> nat"
    and trusted :: "'s \<Rightarrow> bytes \<Rightarrow> int \<Rightarrow> bool"
    and barred :: "'s \<Rightarrow> bytes \<Rightarrow> bool"
    and unchanged :: "'s \<Rightarrow> 's \<Rightarrow> bool"
  assumes unchanged_refl: "unchanged s s"
    and unchanged_trans: "unchanged s s1 \<Longrightarrow> unchanged s1 s2 \<Longrightarrow> unchanged s s2"
    and unchanged_views: "unchanged s s' \<Longrightarrow> key_at s' = key_at s \<and> sends s' = sends s
      \<and> trusted s' = trusted s \<and> barred s' = barred s"
    and queries: "unchanged s (snd (b_ping B s))" "unchanged s (snd (b_key B hash s))"
      "unchanged s (snd (b_sends B i s))" "unchanged s (snd (b_domain B name s))"
      "unchanged s (snd (b_message B m s))" "unchanged s (snd (b_filter B xs s))"
    and key_answer: "b_key B hash s = (Inr k, s') \<Longrightarrow> key_at s hash = Some k"
    and sends_answer: "b_sends B i s = (Inr n, s') \<Longrightarrow> n = sends s i"
    and domain_answer: "b_domain B name s = (Inr d, s') \<Longrightarrow> dom_status d = Verified \<Longrightarrow> trusted s name (dom_id d)"
    and filter_answer: "b_filter B xs s = (Inr (al, bl), s') \<Longrightarrow> al = filter (\<lambda>x. \<not> barred s x) xs"
begin

definition authorised :: "golib \<Rightarrow> bytes \<Rightarrow> instant \<Rightarrow> request \<Rightarrow> 's \<Rightarrow> api_key \<Rightarrow> bool" where
  "authorised L scope now r s k \<longleftrightarrow>
     (\<exists>secret. bearerToken r = Some secret \<and> key_Parse L secret = None
        \<and> key_at s (key_Hash L secret) = Some k)
     \<and> \<not> Revoked k \<and> \<not> Expired k now \<and> HasScope k scope"

text \<open>What buildMessage promises of a message, and what the quota adds.\<close>

definition proper :: "golib \<Rightarrow> api_key \<Rightarrow> 's \<Rightarrow> new_message \<Rightarrow> bool" where
  "proper L k s m \<longleftrightarrow>
     n_api_key_id m = ak_id k
     \<and> (\<exists>from'. \<exists>raw. ParseAddress L raw = Inr from' \<and> n_from m = a_email from'
          \<and> trusted s (a_domain from') (n_domain_id m))
     \<and> well_formed L m \<and> length (n_recipients m) \<le> 50
     \<and> (\<forall>x \<in> set (n_recipients m). \<not> barred s x)"

definition within_quota :: "api_key \<Rightarrow> 's \<Rightarrow> bool" where
  "within_quota k s \<longleftrightarrow> (0 < ak_quota k \<longrightarrow> int (sends s (ak_id k)) < ak_quota k)"

definition quiet :: "'s api_state \<Rightarrow> 's api_state \<Rightarrow> bool" where
  "quiet a a' \<longleftrightarrow> unchanged (ap_db a) (ap_db a')"

lemma db_query:
  assumes "db f a = (x, a')" "unchanged (ap_db a) (snd (f (ap_db a)))"
  shows "quiet a a'"
  using assms unfolding db_eq quiet_def by simp

lemma quiet_chain: "quiet a a1 \<Longrightarrow> quiet a1 a2 \<Longrightarrow> quiet a a2"
  unfolding quiet_def by (rule unchanged_trans)

lemma quiet_self [simp]: "quiet a a"
  by (simp add: quiet_def unchanged_refl)

lemma proper_unchanged: "unchanged s s' \<Longrightarrow> proper L k s' m = proper L k s m"
  using unchanged_views by (simp add: proper_def)

lemma finish_message_result:
  assumes "sv_backend srv = B"
    and "finish_message L srv r io key req raw from' recipients subject html plain at' a = (res, a')"
  shows "quiet a a' \<and> (\<forall>m. res = Inr m \<longrightarrow>
     n_api_key_id m = ak_id key \<and> n_from m = a_email from' \<and> n_recipients m = recipients
     \<and> n_subject m = subject \<and> n_headers m = json_map_enc L (orEmpty (sr_headers req)) \<and> trusted (ap_db a) (a_domain from') (n_domain_id m))"
proof -
  obtain x a1 where d: "db (b_domain B (a_domain from')) a = (x, a1)" by fastforce
  have q: "quiet a a1" using db_query [OF d] queries(4) by simp
  show ?thesis
  proof (cases x)
    case (Inl e)
    with d assms q show ?thesis by (auto simp: finish_message_def)
  next
    case (Inr dm)
    with d have "b_domain B (a_domain from') (ap_db a) = (Inr dm, ap_db a1)" by (simp add: db_eq)
    from domain_answer [OF this] Inr d assms q show ?thesis
      by (auto simp: finish_message_def split: if_splits)
  qed
qed

lemma buildMessage_result:
  assumes "sv_backend srv = B" "buildMessage L A srv r io key req raw a = (res, a')"
  shows "quiet a a' \<and> (\<forall>m. res = Inr m \<longrightarrow> proper L key (ap_db a) m)"
proof (cases "\<exists>from' rl rs. ParseAddress L (sr_from req) = Inr from' \<and> decodeRecipients A (sr_to req) = Inr rl
    \<and> ParseRecipients L rl = Inr rs")
  case False
  then have "a' = a \<and> isl res"
    using assms(2) by (auto simp: buildMessage_def split: sum.splits)
  then show ?thesis by auto
next
  case True
  then obtain from' rl rs where p: "ParseAddress L (sr_from req) = Inr from'"
    "decodeRecipients A (sr_to req) = Inr rl" "ParseRecipients L rl = Inr rs" by blast
  obtain x a1 where f: "db (b_filter B rs) a = (x, a1)" by fastforce
  have q: "quiet a a1" using db_query [OF f] queries(6) by simp
  show ?thesis
  proof (cases x)
    case (Inl e)
    with f p assms q show ?thesis by (auto simp: buildMessage_def)
  next
    case (Inr ab)
    then obtain al bl where x: "x = Inr (al, bl)" by (cases ab) auto
    with f have "b_filter B rs (ap_db a) = (Inr (al, bl), ap_db a1)" by (simp add: db_eq)
    from filter_answer [OF this] have al: "al = filter (\<lambda>x. \<not> barred (ap_db a) x) rs" .
    have len: "length al \<le> 50"
      unfolding al by (rule le_trans [OF length_filter_le ParseRecipients_bounds(2) [OF p(3)]])
    show ?thesis
    proof (cases "isl res")
      case True
      have "quiet a1 a'"
        using assms(2) x f p assms(1) finish_message_result [OF assms(1)]
        by (auto simp: buildMessage_def split: if_splits sum.splits option.splits)
      with q True show ?thesis by (auto intro: quiet_chain)
    next
      case False
      then obtain m where m: "res = Inr m" by (cases res) auto
      from assms(2) x f p m assms(1) obtain subject html plain at' where
        ne: "al \<noteq> []" and c: "content_problem L req subject html plain = None"
        and fin: "finish_message L srv r io key req raw from' al subject html plain at' a1 = (Inr m, a')"
        by (auto simp: buildMessage_def split: if_splits sum.splits option.splits)
      note fr = finish_message_result [OF assms(1) fin]
      have "well_formed L m"
        using well_formedI [OF p(1,3) c, of m] al ne fr by auto
      moreover have "trusted (ap_db a) (a_domain from') (n_domain_id m)"
        using fr unchanged_views [of "ap_db a" "ap_db a1"] q by (simp add: quiet_def)
      ultimately have "proper L key (ap_db a) m"
        using fr p(1) al len by (auto simp: proper_def)
      with m q fr show ?thesis by (auto intro: quiet_chain)
    qed
  qed
qed

lemma quota_answer_result:
  assumes "sv_backend srv = B" "quota_answer srv h r key a = (x, a')"
  shows "quiet a a' \<and> (x = None \<longrightarrow> within_quota key (ap_db a)) \<and> (\<forall>resp. x = Some resp \<longrightarrow> rs_status resp \<noteq> 202)"
proof (cases "ak_quota key > 0")
  case True
  obtain y a1 where d: "db (b_sends B (ak_id key)) a = (y, a1)" by fastforce
  have q: "quiet a a1" using db_query [OF d] queries(3) by simp
  from d have "y = Inr n \<Longrightarrow> n = sends (ap_db a) (ak_id key)" for n
    using sends_answer by (auto simp: db_eq)
  with True d q assms show ?thesis
    by (cases y) (auto simp: quota_answer_def within_quota_def split: if_splits)
qed (use assms in \<open>auto simp: quota_answer_def within_quota_def\<close>)

text \<open>The one effect a request to send can have.\<close>

lemma handleSend_effect:
  assumes "sv_backend srv = B" "handleSend L A srv key h r io a = (resp, a')"
  obtains (none) "quiet a a'" "rs_status resp \<noteq> 202"
  | (enqueue) m s1 res where "cf_send_enabled (sv_cfg srv)" "proper L key (ap_db a) m"
      "within_quota key (ap_db a)" "unchanged (ap_db a) s1"
      "b_enqueue B (io_nonce io) m s1 = (res, ap_db a')" "resp = enqueue_answer L h r res"
proof -
  consider (refused) "a' = a" "rs_status resp \<noteq> 202"
    | (built) raw req where "cf_send_enabled (sv_cfg srv)" "(case buildMessage L A srv r io key req raw a of
           (Inl problem, a1) \<Rightarrow> (writeError h r 422 ''invalid_request'' problem, a1)
         | (Inr msg, a1) \<Rightarrow>
            (case quota_answer srv h r key a1 of
               (Some refusal, a2) \<Rightarrow> (refusal, a2)
             | (None, a2) \<Rightarrow>
                 (case db (b_enqueue (sv_backend srv) (io_nonce io) msg) a2 of
                    (res, a3) \<Rightarrow> (enqueue_answer L h r res, a3)))) = (resp, a')"
    using assms(2) unfolding handleSend_def
    by (auto split: if_splits sum.splits option.splits)
  then show thesis
  proof cases
    case refused
    then show thesis using none by simp
  next
    case built
    obtain x a1 where b: "buildMessage L A srv r io key req raw a = (x, a1)" by fastforce
    note br = buildMessage_result [OF assms(1) b]
    show thesis
    proof (cases x)
      case (Inl e)
      then show thesis using none br built(2) b assms(2) by auto
    next
      case (Inr m)
      obtain y a2 where qa: "quota_answer srv h r key a1 = (y, a2)" by fastforce
      note qr = quota_answer_result [OF assms(1) qa]
      have q2: "quiet a a2" using br qr quiet_chain by blast
      show thesis
      proof (cases y)
        case (Some z)
        then show thesis using none q2 qr built(2) b Inr qa assms(2) by auto
      next
        case None
        obtain res a3 where e: "db (b_enqueue B (io_nonce io) m) a2 = (res, a3)" by fastforce
        then have "resp = enqueue_answer L h r res" "a' = a3"
          using built(2) b Inr qa None assms by auto
        moreover have "within_quota key (ap_db a)"
          using qr None br unchanged_views [of "ap_db a" "ap_db a1"] by (simp add: within_quota_def quiet_def)
        ultimately show thesis
          using enqueue [OF built(1), of m "ap_db a2" res] br Inr q2 e by (simp add: quiet_def db_eq)
      qed
    qed
  qed
qed

lemma requireKey_effect:
  assumes "sv_backend srv = B" "requireKey L srv scope nxt h r io a = (resp, a')"
  obtains (unauthorized) "quiet a a'" "resp = unauthorized h r"
  | (forbidden) "quiet a a'" "rs_status resp = 403"
  | (admitted) k a1 where "authorised L scope (io_auth_now io) r (ap_db a) k" "quiet a a1"
      "nxt k h r io a1 = (resp, a')"
proof (cases "bearerToken r")
  case None
  then show thesis using assms unauthorized by (simp add: requireKey_def)
next
  case (Some secret)
  show thesis
  proof (cases "key_Parse L secret")
    case (Some e)
    then show thesis using \<open>bearerToken r = Some secret\<close> assms unauthorized by (simp add: requireKey_def)
  next
    case None
    obtain x a1 where d: "db (b_key B (key_Hash L secret)) a = (x, a1)" by fastforce
    have q: "quiet a a1" using db_query [OF d] queries(2) by simp
    show thesis
    proof (cases x)
      case (Inl e)
      then show thesis using Some None d q assms unauthorized by (simp add: requireKey_def)
    next
      case (Inr k)
      with d have k: "key_at (ap_db a) (key_Hash L secret) = Some k"
        using key_answer by (simp add: db_eq)
      have use: "quiet a (recordKeyUse L r (ak_id k) a1)" using q by (simp add: quiet_def recordKeyUse_def)
      consider "Revoked k \<or> Expired k (io_auth_now io)" | "\<not> HasScope k scope"
          "\<not> (Revoked k \<or> Expired k (io_auth_now io))"
        | "authorised L scope (io_auth_now io) r (ap_db a) k"
        using Some None k by (auto simp: authorised_def)
      then show thesis
      proof cases
        case 1
        then show thesis using Some None Inr d q assms unauthorized by (simp add: requireKey_def)
      next
        case 2
        then show thesis using Some None Inr d q assms forbidden by (auto simp: requireKey_def)
      next
        case 3
        then have "nxt k h r io (recordKeyUse L r (ak_id k) a1) = (resp, a')"
          using Some None Inr d assms by (auto simp: requireKey_def authorised_def)
        then show thesis using admitted 3 use by blast
      qed
    qed
  qed
qed

text \<open>A request the console does not answer: what it can do to the store.\<close>

lemma request_simps [simp]:
  "bearerToken (r\<lparr>rq_request_id := i\<rparr>) = bearerToken r"
  "authorised L scope now (r\<lparr>rq_request_id := i\<rparr>) s k = authorised L scope now r s k"
  by (simp_all add: bearerToken_def authorised_def)

lemma mux_effect:
  assumes "sv_backend srv = B" "mux L A srv ui h r io a = (resp, a')" "ui r = None"
  obtains (idle) "quiet a a'" "rs_status resp \<noteq> 202"
  | (send) k m s1 res where "rq_method r = ''POST''" "authorised L ScopeEmailsSend (io_auth_now io) r (ap_db a) k"
      "cf_send_enabled (sv_cfg srv)" "proper L k (ap_db a) m" "within_quota k (ap_db a)" "unchanged (ap_db a) s1"
      "b_enqueue B (io_nonce io) m s1 = (res, ap_db a')" "resp = enqueue_answer L h r res"
  | (unsubscribe) tok claim res where "rq_method r = ''POST''" "rq_segments r = [''u'', tok]"
      "unsubscribe_Verify L (sv_unsubscribe_secret srv) tok (io_now io) = Inr claim"
      "b_suppress B (t_address claim) ''unsubscribe'' ''requested by the recipient'' (t_message_id claim) (ap_db a)
         = (res, ap_db a')" "rs_status resp = (if isl res then 500 else 200)"
proof -
  show thesis
  proof (rule mux_cases [OF assms(2,3)])
    assume "handleHealth A srv h r io a = (resp, a')"
    then show thesis by - (rule idle; auto simp: handleHealth_def)
  next
    assume "handleReady srv h r io a = (resp, a')"
    then have "quiet a a' \<and> rs_status resp \<noteq> 202" using queries(1) [of "ap_db a"] assms(1)
      by (auto simp: handleReady_def db_def quiet_def case_prod_unfold Let_def split: sum.splits)
    then show thesis using idle by blast
  next
    assume "handleNotFound h r io a = (resp, a')"
    then show thesis by - (rule idle; auto simp: handleNotFound_def)
  next
    assume "handleMTASTSPolicy srv h r io a = (resp, a')"
    then show thesis by - (rule idle; auto simp: handleMTASTSPolicy_def Let_def split: if_splits)
  next
    assume "handleSecurityTxt srv h r io a = (resp, a')"
    then show thesis by - (rule idle; auto simp: handleSecurityTxt_def Let_def split: if_splits)
  next
    fix y assume "handleUnsubscribeForm L srv h (with_value ''token'' y r) io a = (resp, a')"
    then show thesis by - (rule idle; auto simp: handleUnsubscribeForm_def split: sum.splits)
  next
    assume post: "rq_method r = ''POST''" "requireKey L srv ScopeEmailsSend (handleSend L A srv) h r io a = (resp, a')"
    show thesis
    proof (rule requireKey_effect [OF assms(1) post(2)])
      fix k a1 assume k: "authorised L ScopeEmailsSend (io_auth_now io) r (ap_db a) k" "quiet a a1"
        "handleSend L A srv k h r io a1 = (resp, a')"
      note v = unchanged_views [OF k(2) [unfolded quiet_def]]
      show thesis
      proof (rule handleSend_effect [OF assms(1) k(3)])
        assume "quiet a1 a'" "rs_status resp \<noteq> 202"
        then show thesis using idle k(2) quiet_chain by blast
      next
        fix m s1 res assume "cf_send_enabled (sv_cfg srv)" "proper L k (ap_db a1) m"
          "within_quota k (ap_db a1)" "unchanged (ap_db a1) s1"
          "b_enqueue B (io_nonce io) m s1 = (res, ap_db a')" "resp = enqueue_answer L h r res"
        moreover have "proper L k (ap_db a) m" "within_quota k (ap_db a)"
          using calculation v by (simp_all add: proper_def within_quota_def)
        moreover have "unchanged (ap_db a) s1"
          using k(2) calculation(4) unchanged_trans unfolding quiet_def by blast
        ultimately show thesis using send [OF post(1) k(1)] by blast
      qed
    qed (use idle in auto)
  next
    fix z assume get: "requireKey L srv ScopeEmailsRead (handleGetMessage L srv) h (with_value ''id'' z r) io a = (resp, a')"
    show thesis
    proof (rule requireKey_effect [OF assms(1) get])
      fix k a1 assume k: "quiet a a1" "handleGetMessage L srv k h (with_value ''id'' z r) io a1 = (resp, a')"
      have "quiet a1 a' \<and> rs_status resp \<noteq> 202"
        using k(2) queries(5) [of "ap_db a1"] assms(1)
        by (auto simp: handleGetMessage_def quiet_def db_def case_prod_unfold Let_def split: sum.splits if_splits)
      then show thesis using idle k(1) quiet_chain by blast
    qed (use idle in auto)
  next
    fix y assume link: "rq_method r = ''POST''" "rq_segments r = [''u'', y]"
      "handleUnsubscribe L srv h (with_value ''token'' y r) io a = (resp, a')"
    show thesis
    proof (cases "unsubscribe_Verify L (sv_unsubscribe_secret srv) y (io_now io)")
      case (Inl e)
      then show thesis using link by - (rule idle; auto simp: handleUnsubscribe_def with_value_def split: if_splits)
    next
      case (Inr claim)
      obtain res a1 where d: "db (b_suppress B (t_address claim) ''unsubscribe'' ''requested by the recipient''
          (t_message_id claim)) a = (res, a1)" by fastforce
      then have "a' = a1 \<and> rs_status resp = (if isl res then 500 else 200)"
        using link(3) Inr assms(1) by (cases res) (auto simp: handleUnsubscribe_def with_value_def)
      then show thesis using unsubscribe [OF link(1,2) Inr, of res] d by (simp add: db_eq)
    qed
  qed
qed

end

section \<open>The store keeps the contract\<close>

definition store_Ping :: "store \<Rightarrow> (go_error + unit) \<times> store" where
  "store_Ping s = exec [] (stmt_query (\<lambda>_. ())) s"

definition store_backend :: "golib \<Rightarrow> store backend" where
  "store_backend L =
     \<lparr>b_ping = store_Ping, b_key = APIKeyByHash, b_touch = TouchAPIKey, b_sends = SendsInLastHour,
      b_domain = DomainByName, b_enqueue = EnqueueMessage L, b_message = MessageByID,
      b_filter = FilterSuppressed L, b_suppress = Suppress L\<rparr>"

definition key_at :: "store \<Rightarrow> bytes \<Rightarrow> api_key option" where
  "key_at s hash = map_option api_key_of (List.find (\<lambda>k. k_secret_hash k = hash) (st_keys s))"

definition trusted :: "store \<Rightarrow> bytes \<Rightarrow> int \<Rightarrow> bool" where
  "trusted s name i \<longleftrightarrow> (\<exists>d \<in> set (st_domains s). d_name d = name \<and> d_id d = i \<and> d_status d = Verified)"

definition same_tables :: "store \<Rightarrow> store \<Rightarrow> bool" where
  "same_tables s s' \<longleftrightarrow> (\<exists>f. s' = s\<lparr>st_fates := f\<rparr>)"

lemma same_tables_tail [simp]: "same_tables s s" "same_tables s (tail_fates s)"
  by (auto simp: same_tables_def tail_fates_def intro: exI [of _ "st_fates s"])

lemma snd_lookup:
  "snd (case run_wrapped what texts (stmt_query q) s of (Inl e, s') \<Rightarrow> (Inl e, s')
        | (Inr None, s') \<Rightarrow> (Inl e0, s') | (Inr (Some k), s') \<Rightarrow> (Inr (f k), s')) = tail_fates s"
  using snd_query [of what texts q s]
  by (auto simp del: snd_query split: prod.splits sum.splits option.splits)

lemma lookup_InrD:
  assumes "(case run_wrapped what texts (stmt_query q) s of (Inl e, s') \<Rightarrow> (Inl e, s')
        | (Inr None, s') \<Rightarrow> (Inl e0, s') | (Inr (Some k), s') \<Rightarrow> (Inr (f k), s')) = (Inr x, s')"
  shows "\<exists>k. q (tail_fates s) = Some k \<and> x = f k"
  using assms query_InrD [of what texts q s] by (auto split: prod.splits sum.splits option.splits)

lemma snd_FilterSuppressed: "same_tables s (snd (FilterSuppressed L xs s))"
proof (cases "xs = []")
  case False
  let ?q = "\<lambda>s. filter (\<lambda>h. h \<in> set (map (SuppressionHash L) xs)) (map p_hash (st_suppressions s))"
  have "snd (FilterSuppressed L xs s) = snd (run_wrapped ''loading suppressions'' [] (stmt_query ?q) s)"
    using False by (auto simp: FilterSuppressed_def Let_def simp del: snd_query split: prod.splits sum.splits)
  then show ?thesis by simp
qed (simp add: FilterSuppressed_def)

interpretation api: api_backend "store_backend L" key_at "\<lambda>s i. sends_of i s" trusted "listed L" same_tables for L
proof
  show "same_tables s s" for s by simp
  show "same_tables s s1 \<Longrightarrow> same_tables s1 s2 \<Longrightarrow> same_tables s s2" for s s1 s2
    by (auto simp: same_tables_def)
  show "same_tables s s' \<Longrightarrow> key_at s' = key_at s \<and> (\<lambda>i. sends_of i s') = (\<lambda>i. sends_of i s)
      \<and> trusted s' = trusted s \<and> listed L s' = listed L s" for s s'
    by (auto simp: same_tables_def key_at_def sends_of_def trusted_def listed_def fun_eq_iff)
  show "same_tables s (snd (b_ping (store_backend L) s))" for s
    by (rule exec_cases [of "[]" "stmt_query (\<lambda>_. ())" s])
       (auto simp: store_backend_def store_Ping_def stmt_query_def)
  show "same_tables s (snd (b_key (store_backend L) hash s))" for hash s
    by (simp add: store_backend_def APIKeyByHash_def snd_lookup)
  show "same_tables s (snd (b_sends (store_backend L) i s))" for i s
    by (simp add: store_backend_def SendsInLastHour_def)
  show "same_tables s (snd (b_domain (store_backend L) name s))" for name s
    by (simp add: store_backend_def DomainByName_def snd_lookup)
  show "same_tables s (snd (b_message (store_backend L) m s))" for m s
    by (simp add: store_backend_def MessageByID_def snd_lookup)
  show "same_tables s (snd (b_filter (store_backend L) xs s))" for xs s
    by (simp add: store_backend_def snd_FilterSuppressed)
  show "key_at s hash = Some k" if "b_key (store_backend L) hash s = (Inr k, s')" for hash s k s'
    using lookup_InrD [OF that [unfolded store_backend_def backend.simps APIKeyByHash_def]]
    by (auto simp: key_at_def)
  show "n = sends_of i s" if "b_sends (store_backend L) i s = (Inr n, s')" for i s n s'
    using query_InrD [OF that [unfolded store_backend_def backend.simps SendsInLastHour_def]]
    by (simp add: sends_of_def)
  show "trusted s name (dom_id d)" if "b_domain (store_backend L) name s = (Inr d, s')" "dom_status d = Verified"
    for name s d s'
    using lookup_InrD [OF that(1) [unfolded store_backend_def backend.simps DomainByName_def]] that(2)
    by (auto simp: trusted_def dest!: find_SomeD)
  show "al = filter (\<lambda>x. \<not> listed L s x) xs" if "b_filter (store_backend L) xs s = (Inr (al, bl), s')" for xs s al bl s'
    using FilterSuppressed_answered [of L xs s al bl s'] that by (simp add: store_backend_def)
qed

section \<open>Properties\<close>

text \<open>The request as the routes see it, after withRequestID.\<close>

definition tagged :: "request \<Rightarrow> inputs \<Rightarrow> request" where
  "tagged r io = r\<lparr>rq_request_id := newRequestID (io_request_rand io)\<rparr>"

lemma tagged_simps [simp]:
  "rq_method (tagged r io) = rq_method r" "rq_segments (tagged r io) = rq_segments r"
  "bearerToken (tagged r io) = bearerToken r"
  "api.authorised L scope now (tagged r io) s k = api.authorised L scope now r s k"
  by (simp_all add: tagged_def)

lemma Handler_mux:
  assumes "Handler L A srv ui h r io a = (resp, a')"
  obtains a1 where "mux L A srv ui (set_header ''X-Request-Id'' (newRequestID (io_request_rand io)) h) (tagged r io) io a
      = (resp, a1)" "ap_db a' = ap_db a1" "ap_uses a' = ap_uses a1" "ap_sessions a' = ap_sessions a1"
  using assms
  by (auto simp: Handler_def withRecovery_def no_panic_def withRequestID_def withLogging_def tagged_def
      Let_def split: prod.splits sum.splits)

text \<open>What the row of an accepted message says about the request that stored it.\<close>

lemma proper_row:
  assumes "api.proper L L k s m" "acceptable L rand m s1 row" "same_tables s s1"
  shows "m_api_key_id row = Some (ak_id k) \<and> m_status row = Queued \<and> m_hashes row \<noteq> [] \<and> length (m_hashes row) \<le> 50
     \<and> set (m_hashes row) \<inter> p_hash ` set (st_suppressions s) = {}
     \<and> (\<exists>d raw from'. d \<in> set (st_domains s) \<and> d_status d = Verified \<and> m_domain_id row = d_id d
          \<and> ParseAddress L raw = Inr from' \<and> m_from row = a_email from' \<and> a_domain from' = d_name d)"
proof -
  obtain encrypted hashes clear headers tags where
    p: "packRecipients L rand (st_keeper s1) (n_recipients m) = Inr (encrypted, hashes, clear)"
    and row: "row = new_row m encrypted hashes clear headers tags (st_now s1)"
    using assms(2) unfolding acceptable_def by blast
  have h: "hashes = map (SuppressionHash L) (n_recipients m)"
    using p by (auto simp: packRecipients_def Let_def split: option.splits sum.splits)
  have "set hashes \<inter> p_hash ` set (st_suppressions s) = {}"
    using assms(1) by (auto simp: h api.proper_def listed_def)
  moreover obtain from' raw d where "ParseAddress L raw = Inr from'" "n_from m = a_email from'"
    "d \<in> set (st_domains s)" "d_name d = a_domain from'" "d_id d = n_domain_id m" "d_status d = Verified"
    using assms(1) unfolding api.proper_def trusted_def by blast
  then have "\<exists>d raw from'. d \<in> set (st_domains s) \<and> d_status d = Verified \<and> n_domain_id m = d_id d
      \<and> ParseAddress L raw = Inr from' \<and> n_from m = a_email from' \<and> a_domain from' = d_name d"
    by (intro exI [of _ d] exI [of _ raw] exI [of _ from']) simp
  ultimately show ?thesis
    using assms(1) by (simp add: row new_row_def h api.proper_def well_formed_def)
qed

lemma authorised_row:
  assumes "api.authorised L scope now r s k"
  obtains secret row where "bearerToken r = Some secret" "row \<in> set (st_keys s)" "k = api_key_of row"
    "k_secret_hash row = key_Hash L secret" "k_revoked_at row = None" "now < k_expires_at row" "scope \<in> set (k_scopes row)"
  using assms
  by (auto simp: api.authorised_def key_at_def api_key_of_def Revoked_def Expired_def HasScope_def list_ex_iff
      dest!: find_SomeD)

text \<open>
  C4. Whatever is sent to the server outside the console, a request adds at most one message to
  the store, and only when sending is enabled and the request carries the secret of an API key
  that is registered, not revoked, not expired, holds the scope emails:send and has not used up
  its hourly quota; the message is then queued under that key and under a verified domain, which
  is the domain of its from address, and has between one and fifty recipients, none of them
  suppressed. A request answered 202 names a message that is in the store.
\<close>

theorem only_authorised_requests_store_messages:
  assumes "Handler L A srv ui h r io a = (resp, a')"
    and "sv_backend srv = store_backend L" "ui (tagged r io) = None"
  shows "(st_messages (ap_db a') = st_messages (ap_db a) \<or>
      (\<exists>row secret k. st_messages (ap_db a') = st_messages (ap_db a) @ [row] \<and> cf_send_enabled (sv_cfg srv)
         \<and> bearerToken r = Some secret \<and> k \<in> set (st_keys (ap_db a)) \<and> k_secret_hash k = key_Hash L secret
         \<and> k_revoked_at k = None \<and> io_auth_now io < k_expires_at k \<and> ScopeEmailsSend \<in> set (k_scopes k)
         \<and> (0 < k_quota k \<longrightarrow> int (sends_of (k_id k) (ap_db a)) < k_quota k)
         \<and> m_api_key_id row = Some (k_id k) \<and> m_status row = Queued
         \<and> m_hashes row \<noteq> [] \<and> length (m_hashes row) \<le> 50
         \<and> set (m_hashes row) \<inter> p_hash ` set (st_suppressions (ap_db a)) = {}
         \<and> (\<exists>d raw from'. d \<in> set (st_domains (ap_db a)) \<and> d_status d = Verified \<and> m_domain_id row = d_id d
              \<and> ParseAddress L raw = Inr from' \<and> m_from row = a_email from' \<and> a_domain from' = d_name d)))
     \<and> (rs_status resp = 202 \<longrightarrow>
          (\<exists>row \<in> set (st_messages (ap_db a')). rs_body resp = JsonBody (message_json L (message_of row))))"
proof -
  let ?r = "tagged r io"
  obtain h' a1 where m: "mux L A srv ui h' ?r io a = (resp, a1)" "ap_db a' = ap_db a1"
    using Handler_mux [OF assms(1)] by metis
  show ?thesis
  proof (rule api.mux_effect [OF assms(2) m(1) assms(3)])
    assume "api.quiet a a1" "rs_status resp \<noteq> 202"
    then show ?thesis by (auto simp: api.quiet_def same_tables_def m(2))
  next
    fix tok claim res assume "rq_method ?r = ''POST''"
      "b_suppress (store_backend L) (t_address claim) ''unsubscribe'' ''requested by the recipient''
         (t_message_id claim) (ap_db a) = (res, ap_db a1)" "rs_status resp = (if isl res then 500 else 200)"
    moreover have "st_messages (snd (Suppress L x y z w s)) = st_messages s" for x y z w s
      unfolding Suppress_def
      by (rule run_wrapped_rel [where R = "\<lambda>s s'. st_messages s' = st_messages s"])
         (auto simp: insert_suppression_def nextval_def Let_def split: if_splits)
    ultimately show ?thesis
      by (auto simp: store_backend_def m(2) prod_eq_iff) (metis (no_types, lifting) snd_conv)+
  next
    fix k n s1 res assume n: "rq_method ?r = ''POST''" "api.authorised L ScopeEmailsSend (io_auth_now io) ?r (ap_db a) k"
      "cf_send_enabled (sv_cfg srv)" "api.proper L L k (ap_db a) n" "api.within_quota k (ap_db a)"
      "same_tables (ap_db a) s1" "b_enqueue (store_backend L) (io_nonce io) n s1 = (res, ap_db a1)"
      "resp = enqueue_answer L h' ?r res"
    then have e: "EnqueueMessage L (io_nonce io) n s1 = (res, ap_db a1)" by (simp add: store_backend_def)
    have s1: "st_messages s1 = st_messages (ap_db a)" using n(6) by (auto simp: same_tables_def)
    obtain secret krow where k: "bearerToken r = Some secret" "krow \<in> set (st_keys (ap_db a))" "k = api_key_of krow"
      "k_secret_hash krow = key_Hash L secret" "k_revoked_at krow = None" "io_auth_now io < k_expires_at krow"
      "ScopeEmailsSend \<in> set (k_scopes krow)"
      using authorised_row n(2) unfolding tagged_simps by metis
    show ?thesis
    proof (rule EnqueueMessage_cases [of L "io_nonce io" n s1])
      fix e f assume "EnqueueMessage L (io_nonce io) n s1 = (Inl e, s1\<lparr>st_fates := f\<rparr>)"
      then show ?thesis using e n(8) s1 by (auto simp: enqueue_answer_def m(2))
    next
      fix rec row f assume "EnqueueMessage L (io_nonce io) n s1 = (Inr (message_of row, True), s1\<lparr>st_fates := f\<rparr>)"
        "List.find (\<lambda>m. m_id m = m_id row) (st_messages s1) = Some row"
      then show ?thesis using e n(1,8) s1 by (auto simp: enqueue_answer_def m(2) dest!: find_SomeD)
    next
      fix row f ret assume acc: "EnqueueMessage L (io_nonce io) n s1 = (ret, (accept n row s1)\<lparr>st_fates := f\<rparr>)"
        "acceptable L (io_nonce io) n s1 row" "ret = Inr (message_of row, False) \<or> isl ret"
      then have st: "st_messages (ap_db a1) = st_messages (ap_db a) @ [row]" "ret = res"
        using e s1 by (auto simp: accept_def)
      have "rs_status resp = 202 \<longrightarrow> rs_body resp = JsonBody (message_json L (message_of row))"
        using acc(3) st(2) n(1,8) by (cases res) (auto simp: enqueue_answer_def)
      moreover have "0 < k_quota krow \<longrightarrow> int (sends_of (k_id krow) (ap_db a)) < k_quota krow"
        using n(5) by (simp add: api.within_quota_def k(3) api_key_of_def)
      ultimately show ?thesis
        using st k n(3) proper_row [OF n(4) acc(2) n(6)] by (auto simp: m(2) api_key_of_def)
    qed
  qed
qed

definition sample_secret :: bytes where
  "sample_secret = ''aiem_live_'' @ replicate 52 CHR ''a''"

definition sample_db :: store where
  "sample_db = empty_store
     \<lparr>st_keys := [\<lparr>k_id = 1, k_name = ''app'', k_prefix = [], k_secret_hash = sample_secret,
        k_scopes = [''emails:send''], k_quota = 5, k_expires_at = 100, k_revoked_at = None,
        k_last_used_at = None, k_last_used_ip = None, k_created_at = 0\<rparr>],
      st_domains := [\<lparr>d_id = 7, d_name = ''x.org'', d_token = [], d_status = Verified,
        d_verified_at = Some 0, d_last_checked_at = Some 0, d_created_at = 0\<rparr>]\<rparr>"

definition sample_api :: "store api_state" where
  "sample_api = \<lparr>ap_db = sample_db, ap_uses = [], ap_sessions = Map.empty, ap_log = []\<rparr>"

definition sample_api_lib :: api_lib where
  "sample_api_lib =
     \<lparr>al_send_request = (\<lambda>raw. Some \<lparr>sr_from = ''me@x.org'', sr_to = raw, sr_subject = ''Hi {{n}}'', sr_html = [],
        sr_text = ''Dear {{n}}'', sr_reply_to = [], sr_headers = None, sr_tags = None, sr_scheduled_at = [],
        sr_variables = Some [(''n'', ''Ann'')]\<rparr>),
      al_string = Some, al_strings = (\<lambda>_. None), al_duration_string = (\<lambda>_. [])\<rparr>"

definition sample_server :: "store server" where
  "sample_server = new_server sample_lib
     ((read_config sample_lib (\<lambda>_. []))\<lparr>cf_send_enabled := True, cf_dkim_master_key := ''k''\<rparr>)
     (store_backend sample_lib) ''dev'' 0"

definition sample_request :: request where
  "sample_request =
     \<lparr>rq_method = ''POST'', rq_segments = [''v1'', ''emails''],
      rq_header = (\<lambda>n. if n = ''Authorization'' then ''Bearer '' @ sample_secret else []),
      rq_cookie = (\<lambda>_. None), rq_query = (\<lambda>_. []), rq_form = None, rq_remote_addr = ''203.0.113.9:4711'',
      rq_body = Inr ''ann@y.org'', rq_path_value = (\<lambda>_. []), rq_request_id = []\<rparr>"

definition sample_inputs :: inputs where
  "sample_inputs =
     \<lparr>io_auth_now = 10, io_now = 10, io_ulid = ''m1'', io_request_rand = Some ''ab'', io_nonce = Inr ''abcdefghijkl'',
      io_session_rand = Inr ''s'', io_csrf_rand = Inr ''c''\<rparr>"

definition sample_send :: "http_response \<times> store api_state" where
  "sample_send = Handler sample_lib sample_api_lib sample_server (\<lambda>_. None) [] sample_request sample_inputs sample_api"

lemma sample_send_stores:
  "rs_status (fst sample_send) = 202 \<and> map m_id (st_messages (ap_db (snd sample_send))) = [''m1'']"
  by code_simp

lemma only_authorised_requests_store_messages_witness:
  "rs_status (fst sample_send) = 202
   \<and> (\<exists>row. st_messages (ap_db (snd sample_send)) = [row] \<and> m_api_key_id row = Some 1)"
proof -
  have h: "Handler sample_lib sample_api_lib sample_server (\<lambda>_. None) [] sample_request sample_inputs sample_api
      = (fst sample_send, snd sample_send)" by (simp add: sample_send_def)
  have b: "sv_backend sample_server = store_backend sample_lib"
    by (simp add: sample_server_def new_server_def)
  have e: "st_messages (ap_db sample_api) = []" "st_keys (ap_db sample_api) = st_keys sample_db"
    by (simp_all add: sample_api_def sample_db_def empty_store_def)
  have n: "st_messages (ap_db (snd sample_send)) \<noteq> []" using sample_send_stores by auto
  have k: "k_id k = 1" if "k \<in> set (st_keys sample_db)" for k using that by (auto simp: sample_db_def)
  from only_authorised_requests_store_messages [OF h b refl] sample_send_stores n k show ?thesis
    unfolding e by auto
qed

end
