(* ===== verification/Console_Properties.thy ===== *)
theory Console_Properties
  imports Console Http_Properties
begin

text \<open>
  What the console protects: its pages and its changes are reachable only with a live session,
  changes also need the session's token, and a session starts only with the password.
\<close>

section \<open>The session of a request\<close>

definition live :: "request \<Rightarrow> instant \<Rightarrow> 's api_state \<Rightarrow> session \<Rightarrow> bool" where
  "live r now a sess \<longleftrightarrow>
     (\<exists>i. rq_cookie r sessionCookie = Some i \<and> ap_sessions a i = Some sess \<and> now \<le> se_expires sess)"

lemma currentSession_cases:
  obtains (live) sess where "currentSession r now a = (Some sess, a)" "live r now a sess"
    "\<And>s. currentSession r now (a\<lparr>ap_db := s\<rparr>) = (Some sess, a\<lparr>ap_db := s\<rparr>)"
  | (none) a1 where "currentSession r now a = (None, a1)" "\<not> (\<exists>sess. live r now a sess)" "ap_db a1 = ap_db a"
    "ap_sessions a1 \<subseteq>\<^sub>m ap_sessions a"
    "\<And>s. fst (currentSession r now (a\<lparr>ap_db := s\<rparr>)) = None"
proof (cases "\<exists>sess. live r now a sess")
  case True
  then obtain i sess where i: "rq_cookie r sessionCookie = Some i" "ap_sessions a i = Some sess" "now \<le> se_expires sess"
    by (auto simp: live_def)
  then have "currentSession r now (a\<lparr>ap_db := s\<rparr>) = (Some sess, a\<lparr>ap_db := s\<rparr>)" for s
    by (simp add: currentSession_def sessions_get_def)
  then show thesis using live [of sess] i by (simp add: live_def currentSession_def sessions_get_def)
next
  case False
  obtain sess a1 where c: "currentSession r now a = (sess, a1)" by fastforce
  have s: "sess = None" "ap_db a1 = ap_db a" "ap_sessions a1 \<subseteq>\<^sub>m ap_sessions a"
    using False c
    by (auto simp: currentSession_def sessions_get_def live_def map_le_def split: option.splits if_splits)
  have "fst (currentSession r now (a\<lparr>ap_db := t\<rparr>)) = None" for t
    using False by (auto simp: currentSession_def sessions_get_def live_def split: option.splits)
  then show thesis using none [of a1] c s False by blast
qed

text \<open>
  What a request to the console may do: \<open>R\<close> says what the handler did to the store.
\<close>

definition new_session :: "'s console \<Rightarrow> request \<Rightarrow> inputs \<Rightarrow> bytes \<Rightarrow> session \<Rightarrow> bool" where
  "new_session C r io i sess \<longleftrightarrow>
     (\<exists>hash form b. op_password (co_options C) = Some hash \<and> rq_method r = ''POST''
        \<and> rq_form r = Some form \<and> password_Verify (co_argon C) hash (form ''password'')
        \<and> io_session_rand io = Inr b \<and> i = RawURL_encode b \<and> se_expires sess = io_now io + SessionTTL)"

definition changes_allowed :: "request \<Rightarrow> inputs \<Rightarrow> 's api_state \<Rightarrow> bool" where
  "changes_allowed r io a \<longleftrightarrow>
     (\<exists>sess form. live r (io_now io) a sess \<and> rq_method r = ''POST'' \<and> rq_form r = Some form
        \<and> form ''csrf'' = se_csrf sess)"

definition hides_store :: "'s handler \<Rightarrow> headers \<Rightarrow> request \<Rightarrow> inputs \<Rightarrow> 's api_state \<Rightarrow> bool" where
  "hides_store f h r io a \<longleftrightarrow> (\<forall>s. fst (f h r io (a\<lparr>ap_db := s\<rparr>)) = fst (f h r io a))"

locale console_reads =
  fixes S :: "'s console_store" and unchanged :: "'s \<Rightarrow> 's \<Rightarrow> bool"
  assumes unchanged_refl: "unchanged s s"
    and reads: "unchanged s (snd (cs_domains S s))" "unchanged s (snd (cs_keys S s))"
      "unchanged s (snd (cs_messages S st n s))" "unchanged s (snd (cs_counts S s))"
      "unchanged s (snd (cs_suppressions S n s))"
begin

definition safe :: "'s console \<Rightarrow> 's handler \<Rightarrow> headers \<Rightarrow> request \<Rightarrow> inputs \<Rightarrow> 's api_state \<Rightarrow> bool" where
  "safe C f h r io a \<longleftrightarrow>
     (unchanged (ap_db a) (ap_db (snd (f h r io a))) \<or> changes_allowed r io a)
     \<and> (\<forall>i sess. ap_sessions (snd (f h r io a)) i = Some sess \<longrightarrow>
          ap_sessions a i = Some sess \<or> new_session C r io i sess)
     \<and> ((\<exists>sess. live r (io_now io) a sess) \<or> hides_store f h r io a)"

lemma guard_safe:
  assumes "\<And>v. unchanged (ap_db a) (ap_db (snd (fn v h r io a))) \<and> ap_sessions (snd (fn v h r io a)) = ap_sessions a"
  shows "safe C (guard C nav fn) h r io a"
proof (rule currentSession_cases [of r "io_now io" a])
  fix sess assume "currentSession r (io_now io) a = (Some sess, a)" "live r (io_now io) a sess"
  then show ?thesis using assms by (auto simp: safe_def guard_def)
next
  fix a1 assume n: "currentSession r (io_now io) a = (None, a1)" "ap_db a1 = ap_db a" "ap_sessions a1 \<subseteq>\<^sub>m ap_sessions a"
    "\<And>s. fst (currentSession r (io_now io) (a\<lparr>ap_db := s\<rparr>)) = None"
  have "fst (guard C nav fn h r io (a\<lparr>ap_db := s\<rparr>)) = Redirect h r ''/console/login''" for s
    using n(4) [of s] by (auto simp: guard_def split: prod.splits)
  then show ?thesis
    using n unchanged_refl by (auto simp: safe_def guard_def hides_store_def map_le_def dom_def)
qed

lemma guardPost_safe:
  assumes "rq_method r = ''POST''"
    and "\<And>form. ap_sessions (snd (fn form h r io a)) \<subseteq>\<^sub>m ap_sessions a"
  shows "safe C (guardPost fn) h r io a"
proof (rule currentSession_cases [of r "io_now io" a])
  fix sess assume s: "currentSession r (io_now io) a = (Some sess, a)" "live r (io_now io) a sess"
  then have "unchanged (ap_db a) (ap_db (snd (guardPost fn h r io a))) \<or> changes_allowed r io a"
    using assms(1) unchanged_refl by (auto simp: guardPost_def changes_allowed_def validCSRF_def split: option.splits)
  moreover have "ap_sessions (snd (guardPost fn h r io a)) \<subseteq>\<^sub>m ap_sessions a"
    using s(1) assms(2) by (auto simp: guardPost_def split: option.splits)
  ultimately show ?thesis using s(2) by (auto simp: safe_def map_le_def dom_def)
next
  fix a1 assume n: "currentSession r (io_now io) a = (None, a1)" "ap_db a1 = ap_db a" "ap_sessions a1 \<subseteq>\<^sub>m ap_sessions a"
    "\<And>s. fst (currentSession r (io_now io) (a\<lparr>ap_db := s\<rparr>)) = None"
  have "fst (guardPost fn h r io (a\<lparr>ap_db := s\<rparr>)) = Redirect h r ''/console/login''" for s
    using n(4) [of s] by (auto simp: guardPost_def split: prod.splits)
  then show ?thesis
    using n unchanged_refl by (auto simp: safe_def guardPost_def hides_store_def map_le_def dom_def)
qed

lemma loginForm_safe: "safe C (loginForm C) h r io a"
proof (rule currentSession_cases [of r "io_now io" a])
  fix sess assume "currentSession r (io_now io) a = (Some sess, a)" "live r (io_now io) a sess"
  then show ?thesis using unchanged_refl by (auto simp: safe_def loginForm_def)
next
  fix a1 assume n: "currentSession r (io_now io) a = (None, a1)" "ap_db a1 = ap_db a" "ap_sessions a1 \<subseteq>\<^sub>m ap_sessions a"
    "\<And>s. fst (currentSession r (io_now io) (a\<lparr>ap_db := s\<rparr>)) = None"
  have "fst (loginForm C h r io (a\<lparr>ap_db := s\<rparr>)) = fst (loginForm C h r io a)" for s
    using n(1) n(4) [of s] by (auto simp: loginForm_def split: prod.splits)
  then show ?thesis
    using n unchanged_refl by (auto simp: safe_def loginForm_def hides_store_def map_le_def dom_def)
qed

lemma login_safe:
  assumes "op_password (co_options C) = Some hash" "rq_method r = ''POST''"
  shows "safe C (login C hash) h r io a"
proof -
  have "unchanged (ap_db a) (ap_db (snd (login C hash h r io a)))"
    using unchanged_refl by (auto simp: login_def split: option.splits prod.splits sum.splits)
  moreover have "hides_store (login C hash) h r io a"
    by (auto simp: hides_store_def login_def split: option.splits prod.splits sum.splits)
  moreover have "ap_sessions a i = Some sess \<or> new_session C r io i sess"
    if "ap_sessions (snd (login C hash h r io a)) i = Some sess" for i sess
    using that assms
    by (auto simp: login_def new_session_def sessions_create_def sessions_prune_def randomToken_def
        split: option.splits if_splits sum.splits)
  ultimately show ?thesis by (auto simp: safe_def)
qed

lemma listing_quiet:
  assumes "\<And>s. unchanged s (snd (query s))"
  shows "unchanged (ap_db a) (ap_db (snd (listing C query page fill v h r io a)))
     \<and> ap_sessions (snd (listing C query page fill v h r io a)) = ap_sessions a"
  using assms by (auto simp: listing_def db_def case_prod_unfold Let_def split: sum.splits)

lemma console_safe:
  assumes "co_store C = S" "console_ui C r = Some f"
  shows "safe C f h r io a"
proof -
  obtain hash where p: "op_password (co_options C) = Some hash" "Routes C hash r = Some f"
    using assms(2) by (auto simp: console_ui_def split: option.splits)
  note quiet = listing_quiet reads
  have pages: "safe C (guard C nav (overview C)) h r io a" "safe C (guard C nav (domains C)) h r io a"
    "safe C (guard C nav (keys C)) h r io a" "safe C (guard C nav (messages C)) h r io a"
    "safe C (guard C nav (suppressions C)) h r io a" for nav
    unfolding overview_def domains_def keys_def messages_def suppressions_def assms(1)
    by (rule guard_safe; rule listing_quiet; rule reads)+
  have posts: "safe C (guardPost (logout C)) h r io a" "safe C (guardPost (unsuppress C)) h r io a"
    "safe C (guardPost (revokeKey C)) h r io a" if "is_post r"
    using that unfolding is_post_def
    by (rule guardPost_safe,
        auto simp: logout_def unsuppress_def revokeKey_def sessions_destroy_def map_le_def db_def case_prod_unfold
          Let_def split: option.splits)+
  show ?thesis
    using p(2) pages posts loginForm_safe login_safe [OF p(1)] unfolding Routes_def is_post_def
    by (auto split: list.splits if_splits)
qed

end

section \<open>The store behind the console\<close>

definition store_console :: "golib \<Rightarrow> (bytes \<Rightarrow> int) \<Rightarrow> store console_store" where
  "store_console L collation =
     \<lparr>cs_domains = ListDomains collation, cs_keys = ListAPIKeys, cs_messages = ListMessages L,
      cs_counts = DashboardCounts, cs_revoke = RevokeAPIKey, cs_suppressions = ListSuppressions,
      cs_unsuppress = Unsuppress L\<rparr>"

lemma query_pair:
  obtains x where "run_wrapped what texts (stmt_query q) s = (x, tail_fates s)"
  by (cases "run_wrapped what texts (stmt_query q) s")
     (use snd_query [of what texts q s] in \<open>auto simp del: snd_query\<close>)

lemma snd_ListMessages: "snd (ListMessages L st n s) = tail_fates s"
proof (rule query_pair)
  fix x assume q: "run_wrapped ''listing messages'' [st] (stmt_query (\<lambda>s. take n (sort_key (\<lambda>m. - m_created_at m)
      (filter (\<lambda>m. st = [] \<or> status_text (m_status m) = st) (st_messages s))))) s = (x, tail_fates s)"
  show ?thesis unfolding ListMessages_def q by (cases x) auto
qed

lemma same_tables_trans: "same_tables s t \<Longrightarrow> same_tables t u \<Longrightarrow> same_tables s u"
  by (rule api.unchanged_trans)

lemma DashboardCounts_quiet: "same_tables s (snd (DashboardCounts s))"
proof -
  have t: "same_tables s (tail_fates (tail_fates s))"
    by (rule same_tables_trans [of _ "tail_fates s"]) simp_all
  let ?q = "\<lambda>s. (count_messages (\<lambda>m. m_status m = Queued) s,
              count_messages (\<lambda>m. m_status m = Sent \<or> m_status m = Delivered) s,
              count_messages (\<lambda>m. m_status m = Failed) s,
              count_messages (\<lambda>m. m_status m = Deferred) s,
              count_messages (\<lambda>m. recent (st_now s) (m_created_at m)) s)"
  let ?e = "\<lambda>s. length (filter w_active (st_endpoints s))"
  show ?thesis
  proof (rule query_pair, rule query_pair)
    fix x y assume x: "run_wrapped ''counting messages'' [] (stmt_query ?q) s = (x, tail_fates s)"
      and y: "run_wrapped ''counting endpoints'' [] (stmt_query ?e) (tail_fates s) = (y, tail_fates (tail_fates s))"
    show ?thesis unfolding DashboardCounts_def x using t by (cases x; cases y) (auto simp: y)
  qed
qed

interpretation console: console_reads "store_console L collation" same_tables for L collation
  by unfold_locales
     (simp_all add: store_console_def ListDomains_def ListAPIKeys_def ListSuppressions_def snd_ListMessages
      DashboardCounts_quiet)

section \<open>Properties\<close>

text \<open>
  C11. The console without a session: a request that presents no live session changes no table and
  gets an answer in which nothing of the store shows, the same for every content of the store. A
  table changes only on a POST with a live session and that session's token in the form; a
  session appears only on a POST with the right password, under a fresh random name, and ends
  two hours later.
\<close>

theorem console_needs_session:
  assumes "console_ui C r = Some f" "co_store C = store_console L collation" "f h r io a = (resp, a')"
  shows "(\<not> same_tables (ap_db a) (ap_db a') \<longrightarrow> changes_allowed r io a)
     \<and> (\<forall>i sess. ap_sessions a' i = Some sess \<longrightarrow> ap_sessions a i = Some sess \<or> new_session C r io i sess)
     \<and> ((\<nexists>sess. live r (io_now io) a sess) \<longrightarrow>
          same_tables (ap_db a) (ap_db a') \<and> (\<forall>s. fst (f h r io (a\<lparr>ap_db := s\<rparr>)) = resp))"
proof -
  have "console.safe C f h r io a" using console.console_safe [OF assms(2,1)] .
  then show ?thesis
    using assms(3) unfolding console.safe_def hides_store_def changes_allowed_def by auto
qed

definition sample_console :: "store console" where
  "sample_console =
     \<lparr>co_store = store_console sample_lib (\<lambda>_. 0),
      co_options = \<lparr>op_password = Some \<lparr>ph_salt = ''s'', ph_hash = ''pws''\<rparr>, op_secure = True, op_env = [],
        op_version = [], op_send_enabled = True, op_max_per_hour = 1\<rparr>,
      co_page = (\<lambda>page v. page), co_formats = \<lparr>tf_minute = (\<lambda>_. []), tf_day = (\<lambda>_. []), tf_cookie = (\<lambda>_. [])\<rparr>,
      co_argon = (\<lambda>p salt. p @ salt)\<rparr>"

definition sample_login :: request where
  "sample_login = sample_request\<lparr>rq_segments := [''console'', ''login''], rq_form := Some (\<lambda>_. ''pw'')\<rparr>"

definition sample_signed_in :: "store api_state" where
  "sample_signed_in = snd (login sample_console \<lparr>ph_salt = ''s'', ph_hash = ''pws''\<rparr> [] sample_login sample_inputs sample_api)"

definition sample_revoke :: request where
  "sample_revoke = sample_request
     \<lparr>rq_segments := [''console'', ''keys'', ''revoke''], rq_cookie := (\<lambda>_. Some (RawURL_encode ''s'')),
      rq_form := Some (\<lambda>n. if n = ''csrf'' then RawURL_encode ''c'' else ''1'')\<rparr>"

definition sample_revoked :: "http_response \<times> store api_state" where
  "sample_revoked = guardPost (revokeKey sample_console) [] sample_revoke sample_inputs sample_signed_in"

lemma sample_revoke_works: "map k_revoked_at (st_keys (ap_db (snd sample_revoked))) = [Some 0]"
  by code_simp

lemma console_needs_session_witness:
  "changes_allowed sample_revoke sample_inputs sample_signed_in"
proof -
  have u: "console_ui sample_console sample_revoke = Some (guardPost (revokeKey sample_console))"
    by (simp add: console_ui_def sample_console_def Routes_def sample_revoke_def sample_request_def is_post_def)
  have s: "co_store sample_console = store_console sample_lib (\<lambda>_. 0)" by (simp add: sample_console_def)
  have r: "guardPost (revokeKey sample_console) [] sample_revoke sample_inputs sample_signed_in
      = (fst sample_revoked, snd sample_revoked)" by (simp add: sample_revoked_def)
  have "map k_revoked_at (st_keys (ap_db sample_signed_in)) = [None]" by code_simp
  then have "\<not> same_tables (ap_db sample_signed_in) (ap_db (snd sample_revoked))"
    using sample_revoke_works by (auto simp: same_tables_def)
  then show ?thesis using console_needs_session [OF u s r] by blast
qed

end
