(* ===== verification/Http_System.thy ===== *)
theory Http_System
  imports Http_Properties
begin

text \<open>
  The API over time: requests and the background calls of recordKeyUse in any order, and what an
  unsubscribed address can count on. Also what a refused caller can learn.
\<close>

section \<open>Runs of the API\<close>

inductive api_step :: "golib \<Rightarrow> api_lib \<Rightarrow> store server \<Rightarrow> store api_state \<Rightarrow> store api_state \<Rightarrow> bool"
  for L A srv where
  request: "Handler L A srv (\<lambda>_. None) [] r io a = (resp, a') \<Longrightarrow> api_step L A srv a a'"
| key_use: "u \<in> set (ap_uses a) \<Longrightarrow> api_step L A srv a (run_key_use srv u a)"

definition api_run where
  "api_run L A srv = (api_step L A srv)\<^sup>*\<^sup>*"

lemma Suppress_messages: "st_messages (snd (Suppress L x y z w s)) = st_messages s"
  unfolding Suppress_def
  by (rule run_wrapped_rel [where R = "\<lambda>s s'. st_messages s' = st_messages s"])
     (auto simp: insert_suppression_def nextval_def Let_def split: if_splits)

lemma TouchAPIKey_frame:
  "st_messages (snd (TouchAPIKey i x s)) = st_messages s
   \<and> st_suppressions (snd (TouchAPIKey i x s)) = st_suppressions s"
  unfolding TouchAPIKey_def
  by (rule run_wrapped_rel [where R = "\<lambda>s s'. st_messages s' = st_messages s \<and> st_suppressions s' = st_suppressions s"])
     (auto simp: touch_key_def split: addr.splits if_splits)

lemma EnqueueMessage_suppressions:
  "st_suppressions (snd (EnqueueMessage L rand m s)) = st_suppressions s"
  by (rule EnqueueMessage_cases [of L rand m s]) (auto simp: accept_def)

text \<open>
  The effect of one step on the list of suppressions and on the messages, for an address that is
  on the list.
\<close>

lemma api_step_listed:
  assumes "api_step L A srv a a'" "sv_backend srv = store_backend L" "listed L (ap_db a) x"
  shows "listed L (ap_db a') x
     \<and> (\<forall>row \<in> set (st_messages (ap_db a')). row \<in> set (st_messages (ap_db a)) \<or> SuppressionHash L x \<notin> set (m_hashes row))"
  using assms(1)
proof cases
  case (request r io resp)
  obtain h' a1 where m: "mux L A srv (\<lambda>_. None) h' (tagged r io) io a = (resp, a1)" "ap_db a' = ap_db a1"
    using Handler_mux [OF request] by metis
  show ?thesis
  proof (rule api.mux_effect [OF assms(2) m(1) refl])
    assume "api.quiet a a1"
    then show ?thesis using assms(3) by (auto simp: api.quiet_def same_tables_def m(2) listed_def)
  next
    fix tok claim res assume "b_suppress (store_backend L) (t_address claim) ''unsubscribe''
        ''requested by the recipient'' (t_message_id claim) (ap_db a) = (res, ap_db a1)"
    then have "ap_db a1 = snd (Suppress L (t_address claim) ''unsubscribe'' ''requested by the recipient''
        (t_message_id claim) (ap_db a))" by (simp add: store_backend_def)
    then show ?thesis using assms(3) Suppress_only_adds Suppress_messages by (simp add: m(2))
  next
    fix k n s1 res assume n: "api.proper L L k (ap_db a) n" "same_tables (ap_db a) s1"
      "b_enqueue (store_backend L) (io_nonce io) n s1 = (res, ap_db a1)"
    then have e: "EnqueueMessage L (io_nonce io) n s1 = (res, ap_db a1)" by (simp add: store_backend_def)
    have s1: "st_messages s1 = st_messages (ap_db a)" "st_suppressions s1 = st_suppressions (ap_db a)"
      using n(2) by (auto simp: same_tables_def)
    have l: "listed L (ap_db a') x"
      using assms(3) EnqueueMessage_suppressions [of L "io_nonce io" n s1] e s1(2) by (simp add: listed_def m(2))
    show ?thesis
    proof (rule EnqueueMessage_cases [of L "io_nonce io" n s1])
      fix row f ret assume acc: "EnqueueMessage L (io_nonce io) n s1 = (ret, (accept n row s1)\<lparr>st_fates := f\<rparr>)"
        "acceptable L (io_nonce io) n s1 row"
      have "SuppressionHash L x \<notin> set (m_hashes row)"
        using proper_row [OF n(1) acc(2) n(2)] assms(3) by (auto simp: listed_def)
      then show ?thesis using l acc(1) e s1(1) by (auto simp: accept_def m(2))
    qed (use l e s1 in \<open>auto simp: m(2)\<close>)
  qed
next
  case (key_use u)
  then have "ap_db a' = snd (TouchAPIKey (fst u) (snd u) (ap_db a))"
    using assms(2) by (simp add: run_key_use_def db_def store_backend_def case_prod_unfold Let_def)
  then show ?thesis using assms(3) TouchAPIKey_frame by (simp add: listed_def)
qed

lemma api_run_listed:
  assumes "api_run L A srv a a'" "sv_backend srv = store_backend L" "listed L (ap_db a) x"
  shows "listed L (ap_db a') x
     \<and> (\<forall>row \<in> set (st_messages (ap_db a')). row \<in> set (st_messages (ap_db a)) \<or> SuppressionHash L x \<notin> set (m_hashes row))"
  using assms(1) unfolding api_run_def
proof induction
  case (step b c)
  then show ?case using api_step_listed [OF step(2) assms(2)] by blast
qed (use assms(3) in simp)

section \<open>Unsubscribing\<close>


definition sample_token :: bytes where
  "sample_token = unsubscribe_Sign sample_lib (sv_unsubscribe_secret sample_server) ''m1'' ''Ann@y.org'' 0"

definition sample_unsubscribe :: "http_response \<times> store api_state" where
  "sample_unsubscribe = Handler sample_lib sample_api_lib sample_server (\<lambda>_. None) []
     (sample_request\<lparr>rq_segments := [''u'', sample_token]\<rparr>) sample_inputs (snd sample_send)"

definition sample_second_send :: "http_response \<times> store api_state" where
  "sample_second_send = Handler sample_lib sample_api_lib sample_server (\<lambda>_. None) []
     sample_request (sample_inputs\<lparr>io_ulid := ''m2''\<rparr>) (snd sample_unsubscribe)"

lemma sample_claim:
  "unsubscribe_Verify sample_lib (sv_unsubscribe_secret sample_server) sample_token 10
     = Inr \<lparr>t_message_id = ''m1'', t_address = ''ann@y.org'', t_expires_at = 90 * 24 * Hour\<rparr>"
proof -
  have l: "ToLower sample_lib (TrimSpace ''Ann@y.org'') = ''ann@y.org''" by code_simp
  show ?thesis
    using Verify_Sign [of "''m1''" sample_lib "''Ann@y.org''" 0 "sv_unsubscribe_secret sample_server" 10]
    by (simp add: sample_token_def l Unsubscribe_Lifetime_def unix_seconds_def from_unix_def)
qed

lemma sample_suppress:
  "fst (Suppress sample_lib ''ann@y.org'' ''unsubscribe'' ''requested by the recipient'' ''m1'' (ap_db (snd sample_send)))
     = Inr ()"
  by code_simp

lemma sample_unsubscribe_result: "rs_status (fst sample_unsubscribe) = 200 \<and> sample_token \<noteq> []"
proof -
  have "sample_token \<noteq> []" by (simp add: sample_token_def unsubscribe_Sign_def Let_def)
  moreover have "io_now sample_inputs = 10" by (simp add: sample_inputs_def)
  moreover have "b_suppress (sv_backend sample_server) = Suppress sample_lib"
    by (simp add: sample_server_def new_server_def store_backend_def)
  ultimately show ?thesis
    using sample_claim sample_suppress
    by (simp add: sample_unsubscribe_def Handler_def withRecovery_def no_panic_def withRequestID_def
        withLogging_def mux_def sample_request_def is_get_def is_post_def handleUnsubscribe_def with_value_def
        db_def Let_def case_prod_unfold split: sum.splits)
qed


section \<open>Refusals\<close>

text \<open>
  C28. A caller without a usable key cannot tell why: whether the header is missing or malformed,
  the key does not exist, was revoked or has expired, or the database failed, requireKey gives
  the very same answer for the same request, leaves every table as it was and records no use of
  a key.
\<close>

theorem refusals_are_uniform:
  assumes "sv_backend srv = store_backend L" "requireKey L srv scope nxt h r io a = (resp, a')"
    and "\<not> (\<exists>secret k. bearerToken r = Some secret \<and> key_at (ap_db a) (key_Hash L secret) = Some k
            \<and> \<not> Revoked k \<and> \<not> Expired k (io_auth_now io))"
  shows "resp = unauthorized h r \<and> same_tables (ap_db a) (ap_db a') \<and> ap_uses a' = ap_uses a"
proof (cases "\<exists>secret. bearerToken r = Some secret \<and> key_Parse L secret = None")
  case False
  then have "resp = unauthorized h r \<and> a' = a"
    using assms(2) by (auto simp: requireKey_def split: option.splits if_splits)
  then show ?thesis by simp
next
  case True
  then obtain secret where s: "bearerToken r = Some secret" "key_Parse L secret = None" by blast
  obtain x b where d: "db (b_key (store_backend L) (key_Hash L secret)) a = (x, b)" by fastforce
  have q: "same_tables (ap_db a) (ap_db b)" "ap_uses b = ap_uses a"
    using api.db_query [OF d api.queries(2)] d
    by (simp_all add: api.quiet_def db_eq) (metis api_state.select_convs(2) api_state.surjective api_state.update_convs(1))
  show ?thesis
  proof (cases x)
    case (Inl e)
    then show ?thesis using assms(1,2) s d q by (auto simp: requireKey_def)
  next
    case (Inr k)
    with d have "key_at (ap_db a) (key_Hash L secret) = Some k"
      using api.key_answer [of L "key_Hash L secret" "ap_db a" k "ap_db b"] by (simp add: db_eq)
    then show ?thesis using assms s d q Inr by (auto simp: requireKey_def)
  qed
qed

lemma refusals_are_uniform_witness:
  "requireKey sample_lib sample_server ''s'' (\<lambda>_ h r io a. (unauthorized h r, a)) []
     (sample_request\<lparr>rq_header := (\<lambda>_. ''Basic x'')\<rparr>) sample_inputs sample_api
   = (unauthorized [] (sample_request\<lparr>rq_header := (\<lambda>_. ''Basic x'')\<rparr>), sample_api)"
proof -
  let ?r = "sample_request\<lparr>rq_header := (\<lambda>_. ''Basic x'')\<rparr>"
  have t: "bearerToken ?r = None" by code_simp
  have b: "sv_backend sample_server = store_backend sample_lib"
    by (simp add: sample_server_def new_server_def)
  obtain resp a' where q: "requireKey sample_lib sample_server ''s'' (\<lambda>_ h r io a. (unauthorized h r, a)) [] ?r
      sample_inputs sample_api = (resp, a')" by fastforce
  have "resp = unauthorized [] ?r" using refusals_are_uniform [OF b q] t by simp
  moreover have "a' = sample_api" using q t by (simp add: requireKey_def)
  ultimately show ?thesis using q by simp
qed

end
