(* ===== verification/Flags.thy ===== *)
theory Flags
  imports Store_Base
begin

text \<open>
  What cmd/aiemail takes from package flag: a FlagSet of string and int flags and its Parse, with
  strconv.ParseInt in base 0 behind the int flags. The flags read back what a caller writes.
\<close>

section \<open>strconv.ParseInt with base 0\<close>

datatype num_error = ErrSyntax | ErrRange

definition lower :: "char \<Rightarrow> char" where
  "lower c = (if even (byte c div 32) then char_of (byte c + 32) else c)"

definition digit_of :: "char \<Rightarrow> int option" where
  "digit_of c =
     (if 48 \<le> byte c \<and> byte c \<le> 57 then Some (int (byte c) - 48)
      else if 97 \<le> byte (lower c) \<and> byte (lower c) \<le> 122 then Some (int (byte (lower c)) - 97 + 10)
      else None)"

text \<open>The loop of ParseUint; the unsigned \<open>n\<close> fits 64 bits throughout.\<close>

fun uint_loop :: "int \<Rightarrow> bytes \<Rightarrow> int \<Rightarrow> num_error + int" where
  "uint_loop base [] n = Inr n"
| "uint_loop base (c # s) n =
     (if c = CHR ''_'' then uint_loop base s n
      else case digit_of c of
        None \<Rightarrow> Inl ErrSyntax
      | Some d \<Rightarrow>
          if base \<le> d then Inl ErrSyntax
          else if (2 ^ 64 - 1) div base + 1 \<le> n then Inl ErrRange
          else if 2 ^ 64 - 1 < n * base + d then Inl ErrRange
          else uint_loop base s (n * base + d))"

text \<open>\<open>saw\<close> is the class of the last character: a digit, an underscore, or something else.\<close>

datatype saw = SawDigit | SawUnderscore | SawOther

fun underscore_loop :: "bool \<Rightarrow> bytes \<Rightarrow> saw \<Rightarrow> bool" where
  "underscore_loop hex [] saw = (saw \<noteq> SawUnderscore)"
| "underscore_loop hex (c # s) saw =
     (if 48 \<le> byte c \<and> byte c \<le> 57 \<or> hex \<and> 97 \<le> byte (lower c) \<and> byte (lower c) \<le> 102
      then underscore_loop hex s SawDigit
      else if c = CHR ''_'' then saw = SawDigit \<and> underscore_loop hex s SawUnderscore
      else saw \<noteq> SawUnderscore \<and> underscore_loop hex s SawOther)"

definition based :: "bytes \<Rightarrow> char \<Rightarrow> bool" where
  "based s p \<longleftrightarrow> 2 \<le> length s \<and> s ! 0 = CHR ''0'' \<and> lower (s ! 1) = p"

definition underscoreOK :: "bytes \<Rightarrow> bool" where
  "underscoreOK s0 =
     (let s = (case s0 of c # r \<Rightarrow> if c = CHR ''-'' \<or> c = CHR ''+'' then r else s0 | [] \<Rightarrow> s0) in
      if based s CHR ''b'' \<or> based s CHR ''o'' \<or> based s CHR ''x''
      then underscore_loop (based s CHR ''x'') (drop 2 s) SawDigit
      else underscore_loop False s SawOther)"

definition ParseUint :: "bytes \<Rightarrow> num_error + int" where
  "ParseUint s =
     (if s = [] then Inl ErrSyntax
      else
        let (base, digits) =
              (if hd s \<noteq> CHR ''0'' then (10, s)
               else if 3 \<le> length s \<and> based s CHR ''b'' then (2, drop 2 s)
               else if 3 \<le> length s \<and> based s CHR ''o'' then (8, drop 2 s)
               else if 3 \<le> length s \<and> based s CHR ''x'' then (16, drop 2 s)
               else (8, tl s)) in
        case uint_loop base digits 0 of
          Inl e \<Rightarrow> Inl e
        | Inr n \<Rightarrow> if CHR ''_'' \<in> set digits \<and> \<not> underscoreOK s then Inl ErrSyntax else Inr n)"

definition ParseInt :: "bytes \<Rightarrow> num_error + int" where
  "ParseInt s0 =
     (case s0 of
        [] \<Rightarrow> Inl ErrSyntax
      | c # r \<Rightarrow>
          let neg = (c = CHR ''-''); s = (if neg \<or> c = CHR ''+'' then r else s0) in
          (case ParseUint s of
             Inl e \<Rightarrow> Inl e
           | Inr un \<Rightarrow>
               if \<not> neg \<and> 2 ^ 63 \<le> un then Inl ErrRange
               else if neg \<and> 2 ^ 63 < un then Inl ErrRange
               else Inr (if neg then - un else un)))"

section \<open>flag.FlagSet\<close>

datatype flag_value = StringFlag bytes | IntFlag int

type_synonym flag_set = "(bytes \<times> flag_value) list"

text \<open>The method Set of the values of fs.String and fs.Int.\<close>

definition set_value :: "flag_value \<Rightarrow> bytes \<Rightarrow> bytes + flag_value" where
  "set_value old v =
     (case old of
        StringFlag _ \<Rightarrow> Inr (StringFlag v)
      | IntFlag _ \<Rightarrow>
          (case ParseInt v of
             Inl ErrSyntax \<Rightarrow> Inl ''parse error''
           | Inl ErrRange \<Rightarrow> Inl ''value out of range''
           | Inr i \<Rightarrow> Inr (IntFlag i)))"

definition set_flag :: "golib \<Rightarrow> bytes \<Rightarrow> bytes \<Rightarrow> flag_set \<Rightarrow> go_error + flag_set" where
  "set_flag L name v fs =
     (case map_of fs name of
        None \<Rightarrow> Inl (Msg (''flag provided but not defined: -'' @ name))
      | Some old \<Rightarrow>
          (case set_value old v of
             Inl e \<Rightarrow> Inl (Msg (''invalid value '' @ quote L v @ '' for flag -'' @ name @ '': '' @ e))
           | Inr new \<Rightarrow> Inr (map (\<lambda>(n, x). if n = name then (n, new) else (n, x)) fs)))"

definition ErrHelp :: go_error where "ErrHelp = Msg ''flag: help requested''"

text \<open>What is left of an argument after its minus signs; None for an argument that is no flag.\<close>

definition flag_name :: "bytes \<Rightarrow> bytes option" where
  "flag_name s =
     (if length s < 2 \<or> hd s \<noteq> CHR ''-'' \<or> s = ''--'' then None
      else Some (drop (if s ! 1 = CHR ''-'' then 2 else 1) s))"

text \<open>FlagSet.Parse: the values of the flags; the arguments after the flags are not used.\<close>

fun flag_Parse :: "golib \<Rightarrow> flag_set \<Rightarrow> bytes list \<Rightarrow> go_error + flag_set" where
  "flag_Parse L fs [] = Inr fs"
| "flag_Parse L fs (s # args) =
     (case flag_name s of
        None \<Rightarrow> Inr fs
      | Some body \<Rightarrow>
          if body = [] \<or> hd body = CHR ''-'' \<or> hd body = CHR ''='' then Inl (Msg (''bad flag syntax: '' @ s))
          else
            let (name, value) = (case Cut body ''='' of None \<Rightarrow> (body, None) | Some (n, v) \<Rightarrow> (n, Some v)) in
            if map_of fs name = None
            then Inl (if name = ''help'' \<or> name = ''h'' then ErrHelp
                      else Msg (''flag provided but not defined: -'' @ name))
            else
              (case value of
                 Some v \<Rightarrow> (case set_flag L name v fs of Inl e \<Rightarrow> Inl e | Inr fs' \<Rightarrow> flag_Parse L fs' args)
               | None \<Rightarrow>
                   (case args of
                      [] \<Rightarrow> Inl (Msg (''flag needs an argument: -'' @ name))
                    | v # rest \<Rightarrow>
                        (case set_flag L name v fs of Inl e \<Rightarrow> Inl e | Inr fs' \<Rightarrow> flag_Parse L fs' rest))))"

definition string_flag :: "flag_set \<Rightarrow> bytes \<Rightarrow> bytes" where
  "string_flag fs name = (case map_of fs name of Some (StringFlag v) \<Rightarrow> v | _ \<Rightarrow> [])"

definition int_flag :: "flag_set \<Rightarrow> bytes \<Rightarrow> int" where
  "int_flag fs name = (case map_of fs name of Some (IntFlag i) \<Rightarrow> i | _ \<Rightarrow> 0)"

section \<open>Reading back numbers\<close>

lemma digit_of_digit:
  "isDigit c \<Longrightarrow> digit_of c = Some (int (byte c - 48)) \<and> byte c - 48 < 10 \<and> c \<noteq> CHR ''_''"
  by (auto simp: digit_of_def isDigit_def)

lemma digits_value_mono: "acc \<le> digits_value s acc"
proof (induction s acc rule: digits_value.induct)
  case (2 c s acc)
  then show ?case by simp
qed simp

lemma uint_loop_digits:
  assumes "list_all isDigit s" "digits_value s n < 2 ^ 64"
  shows "uint_loop 10 s (int n) = Inr (int (digits_value s n))"
  using assms
proof (induction s arbitrary: n)
  case (Cons c s)
  have "10 * n + (byte c - 48) \<le> digits_value (c # s) n" using digits_value_mono by simp
  then have "10 * n + (byte c - 48) < 2 ^ 64" using Cons.prems(2) by linarith
  moreover have "uint_loop 10 s (int n * 10 + int (byte c - 48)) = Inr (int (digits_value (c # s) n))"
    using Cons.IH [of "10 * n + (byte c - 48)"] Cons.prems by (simp add: algebra_simps)
  ultimately show ?case
    using Cons.prems(1) digit_of_digit [of c] by simp
qed simp

lemma itoa_nat_hd: "0 < n \<Longrightarrow> hd (itoa_nat n) \<noteq> CHR ''0''"
proof (induction n rule: itoa_nat.induct)
  case (1 n)
  have "char_of (48 + n) \<noteq> CHR ''0''" if "n < 10" using that 1(2)
    unfolding byte_eq_iff [symmetric] by simp
  then show ?case using 1 by (subst itoa_nat.simps) auto
qed

lemma ParseUint_itoa:
  assumes "n < 2 ^ 64"
  shows "ParseUint (itoa_nat n) = Inr (int n)"
proof (cases "n = 0")
  case True
  have "itoa_nat 0 = ''0''" by code_simp
  then show ?thesis using True by (simp add: ParseUint_def)
next
  case False
  have "CHR ''_'' \<notin> set (itoa_nat n)"
    using itoa_nat_digits [of n] by (auto simp: list_all_iff isDigit_def)
  with False assms show ?thesis
    using uint_loop_digits [OF itoa_nat_digits, of n 0] by (simp add: ParseUint_def itoa_nat_hd)
qed

text \<open>ParseInt reads every number of 64 bits as strconv.Itoa writes it.\<close>

lemma ParseInt_itoa:
  assumes "- (2 ^ 63) \<le> i" "i < 2 ^ 63"
  shows "ParseInt (itoa i) = Inr i"
proof (cases "i < 0")
  case True
  then show ?thesis using assms by (simp add: ParseInt_def itoa_def ParseUint_itoa)
next
  case False
  obtain c r where c: "itoa_nat (nat i) = c # r" using itoa_nat_not_Nil by (metis list.exhaust)
  then have "isDigit c" using itoa_nat_digits [of "nat i"] by simp
  then have "c \<noteq> CHR ''-''" "c \<noteq> CHR ''+''" using digit_not_sign by auto
  moreover have "ParseUint (c # r) = Inr i" using ParseUint_itoa [of "nat i"] assms(2) c False by simp
  ultimately show ?thesis using False assms(2) by (simp add: ParseInt_def itoa_def c)
qed

section \<open>Reading back flags\<close>

text \<open>A value as an argument, and the flags set one after the other.\<close>

definition value_arg :: "flag_value \<Rightarrow> bytes" where
  "value_arg x = (case x of StringFlag v \<Rightarrow> v | IntFlag i \<Rightarrow> itoa i)"

definition fits :: "flag_set \<Rightarrow> bytes \<times> flag_value \<Rightarrow> bool" where
  "fits fs nx \<longleftrightarrow>
     (case (map_of fs (fst nx), snd nx) of
        (Some (StringFlag _), StringFlag _) \<Rightarrow> True
      | (Some (IntFlag _), IntFlag i) \<Rightarrow> - (2 ^ 63) \<le> i \<and> i < 2 ^ 63
      | _ \<Rightarrow> False)"

definition flag_word :: "bytes \<Rightarrow> bool" where
  "flag_word n \<longleftrightarrow> n \<noteq> [] \<and> hd n \<noteq> CHR ''-'' \<and> CHR ''='' \<notin> set n"

definition assign :: "bytes \<times> flag_value \<Rightarrow> flag_set \<Rightarrow> flag_set" where
  "assign nx fs = map (\<lambda>(n, x). if n = fst nx then (n, snd nx) else (n, x)) fs"

lemma set_value_arg: "fits fs (n, x) \<Longrightarrow> map_of fs n = Some old \<Longrightarrow> set_value old (value_arg x) = Inr x"
  by (auto simp: fits_def set_value_def value_arg_def ParseInt_itoa split: flag_value.splits)

lemma set_flag_arg: "fits fs (n, x) \<Longrightarrow> set_flag L n (value_arg x) fs = Inr (assign (n, x) fs)"
  using set_value_arg [of fs n x] by (cases "map_of fs n") (simp_all add: set_flag_def assign_def fits_def split_def)

lemma map_of_assign:
  "map_of (assign nx fs) m = (if m = fst nx then map_option (\<lambda>_. snd nx) (map_of fs m) else map_of fs m)"
  unfolding assign_def by (induction fs) auto

lemma fits_assign: "fits fs (n, x) \<Longrightarrow> fits (assign (n, x) fs) my = fits fs my"
  by (auto simp: fits_def map_of_assign split: option.splits flag_value.splits)

lemma flag_Parse_set:
  assumes "fits fs (n, x)" "flag_word n"
  shows "flag_Parse L fs ((CHR ''-'' # n) # value_arg x # args) = flag_Parse L (assign (n, x) fs) args"
proof -
  obtain c r where n: "n = c # r" "c \<noteq> CHR ''-''" "c \<noteq> CHR ''=''"
    using assms(2) by (cases n) (auto simp: flag_word_def)
  have "Index n ''='' = None"
  proof (rule ccontr)
    assume "Index n ''='' \<noteq> None"
    then obtain p q where "n = p @ ''='' @ q" using Contains_iff [of n "''=''"] by (auto simp: Contains_def)
    then show False using assms(2) by (simp add: flag_word_def)
  qed
  then have "Cut n ''='' = None" by (simp add: Cut_def)
  moreover have "flag_name (CHR ''-'' # n) = Some n" using n by (simp add: flag_name_def)
  moreover obtain old where "map_of fs n = Some old" using assms(1) by (auto simp: fits_def split: option.splits)
  ultimately show ?thesis using n set_flag_arg [OF assms(1), of L] by (simp add: Let_def)
qed

text \<open>
  The round trip of the command line: whatever values are written after the names of the flags, also ones
  that begin with a minus sign, Parse gives them back.
\<close>

lemma flag_Parse_roundtrip:
  assumes "list_all (\<lambda>nx. fits fs nx \<and> flag_word (fst nx)) nxs"
  shows "flag_Parse L fs (concat (map (\<lambda>(n, x). [CHR ''-'' # n, value_arg x]) nxs)) = Inr (fold assign nxs fs)"
  using assms
proof (induction nxs arbitrary: fs)
  case (Cons nx nxs)
  obtain n x where nx: "nx = (n, x)" by fastforce
  from Cons.prems have "list_all (\<lambda>nx. fits (assign (n, x) fs) nx \<and> flag_word (fst nx)) nxs"
    by (simp add: nx fits_assign)
  from Cons.IH [OF this] Cons.prems show ?case by (simp add: nx flag_Parse_set del: flag_Parse.simps)
qed simp

end
