(* ===== verification/Store_Open.thy ===== *)
theory Store_Open
  imports Store_Base
begin

text \<open>
  internal/store/store.go: opening the database and bringing its schema up to date. The calls of
  pgx, database/sql and goose are the record \<open>database_lib\<close>; each maps the connection string to
  the error it answers.
\<close>

record database_lib =
  sql_open :: "bytes \<Rightarrow> go_error option"           \<comment> \<open>sql.Open\<close>
  set_dialect :: "bytes \<Rightarrow> go_error option"        \<comment> \<open>goose.SetDialect\<close>
  goose_up :: "bytes \<Rightarrow> go_error option"           \<comment> \<open>goose.UpContext\<close>
  goose_version :: "bytes \<Rightarrow> go_error + int"       \<comment> \<open>goose.GetDBVersionContext\<close>
  pool_parse :: "bytes \<Rightarrow> go_error option"         \<comment> \<open>pgxpool.ParseConfig\<close>
  pool_new :: "bytes \<Rightarrow> go_error option"           \<comment> \<open>pgxpool.NewWithConfig\<close>
  pool_ping :: "bytes \<Rightarrow> go_error option"          \<comment> \<open>Pool.Ping\<close>

text \<open>What a call leaves open: a pool, or a database/sql handle.\<close>

datatype handle = PoolHandle | SqlHandle

definition openSQL :: "database_lib \<Rightarrow> bytes \<Rightarrow> go_error + handle" where
  "openSQL D dsn =
     (case sql_open D dsn of Some e \<Rightarrow> Inl (Wrapped ''opening database'' e) | None \<Rightarrow> Inr SqlHandle)"

definition prepareGoose :: "database_lib \<Rightarrow> go_error option" where
  "prepareGoose D = map_option (Wrapped ''setting migration dialect'') (set_dialect D ''postgres'')"

text \<open>The deferred Close runs on every path after openSQL succeeded.\<close>

definition with_sql :: "database_lib \<Rightarrow> bytes \<Rightarrow> (go_error + 'a) \<Rightarrow> (go_error + 'a) \<times> handle list" where
  "with_sql D dsn answer =
     (case openSQL D dsn of
        Inl e \<Rightarrow> (Inl e, [])
      | Inr db \<Rightarrow>
          (case prepareGoose D of
             Some e \<Rightarrow> (Inl e, removeAll db [db])
           | None \<Rightarrow> (answer, removeAll db [db])))"

definition Migrate :: "database_lib \<Rightarrow> bytes \<Rightarrow> (go_error + unit) \<times> handle list" where
  "Migrate D dsn =
     with_sql D dsn
       (case goose_up D dsn of Some e \<Rightarrow> Inl (Wrapped ''applying migrations'' e) | None \<Rightarrow> Inr ())"

definition SchemaVersion :: "database_lib \<Rightarrow> bytes \<Rightarrow> (go_error + int) \<times> handle list" where
  "SchemaVersion D dsn = with_sql D dsn (goose_version D dsn)"

definition Open :: "database_lib \<Rightarrow> bytes \<Rightarrow> (go_error + handle) \<times> handle list" where
  "Open D dsn =
     (case pool_parse D dsn of
        Some e \<Rightarrow> (Inl (Wrapped ''parsing database url'' e), [])
      | None \<Rightarrow>
          (case pool_new D dsn of
             Some e \<Rightarrow> (Inl (Wrapped ''connecting to database'' e), [])
           | None \<Rightarrow>
               (case pool_ping D dsn of
                  Some e \<Rightarrow> (Inl (Wrapped ''database unreachable'' e), removeAll PoolHandle [PoolHandle])
                | None \<Rightarrow> (Inr PoolHandle, [PoolHandle]))))"

text \<open>Every handle is closed again but the pool that Open hands to its caller.\<close>

lemma no_handle_leaks:
  "snd (Migrate D dsn) = []" "snd (SchemaVersion D dsn) = []"
  "snd (Open D dsn) = (if isl (fst (Open D dsn)) then [] else [PoolHandle])"
  by (simp_all add: Migrate_def SchemaVersion_def with_sql_def Open_def split: sum.splits option.splits)

end
