(* ===== verification/Cli.thy ===== *)
theory Cli
  imports Console_Properties Http_System Worker_System Flags Store_Open
begin

text \<open>
  Command aiemail, cmd/aiemail: the selection of a run mode, the administrative commands, and the
  startup of the server and the worker. What a command takes from outside is in the record \<open>host\<close>:
  the environment, the database drivers, the clock and the random values.
\<close>

section \<open>main.go: the run modes\<close>

datatype mode =
    ModeVersion | ModeServe | ModeWorker | ModeCreateKey "bytes list" | ModeAddDomain "bytes list"
  | ModeAddWebhook "bytes list" | ModeConsolePassword "bytes list" | ModeKeygen | ModeHelp
  | ModeUsage bytes

text \<open>\<open>args\<close> is os.Args without the name of the program.\<close>

definition run :: "golib \<Rightarrow> bytes list \<Rightarrow> mode" where
  "run L args =
     (let mode' = (case args of [] \<Rightarrow> ''serve'' | m # _ \<Rightarrow> m);
          sub = (\<lambda>name cmd usage. case args of
                   _ # x # rest \<Rightarrow> if x = name then cmd rest else ModeUsage usage
                 | _ \<Rightarrow> ModeUsage usage) in
      if mode' = ''version'' then ModeVersion
      else if mode' = ''serve'' then ModeServe
      else if mode' = ''worker'' then ModeWorker
      else if mode' = ''keys'' then sub ''create'' ModeCreateKey ''usage: aiemail keys create -name NAME''
      else if mode' = ''domains'' then sub ''add'' ModeAddDomain ''usage: aiemail domains add -name DOMAIN''
      else if mode' = ''webhooks'' then sub ''add'' ModeAddWebhook ''usage: aiemail webhooks add -url URL''
      else if mode' = ''console'' then sub ''password'' ModeConsolePassword ''usage: aiemail console password''
      else if mode' = ''keygen'' then ModeKeygen
      else if mode' \<in> {''help'', ''-h'', ''--help''} then ModeHelp
      else ModeUsage (''unknown command '' @ quote L mode'))"

record host =
  ho_env :: environ
  ho_db :: database_lib
  ho_now :: instant
  ho_rand :: "go_error + bytes"
  ho_pair :: "go_error + bytes \<times> bytes"     \<comment> \<open>ed25519.GenerateKey\<close>
  ho_nonce :: "go_error + bytes"
  ho_month :: "instant \<Rightarrow> bytes"              \<comment> \<open>Time.UTC().Format with the layout 200601\<close>

definition boot :: "golib \<Rightarrow> host \<Rightarrow> go_error + config" where
  "boot L H =
     (case Load L (ho_env H) of
        Inl problems \<Rightarrow> Inl (Msg (validation_error_text problems)) | Inr cfg \<Rightarrow> Inr cfg)"

text \<open>boot, Migrate and Open, with which every command that needs the database begins.\<close>

definition with_database :: "golib \<Rightarrow> host \<Rightarrow> go_error + config" where
  "with_database L H =
     (case boot L H of
        Inl e \<Rightarrow> Inl e
      | Inr cfg \<Rightarrow>
          (case fst (Migrate (ho_db H) (cf_database_url cfg)) of
             Inl e \<Rightarrow> Inl e
           | Inr _ \<Rightarrow>
               (case fst (Open (ho_db H) (cf_database_url cfg)) of Inl e \<Rightarrow> Inl e | Inr _ \<Rightarrow> Inr cfg)))"

definition attachKeeper :: "bytes \<Rightarrow> store \<Rightarrow> go_error + store" where
  "attachKeeper masterKey s =
     (if masterKey = [] then Inr s
      else case NewEnvelope masterKey of
        Inl e \<Rightarrow> Inl e
      | Inr envelope \<Rightarrow> Inr (s\<lparr>st_keeper := Some envelope\<rparr>))"

section \<open>admin.go\<close>

text \<open>The product of a time.Duration and 24 hours, in 64 bits.\<close>

definition wrap64 :: "int \<Rightarrow> int" where
  "wrap64 x = (x + 2 ^ 63) mod 2 ^ 64 - 2 ^ 63"

definition splitScopes :: "bytes \<Rightarrow> bytes list" where
  "splitScopes raw = filter (\<lambda>p. p \<noteq> []) (map TrimSpace (SplitByte raw CHR '',''))"

text \<open>The part of runCreateKey after the flags; its result is what it prints: the stored key and the secret.\<close>

definition createKey ::
  "golib \<Rightarrow> host \<Rightarrow> bytes \<Rightarrow> bytes \<Rightarrow> int \<Rightarrow> int \<Rightarrow> store \<Rightarrow> (go_error + api_key \<times> bytes) \<times> store" where
  "createKey L H name scopes quota days s =
     (if TrimSpace name = [] then (Inl (Msg ''-name is required''), s)
      else case with_database L H of
        Inl e \<Rightarrow> (Inl e, s)
      | Inr cfg \<Rightarrow>
          (case key_Generate L (ho_rand H) of
             Inl e \<Rightarrow> (Inl e, s)
           | Inr generated \<Rightarrow>
               (let lifetime = Lifetime (wrap64 (wrap64 (days * 24) * Hour)) in
                case CreateAPIKey
                       \<lparr>nk_name = name, nk_prefix = g_prefix generated, nk_secret_hash = g_hash generated,
                        nk_scopes = splitScopes scopes, nk_quota = quota, nk_expires_at = ho_now H + lifetime\<rparr> s of
                  (Inl e, s') \<Rightarrow> (Inl e, s')
                | (Inr created, s') \<Rightarrow> (Inr (created, g_secret generated), s'))))"

definition create_key_flags :: flag_set where
  "create_key_flags =
     [(''name'', StringFlag []), (''scopes'', StringFlag ''emails:send,emails:read''), (''quota'', IntFlag 0),
      (''days'', IntFlag 90)]"

definition runCreateKey ::
  "golib \<Rightarrow> host \<Rightarrow> bytes list \<Rightarrow> store \<Rightarrow> (go_error + api_key \<times> bytes) \<times> store" where
  "runCreateKey L H args s =
     (case flag_Parse L create_key_flags args of
        Inl e \<Rightarrow> (Inl e, s)
      | Inr fs \<Rightarrow>
          createKey L H (string_flag fs ''name'') (string_flag fs ''scopes'') (int_flag fs ''quota'')
            (int_flag fs ''days'') s)"

definition verificationToken :: "golib \<Rightarrow> go_error + bytes \<Rightarrow> go_error + bytes" where
  "verificationToken L rand =
     (case rand of
        Inl e \<Rightarrow> Inl (Wrapped ''generating verification token'' e)
      | Inr b \<Rightarrow> Inr (''aiemail-verify='' @ ToLower L (Base32_encode b)))"

text \<open>The INSERT of runAddDomain: a registered name keeps its row and gets the new token.\<close>

definition upsert_domain :: "bytes \<Rightarrow> bytes \<Rightarrow> store \<Rightarrow> go_error + (int \<times> bytes) \<times> store" where
  "upsert_domain name token s =
     (let (i, s1) = nextval Domains s in
      case List.find (\<lambda>d. d_name d = name) (st_domains s) of
        Some d \<Rightarrow>
          Inr ((d_id d, token),
               s1\<lparr>st_domains := update_where (\<lambda>d. d_name d = name) (\<lambda>d. d\<lparr>d_token := token\<rparr>) (st_domains s)\<rparr>)
      | None \<Rightarrow>
          Inr ((i, token),
               s1\<lparr>st_domains := st_domains s @ [\<lparr>d_id = i, d_name = name, d_token = token, d_status = Pending,
                    d_verified_at = None, d_last_checked_at = None, d_created_at = st_now s\<rparr>]\<rparr>))"

text \<open>The part of runAddDomain after the flags; its result is the domain, its token and its key pair, which it prints.\<close>

definition addDomain ::
  "golib \<Rightarrow> host \<Rightarrow> bytes \<Rightarrow> store \<Rightarrow> (go_error + bytes \<times> bytes \<times> key_pair) \<times> store" where
  "addDomain L H name s =
     (if TrimSpace name = [] then (Inl (Msg ''-name is required''), s)
      else case with_database L H of
        Inl e \<Rightarrow> (Inl e, s)
      | Inr cfg \<Rightarrow>
          (case verificationToken L (ho_rand H) of
             Inl e \<Rightarrow> (Inl e, s)
           | Inr token \<Rightarrow>
               (let domain = ToLower L (TrimSpace name) in
                case exec [domain, token] (upsert_domain domain token) s of
                  (Inl e, s1) \<Rightarrow> (Inl e, s1)
                | (Inr (i, stored), s1) \<Rightarrow>
                    if cf_dkim_master_key cfg = []
                    then (Inl (Msg ''AIEMAIL_DKIM_MASTER_KEY is required to generate a signing key; generate one with: aiemail keygen''), s1)
                    else case NewEnvelopeKeeper (cf_dkim_master_key cfg) of
                      Inl e \<Rightarrow> (Inl e, s1)
                    | Inr keeper \<Rightarrow>
                        (case dkim_Generate L (ho_pair H) (ho_nonce H) keeper (ho_month H (ho_now H)) of
                           Inl e \<Rightarrow> (Inl e, s1)
                         | Inr pair \<Rightarrow>
                             (case CreateSigningKey i (kp_selector pair) (kp_algorithm pair) (kp_wrapped pair)
                                     (kp_record pair) s1 of
                                (Inl e, s2) \<Rightarrow> (Inl e, s2)
                              | (Inr _, s2) \<Rightarrow> (Inr (domain, stored, pair), s2))))))"

definition runAddDomain ::
  "golib \<Rightarrow> host \<Rightarrow> bytes list \<Rightarrow> store \<Rightarrow> (go_error + bytes \<times> bytes \<times> key_pair) \<times> store" where
  "runAddDomain L H args s =
     (case flag_Parse L [(''name'', StringFlag [])] args of
        Inl e \<Rightarrow> (Inl e, s)
      | Inr fs \<Rightarrow> addDomain L H (string_flag fs ''name'') s)"

definition runKeygen :: "go_error + bytes \<Rightarrow> go_error + bytes" where
  "runKeygen rand =
     (case rand of
        Inl e \<Rightarrow> Inl (Wrapped ''generating master key'' e)
      | Inr key \<Rightarrow> Inr (''AIEMAIL_DKIM_MASTER_KEY='' @ Std_encode key))"

section \<open>console.go and webhooks.go\<close>

definition consolePassword :: "key_derivation \<Rightarrow> go_error + bytes \<Rightarrow> bytes \<Rightarrow> go_error + bytes" where
  "consolePassword argon rand password =
     (if TrimSpace password = [] then Inl (Msg ''-password is required'')
      else case HashPassword argon rand password of
        Inl e \<Rightarrow> Inl e
      | Inr hash \<Rightarrow> Inr (''AIEMAIL_CONSOLE_PASSWORD_HASH='' @ hash))"

definition runConsolePassword :: "golib \<Rightarrow> key_derivation \<Rightarrow> go_error + bytes \<Rightarrow> bytes list \<Rightarrow> go_error + bytes" where
  "runConsolePassword L argon rand args =
     (case flag_Parse L [(''password'', StringFlag [])] args of
        Inl e \<Rightarrow> Inl e
      | Inr fs \<Rightarrow> consolePassword argon rand (string_flag fs ''password''))"

definition addWebhook ::
  "golib \<Rightarrow> host \<Rightarrow> bytes \<Rightarrow> store \<Rightarrow> (go_error + endpoint \<times> bytes) \<times> store" where
  "addWebhook L H target s =
     (if TrimSpace target = [] then (Inl (Msg ''-url is required''), s)
      else case ValidateURL L target of
        Inl e \<Rightarrow> (Inl (Wrapped ''that destination cannot be used'' (Msg (url_fault_text e))), s)
      | Inr _ \<Rightarrow>
          (case with_database L H of
             Inl e \<Rightarrow> (Inl e, s)
           | Inr cfg \<Rightarrow>
               (case ho_rand H of
                  Inl e \<Rightarrow> (Inl (Wrapped ''generating endpoint secret'' e), s)
                | Inr secret \<Rightarrow>
                    (case CreateEndpoint target secret s of
                       (Inl e, s') \<Rightarrow> (Inl e, s')
                     | (Inr endpoint, s') \<Rightarrow> (Inr (endpoint, Std_encode secret), s')))))"

definition runAddWebhook ::
  "golib \<Rightarrow> host \<Rightarrow> bytes list \<Rightarrow> store \<Rightarrow> (go_error + endpoint \<times> bytes) \<times> store" where
  "runAddWebhook L H args s =
     (case flag_Parse L [(''url'', StringFlag [])] args of
        Inl e \<Rightarrow> (Inl e, s)
      | Inr fs \<Rightarrow> addWebhook L H (string_flag fs ''url'') s)"

section \<open>main.go: the server\<close>

text \<open>
  runServe up to the listener: the store with its keeper, the server, and the console when a
  password hash is configured.
\<close>

definition start_server ::
  "golib \<Rightarrow> host \<Rightarrow> (bytes \<Rightarrow> int) \<Rightarrow> (bytes \<Rightarrow> view \<Rightarrow> bytes) \<Rightarrow> time_formats \<Rightarrow> key_derivation \<Rightarrow> bytes \<Rightarrow> store
   \<Rightarrow> go_error + store server \<times> (request \<Rightarrow> store handler option) \<times> store" where
  "start_server L H collation page formats argon version s =
     (case with_database L H of
        Inl e \<Rightarrow> Inl e
      | Inr cfg \<Rightarrow>
          (case attachKeeper (cf_dkim_master_key cfg) s of
             Inl e \<Rightarrow> Inl e
           | Inr s1 \<Rightarrow>
               (case fst (SchemaVersion (ho_db H) (cf_database_url cfg)) of
                  Inl e \<Rightarrow> Inl e
                | Inr _ \<Rightarrow>
                    let srv = new_server L cfg (store_backend L) version (ho_now H) in
                    if cf_console_password_hash cfg = [] then Inr (srv, (\<lambda>_. None), s1)
                    else case ParsePasswordHash (cf_console_password_hash cfg) of
                      Inl e \<Rightarrow> Inl e
                    | Inr hash \<Rightarrow>
                        Inr (srv,
                             console_ui \<lparr>co_store = store_console L collation,
                               co_options = \<lparr>op_password = Some hash, op_secure = cf_console_secure_cookies cfg,
                                 op_env = cf_env cfg, op_version = version, op_send_enabled = cf_send_enabled cfg,
                                 op_max_per_hour = cf_max_send_per_hour cfg\<rparr>,
                               co_page = page, co_formats = formats, co_argon = argon\<rparr>,
                             s1))))"

text \<open>
  runWorker up to its loops: the configuration of the worker, the store with its keeper. \<open>D\<close> is
  the DKIM library.
\<close>

definition start_worker ::
  "golib \<Rightarrow> dkimlib \<Rightarrow> host \<Rightarrow> store \<Rightarrow> go_error + worker_config \<times> store" where
  "start_worker L D H s =
     (case boot L H of
        Inl e \<Rightarrow> Inl e
      | Inr cfg \<Rightarrow>
          if \<not> cf_send_enabled cfg
          then Inl (Msg ''sending is disabled on this deployment; set AIEMAIL_SEND_ENABLED=true to run the worker'')
          else
            (case with_database L H of
               Inl e \<Rightarrow> Inl e
             | Inr _ \<Rightarrow>
                 (case attachKeeper (cf_dkim_master_key cfg) s of
                    Inl e \<Rightarrow> Inl e
                  | Inr s1 \<Rightarrow>
                      (case NewEnvelopeKeeper (cf_dkim_master_key cfg) of
                         Inl e \<Rightarrow> Inl e
                       | Inr keeper \<Rightarrow>
                           Inr (\<lparr>wc_dkim = D, wc_engine_url = cf_engine_url cfg, wc_master_key = keeper,
                                 wc_base_url = cf_public_base_url cfg, wc_max_per_hour = cf_max_send_per_hour cfg\<rparr>, s1)))))"

end
