(* ===== verification/Program.thy ===== *)
theory Program
  imports Worker_Run Cli
begin

text \<open>
  All processes over one store. Every change any of them makes to the database is a sequence of
  calls of package store; the locales below turn a fact about each call into a fact about the
  handlers, the loops and the commands. They come in three layers: calls that leave the mail queue
  alone, acceptance, and the calls of the delivery loop.
\<close>

section \<open>Calls beside the queue\<close>

locale side_relation =
  fixes L :: golib and R :: "store \<Rightarrow> store \<Rightarrow> bool"
  assumes unchanged: "same_tables s s' \<Longrightarrow> R s s'"
    and compose: "R s t \<Longrightarrow> R t u \<Longrightarrow> R s u"
    and suppress_call: "R s (snd (Suppress L ad r d m s))"
    and unsuppress_call: "R s (snd (Unsuppress L ad s))"
    and key_calls: "R s (snd (CreateAPIKey new s))" "R s (snd (TouchAPIKey i ip s))" "R s (snd (RevokeAPIKey i s))"
    and signing_call: "R s (snd (CreateSigningKey i sel alg wrapped rec s))"
    and endpoint_call: "R s (snd (CreateEndpoint url secret s))"
    and delivery_calls: "R s (snd (ClaimDeliveries limit lockFor s))" "R s (snd (MarkDeliverySucceeded i s))"
      "R s (snd (RescheduleDelivery i at' reason s))" "R s (snd (MarkDeliveryFailed i reason s))"
    and domain_calls: "R s (snd (MarkDomainVerified i s))" "R s (snd (SuspendDomain i s))"
      "R s (snd (TouchDomainCheck i s))" "R s (snd (exec [name, token] (upsert_domain name token) s))"
begin

lemma same [simp]: "R s s"
  by (simp add: unchanged)

lemma queried: "R s (tail_fates s)"
  by (simp add: unchanged)

subsection \<open>The console\<close>

lemma guard_R:
  assumes "\<And>v. R (ap_db a) (ap_db (snd (fn v h r io a)))"
  shows "R (ap_db a) (ap_db (snd (guard C nav fn h r io a)))"
  by (rule currentSession_cases [of r "io_now io" a]) (use assms in \<open>auto simp: guard_def\<close>)

lemma guardPost_R:
  assumes "\<And>form. R (ap_db a) (ap_db (snd (fn form h r io a)))"
  shows "R (ap_db a) (ap_db (snd (guardPost fn h r io a)))"
  by (rule currentSession_cases [of r "io_now io" a])
     (use assms in \<open>auto simp: guardPost_def split: option.splits\<close>)

lemma listing_R:
  assumes "\<And>s. same_tables s (snd (query s))"
  shows "R (ap_db a) (ap_db (snd (listing C query page fill v h r io a)))"
  using unchanged console.listing_quiet [OF assms] by blast

lemma login_R: "R (ap_db a) (ap_db (snd (login C hash h r io a)))"
  by (auto simp: login_def split: option.splits prod.splits sum.splits)

lemma loginForm_R: "R (ap_db a) (ap_db (snd (loginForm C h r io a)))"
  by (rule currentSession_cases [of r "io_now io" a]) (auto simp: loginForm_def)

lemma console_R:
  assumes "console_ui C r = Some f" "co_store C = store_console L collation"
  shows "R (ap_db a) (ap_db (snd (f h r io a)))"
proof -
  obtain hash where p: "Routes C hash r = Some f"
    using assms(1) by (auto simp: console_ui_def split: option.splits)
  have pages: "R (ap_db a) (ap_db (snd (guard C nav (overview C) h r io a)))"
    "R (ap_db a) (ap_db (snd (guard C nav (domains C) h r io a)))"
    "R (ap_db a) (ap_db (snd (guard C nav (keys C) h r io a)))"
    "R (ap_db a) (ap_db (snd (guard C nav (messages C) h r io a)))"
    "R (ap_db a) (ap_db (snd (guard C nav (suppressions C) h r io a)))" for nav
    unfolding overview_def domains_def keys_def messages_def suppressions_def assms(2)
    by (rule guard_R; rule listing_R; rule console.reads)+
  have posts: "R (ap_db a) (ap_db (snd (guardPost (logout C) h r io a)))"
    "R (ap_db a) (ap_db (snd (guardPost (unsuppress C) h r io a)))"
    "R (ap_db a) (ap_db (snd (guardPost (revokeKey C) h r io a)))"
    by (rule guardPost_R,
        auto simp: logout_def unsuppress_def revokeKey_def assms(2) store_console_def db_def case_prod_unfold Let_def
          unsuppress_call key_calls split: option.splits)+
  show ?thesis
    using p pages posts loginForm_R login_R unfolding Routes_def
    by (auto split: list.splits if_splits)
qed

lemma run_key_use_R:
  "sv_backend srv = store_backend L \<Longrightarrow> R (ap_db a) (ap_db (run_key_use srv u a))"
  by (auto simp: run_key_use_def store_backend_def db_def Let_def key_calls split: prod.splits)
     (metis key_calls(2) snd_conv)

subsection \<open>The dispatcher and the domain checker\<close>

lemma in_store_R: "R (hw_store w) (snd (f (hw_store w))) \<Longrightarrow> R (hw_store w) (hw_store (snd (in_store f w)))"
  by (simp add: in_store_snd)

lemma dispatch_R: "R (hw_store w) (hw_store (dispatch (store_dispatcher L') item w))"
  by (auto simp: dispatch_def store_dispatcher_def delivery_calls split: prod.splits outcome.splits)

lemma dispatches_R: "R (hw_store w) (hw_store (fold (dispatch (store_dispatcher L')) its w))"
proof (induction its arbitrary: w)
  case (Cons item its)
  show ?case using compose [OF dispatch_R Cons.IH] by simp
qed simp

lemma dispatcher_tick_R: "R (hw_store w) (hw_store (snd (dispatcher_tick (store_dispatcher L') w)))"
proof -
  obtain x w1 where c: "in_store (ClaimDeliveries webhookBatch webhookLock) w = (x, w1)" by fastforce
  then have q: "R (hw_store w) (hw_store w1)"
    using delivery_calls(1) [of "hw_store w" webhookBatch webhookLock] by (auto dest: in_storeD simp del: in_store_snd)
  have "hq_claim (di_queue (store_dispatcher L')) limit lockFor = in_store (ClaimDeliveries limit lockFor)" for limit lockFor
    by (simp add: store_dispatcher_def)
  then have "snd (dispatcher_tick (store_dispatcher L') w)
      = (case x of Inl e \<Rightarrow> w1 | Inr cs \<Rightarrow> fold (dispatch (store_dispatcher L')) cs w1)"
    using dispatcher_tick_def [of "store_dispatcher L'" w] c by (cases x) simp_all
  then show ?thesis using q compose [OF q dispatches_R] by (cases x) simp_all
qed

lemma check_domains_R: "R s (fold (check_domain store_domains verify) ds s)"
proof (induction ds arbitrary: s)
  case (Cons d ds)
  have "R s (check_domain store_domains verify d s)"
    by (auto simp: check_domain_def store_domains_def domain_calls split: option.splits)
  from compose [OF this Cons.IH] show ?case by simp
qed simp

lemma checker_tick_R: "R s (snd (checker_tick store_domains verify s))"
proof -
  obtain x t where q: "DomainsDueForRecheck domainRecheckInterval domainBatch s = (x, t)" by fastforce
  then have t: "R s t"
    using queried [of s] snd_query by (metis DomainsDueForRecheck_def snd_conv)
  have "ds_due store_domains = DomainsDueForRecheck" by (simp add: store_domains_def)
  then have "snd (checker_tick store_domains verify s)
      = (case x of Inl e \<Rightarrow> t | Inr ds \<Rightarrow> fold (check_domain store_domains verify) ds t)"
    using checker_tick_def [of store_domains verify s] q by (cases x) simp_all
  then show ?thesis using t compose [OF t check_domains_R] by (cases x) simp_all
qed

subsection \<open>The commands\<close>

lemma createKey_R: "R s (snd (createKey L' H name scopes quota days s))"
  by (auto simp: createKey_def Let_def split: sum.splits prod.splits) (metis key_calls(1) snd_conv)+

lemma addWebhook_R: "R s (snd (addWebhook L' H target s))"
  by (auto simp: addWebhook_def split: sum.splits prod.splits) (metis endpoint_call snd_conv)+

lemma addDomain_R: "R s (snd (addDomain L' H name s))"
proof -
  have e: "exec [d, token] (upsert_domain d token) s = (r, s1) \<Longrightarrow> R s s1" for d token r s1
    using domain_calls(4) by (metis snd_conv)
  have k: "CreateSigningKey i a b c d s1 = (r, s2) \<Longrightarrow> R s1 s2" for i a b c d s1 r s2
    using signing_call by (metis snd_conv)
  show ?thesis
    by (auto simp: addDomain_def Let_def split: sum.splits prod.splits dest: e k compose [OF e k])
qed

lemma commands_R:
  "R s (snd (runCreateKey L' H args s))" "R s (snd (runAddDomain L' H args s))" "R s (snd (runAddWebhook L' H args s))"
  by (simp_all add: runCreateKey_def runAddDomain_def runAddWebhook_def createKey_R addDomain_R addWebhook_R
      split: sum.splits)

end

section \<open>Requests\<close>

locale request_relation = side_relation +
  assumes enqueue_call: "well_formed L new \<Longrightarrow> R s (snd (EnqueueMessage L rand new s))"
begin

lemma Handler_R:
  assumes "sv_backend srv = store_backend L"
    and "ui = (\<lambda>_. None) \<or> (\<exists>C. ui = console_ui C \<and> co_store C = store_console L collation)"
    and "Handler L A srv ui h r io a = (resp, a')"
  shows "R (ap_db a) (ap_db a')"
proof -
  obtain h' a1 where m: "mux L A srv ui h' (tagged r io) io a = (resp, a1)" "ap_db a' = ap_db a1"
    using Handler_mux [OF assms(3)] by metis
  show ?thesis
  proof (cases "ui (tagged r io)")
    case (Some f)
    then have "mux L A srv ui h' (tagged r io) io a = f h' (tagged r io) io a" by (simp add: mux_def)
    moreover obtain C where "console_ui C (tagged r io) = Some f" "co_store C = store_console L collation"
      using Some assms(2) by auto
    ultimately show ?thesis unfolding m(2)
      using console_R [of C "tagged r io" f collation a h' io] m(1) by (metis snd_conv)
  next
    case None
    show ?thesis unfolding m(2)
    proof (rule api.mux_effect [OF assms(1) m(1) None])
      assume "api.quiet a a1"
      then show "R (ap_db a) (ap_db a1)" by (simp add: api.quiet_def unchanged)
    next
      fix tok claim res assume "b_suppress (store_backend L) (t_address claim) ''unsubscribe''
          ''requested by the recipient'' (t_message_id claim) (ap_db a) = (res, ap_db a1)"
      then show "R (ap_db a) (ap_db a1)"
        using suppress_call by (metis (no_types, lifting) backend.select_convs(9) snd_conv store_backend_def)
    next
      fix k n s1 res assume n: "same_tables (ap_db a) s1" "b_enqueue (store_backend L) (io_nonce io) n s1 = (res, ap_db a1)"
        "api.proper L L k (ap_db a) n"
      have "EnqueueMessage L (io_nonce io) n s1 = (res, ap_db a1)" using n(2) by (simp add: store_backend_def)
      then have "R s1 (ap_db a1)" using enqueue_call n(3) by (metis api.proper_def snd_conv)
      with n(1) show "R (ap_db a) (ap_db a1)" using unchanged compose by blast
    qed
  qed
qed

end

section \<open>Deliveries\<close>

locale store_relation = request_relation +
  assumes claim_call: "R s (snd (ClaimMessages L n lockTime s))"
    and mark_calls: "R s (snd (MarkSent mid s))" "R s (snd (MarkFailed mid why s))"
      "R s (snd (MarkDeferred mid t why s))" "R s (snd (MarkSigned mid s))"
    and publish_call: "R s (snd (EnqueueDelivery L ev mid p s))"
begin

lemma on_store_R: "R (wd_store w) (snd (f (wd_store w))) \<Longrightarrow> on_store f w = (r, x) \<Longrightarrow> R (wd_store w) (wd_store x)"
  by (auto simp: on_store_def split: prod.splits)

lemma on_net_R: "wd_store (snd (on_net f w)) = wd_store w"
  by (auto simp: on_net_def split: prod.splits)

lemma publish_R: "R (wd_store w) (wd_store (publish L (store_worker L cfg) i ty reason n w))"
  by (simp add: publish_def store_worker_def Let_def publish_call)

lemma fail_R: "R (wd_store w) (wd_store (fail L (store_worker L cfg) msg reason w))"
proof -
  obtain r x where x: "on_store (MarkFailed (c_id msg) reason) w = (r, x)" by fastforce
  have "R (wd_store w) (wd_store x)" by (rule on_store_R [OF mark_calls(2) x])
  then show ?thesis using x compose [OF _ publish_R] by (cases r) (simp_all add: fail_def)
qed

lemma suppress_R: "R (wd_store w) (wd_store (suppressIfAddressIsBad L (store_worker L cfg) msg reason w))"
proof -
  have "R (wd_store w) (wd_store (fold (\<lambda>r w. snd (on_store (Suppress L r a b c) w)) rs w))" for a b c rs
  proof (induction rs arbitrary: w)
    case (Cons r rs)
    have "R (wd_store w) (wd_store (snd (on_store (Suppress L r a b c) w)))" by (simp add: suppress_call)
    from compose [OF this Cons.IH] show ?case by simp
  qed simp
  then show ?thesis by (simp add: suppressIfAddressIsBad_def store_worker_def Let_def)
qed

lemma sign_R: "R (wd_store w) (wd_store (snd (sign L (store_worker L cfg) msg w)))"
proof -
  obtain r x where x: "on_store (SigningKeyForMessage (c_id msg)) w = (r, x)" by fastforce
  have k: "R (wd_store w) (wd_store x)"
    by (rule on_store_R [OF _ x]) (simp add: SigningKeyForMessage_snd queried)
  have "R (wd_store x) (wd_store (snd (on_store (MarkSigned (c_id msg)) x)))" by (simp add: mark_calls)
  with k have "R (wd_store w) (wd_store (snd (on_store (MarkSigned (c_id msg)) x)))" by (rule compose)
  with k x show ?thesis by (auto simp: sign_def store_worker_def split: sum.splits)
qed

lemma deliver_R: "R (wd_store w) (wd_store (deliver L (store_worker L cfg) msg w))"
proof -
  let ?W = "store_worker L cfg"
  obtain r x where x: "sign L ?W msg w = (r, x)" by fastforce
  then have sx: "R (wd_store w) (wd_store x)" using sign_R [of w cfg msg] by simp
  show ?thesis
  proof (cases r)
    case (Inl e)
    then show ?thesis using x compose [OF sx fail_R] by (simp add: deliver_def)
  next
    case (Inr raw)
    obtain resp y where y: "on_net (engine_Send L (wc_engine_url cfg) (post_of L msg raw)) x = (resp, y)" by fastforce
    then have "wd_store y = wd_store x" using on_net_R by (metis snd_conv)
    with sx have sy: "R (wd_store w) (wd_store y)" by simp
    have sent: "R (wd_store w) (wd_store z)" if "on_store (MarkSent (c_id msg)) y = (q, z)" for q z
      by (rule compose [OF sy on_store_R [OF mark_calls(1) that]])
    have deferred: "R (wd_store w) (wd_store z)" if "on_store (MarkDeferred (c_id msg) t reason) y = (q, z)" for t reason q z
      by (rule compose [OF sy on_store_R [OF mark_calls(3) that]])
    have published: "R (wd_store w) (wd_store (publish L ?W i ty reason n z))" if "R (wd_store w) (wd_store z)" for i ty reason n z
      using that publish_R by (rule compose)
    show ?thesis
    proof (cases "re_result resp")
      case EngineSent
      then show ?thesis
        using x y Inr sent published by (auto simp: deliver_def split: prod.splits sum.splits)
    next
      case Temporary
      then show ?thesis
        using x y Inr deferred published compose [OF sy fail_R] by (auto simp: deliver_def split: prod.splits sum.splits)
    next
      case Permanent
      then show ?thesis
        using x y Inr compose [OF compose [OF sy suppress_R] fail_R] by (simp add: deliver_def)
    qed
  qed
qed

lemma tick_claim_R:
  assumes "tick_claim (store_worker L cfg) w = (r, w')"
  shows "R (wd_store w) (wd_store w')"
proof -
  obtain rq x where x: "on_store SentInLastHour w = (rq, x)" by fastforce
  have q: "R (wd_store w) (wd_store x)" by (rule on_store_R [OF _ x]) (simp add: SentInLastHour_def queried)
  have c: "R (wd_store v) (wd_store w')" if "on_store (ClaimMessages L batchSize lockDuration) v = (r, w')" for v
    by (rule on_store_R [OF claim_call that])
  show ?thesis
    using assms x q c compose [OF q c] by (auto simp: tick_claim_def split: if_splits sum.splits)
qed

end

section \<open>The program\<close>

text \<open>
  One step of any process: a request, a background call, a claim or a delivery of the worker, the
  same of the dispatcher, a check of the domains, a command; or the environment, which moves the
  clock, decides what the connection does to the next statements and restarts processes, with or
  without a master key.
\<close>

inductive program_step :: "golib \<Rightarrow> api_lib \<Rightarrow> store \<Rightarrow> store \<Rightarrow> bool" for L A where
  request: "sv_backend srv = store_backend L \<Longrightarrow>
    ui = (\<lambda>_. None) \<or> (\<exists>C. ui = console_ui C \<and> co_store C = store_console L collation) \<Longrightarrow>
    Handler L A srv ui h r io a = (resp, a') \<Longrightarrow> program_step L A (ap_db a) (ap_db a')"
| key_use: "sv_backend srv = store_backend L \<Longrightarrow> program_step L A (ap_db a) (ap_db (run_key_use srv u a))"
| claim: "tick_claim (store_worker L cfg) w = (res, w') \<Longrightarrow> program_step L A (wd_store w) (wd_store w')"
| deliver: "program_step L A (wd_store w) (wd_store (deliver L (store_worker L cfg) msg w))"
| hooks: "program_step L A (hw_store v) (hw_store (snd (dispatcher_tick (store_dispatcher L) v)))"
| dispatch: "program_step L A (hw_store v) (hw_store (dispatch (store_dispatcher L) item v))"
| check: "program_step L A s (snd (checker_tick store_domains verify s))"
| create_key: "program_step L A s (snd (runCreateKey L H args s))"
| add_domain: "program_step L A s (snd (runAddDomain L H args s))"
| add_webhook: "program_step L A s (snd (runAddWebhook L H args s))"
| environment: "st_now s \<le> t \<Longrightarrow> program_step L A s (s\<lparr>st_now := t, st_fates := f, st_keeper := keeper\<rparr>)"

context store_relation
begin

lemma program_step_R:
  assumes "program_step L A s s'" "\<And>s t f keeper. st_now s \<le> t \<Longrightarrow> R s (s\<lparr>st_now := t, st_fates := f, st_keeper := keeper\<rparr>)"
  shows "R s s'"
  using assms(1)
proof cases
  case (request srv ui collation h r io a resp a')
  then show ?thesis using Handler_R [OF request(3,4,5)] by simp
qed (use assms(2) run_key_use_R tick_claim_R deliver_R dispatcher_tick_R dispatch_R checker_tick_R
      commands_R in auto)

lemma program_run_R:
  assumes "(program_step L A)\<^sup>*\<^sup>* s s'"
    and "\<And>s t f keeper. st_now s \<le> t \<Longrightarrow> R s (s\<lparr>st_now := t, st_fates := f, st_keeper := keeper\<rparr>)"
  shows "R s s'"
  using assms(1)
proof (induction rule: rtranclp_induct)
  case (step t u)
  then show ?case using program_step_R [OF step(2) assms(2)] compose by blast
qed simp

end

end
