(* ===== verification/Cli_Properties.thy ===== *)
theory Cli_Properties
  imports Cli
begin

text \<open>
  What the commands guarantee together with the server: a key issued on the command line is one
  the API admits, a deployment that sends keeps recipients encrypted, and the server and the
  worker started from one environment agree on their secrets.
\<close>

section \<open>Startup\<close>

lemma with_databaseD: "with_database L H = Inr cfg \<Longrightarrow> Load L (ho_env H) = Inr cfg"
  by (auto simp: with_database_def boot_def split: sum.splits option.splits)

lemma attachKeeper_sending:
  assumes "attachKeeper (cf_dkim_master_key cfg) s = Inr s1" "Load L env = Inr cfg" "cf_send_enabled cfg"
  shows "st_keeper s1 = Some (cf_dkim_master_key cfg)"
proof -
  have "length (cf_dkim_master_key cfg) = 32" using Load_sending [OF assms(2,3)] by blast
  then have "cf_dkim_master_key cfg \<noteq> []" by auto
  then show ?thesis using assms(1) by (auto simp: attachKeeper_def NewEnvelope_def split: if_splits)
qed

lemma start_serverD:
  assumes "start_server L H collation page formats argon version s = Inr (srv, ui, s1)"
  obtains cfg where "Load L (ho_env H) = Inr cfg" "sv_cfg srv = cfg" "sv_backend srv = store_backend L"
    "sv_unsubscribe_secret srv = DeriveSecret L (cf_dkim_master_key cfg)"
    "attachKeeper (cf_dkim_master_key cfg) s = Inr s1"
  using assms with_databaseD
  by (fastforce simp: start_server_def new_server_def Let_def split: sum.splits if_splits option.splits)

text \<open>
  C25. The server and the worker of one environment agree: a server that may send and a worker
  that starts attach the same 32-byte key to the store, the worker signs and derives its
  unsubscribe links with it, so the server accepts them, and the worker's ceiling is above zero;
  the worker never starts where sending is disabled.
\<close>

theorem server_and_worker_agree:
  assumes "start_server L H collation page formats argon version s = Inr (srv, ui, s1)"
    and "start_worker L D H t = Inr (wc, t1)"
  shows "cf_send_enabled (sv_cfg srv) \<and> length (wc_master_key wc) = 32
     \<and> st_keeper s1 = Some (wc_master_key wc) \<and> st_keeper t1 = st_keeper s1
     \<and> wk_secret (store_worker L wc) = sv_unsubscribe_secret srv \<and> 0 < wc_max_per_hour wc"
proof -
  obtain cfg where c: "Load L (ho_env H) = Inr cfg" "cf_send_enabled cfg"
    "attachKeeper (cf_dkim_master_key cfg) t = Inr t1" "wc_master_key wc = cf_dkim_master_key cfg"
    "wc_max_per_hour wc = cf_max_send_per_hour cfg"
    using assms(2)
    by (auto simp: start_worker_def boot_def NewEnvelopeKeeper_def split: sum.splits if_splits)
  obtain cfg' where s: "Load L (ho_env H) = Inr cfg'" "sv_cfg srv = cfg'" "sv_backend srv = store_backend L"
    "sv_unsubscribe_secret srv = DeriveSecret L (cf_dkim_master_key cfg')"
    "attachKeeper (cf_dkim_master_key cfg') s = Inr s1"
    by (rule start_serverD [OF assms(1)])
  have "cfg' = cfg" using s(1) c(1) by simp
  moreover have "st_keeper s1 = Some (cf_dkim_master_key cfg)" "st_keeper t1 = Some (cf_dkim_master_key cfg)"
    using attachKeeper_sending c s calculation by auto
  ultimately show ?thesis
    using Load_sending [OF c(1,2)] c s by (simp add: store_worker_def)
qed

text \<open>
  C24. A deployment that can send never stores a recipient in clear: a message that a started
  server with sending enabled adds to the store has no clear recipients, only their encryption
  under the configured 32-byte key and their hashes.
\<close>

theorem recipients_encrypted_at_rest:
  assumes "start_server L H collation page formats argon version s = Inr (srv, ui, s1)"
    and "st_keeper (ap_db a) = st_keeper s1"
    and "Handler L A srv ui h r io a = (resp, a')" "ui (tagged r io) = None"
    and "st_messages (ap_db a') = st_messages (ap_db a) @ [row]"
  shows "\<exists>key recipients nonce. cf_dkim_master_key (sv_cfg srv) = key \<and> length key = 32
     \<and> m_recipients row = None \<and> ReadFull nonce_size (io_nonce io) = Inr nonce
     \<and> m_encrypted row = Some (nonce @ gcm_seal L key nonce (json_strings_enc L recipients))
     \<and> m_hashes row = map (SuppressionHash L) recipients"
proof -
  obtain cfg where c: "Load L (ho_env H) = Inr cfg" "sv_cfg srv = cfg" "sv_backend srv = store_backend L"
    "attachKeeper (cf_dkim_master_key cfg) s = Inr s1"
    by (rule start_serverD [OF assms(1)])
  obtain h' a1 where m: "mux L A srv ui h' (tagged r io) io a = (resp, a1)" "ap_db a' = ap_db a1"
    using Handler_mux [OF assms(3)] by metis
  show ?thesis
  proof (rule api.mux_effect [OF c(3) m(1) assms(4)])
    assume "api.quiet a a1"
    then show ?thesis using assms(5) by (auto simp: api.quiet_def same_tables_def m(2))
  next
    fix tok claim res assume "b_suppress (store_backend L) (t_address claim) ''unsubscribe''
        ''requested by the recipient'' (t_message_id claim) (ap_db a) = (res, ap_db a1)"
    then have "ap_db a1 = snd (Suppress L (t_address claim) ''unsubscribe'' ''requested by the recipient''
        (t_message_id claim) (ap_db a))" by (simp add: store_backend_def)
    then show ?thesis using assms(5) Suppress_messages by (simp add: m(2))
  next
    fix k n t1 res assume n: "cf_send_enabled (sv_cfg srv)" "same_tables (ap_db a) t1"
      "b_enqueue (store_backend L) (io_nonce io) n t1 = (res, ap_db a1)"
    have keeper: "st_keeper t1 = Some (cf_dkim_master_key cfg)" "length (cf_dkim_master_key cfg) = 32"
      using attachKeeper_sending [OF c(4,1)] Load_sending(2) [OF c(1)] n(1,2) c(2) assms(2)
      by (auto simp: same_tables_def)
    have t1: "st_messages t1 = st_messages (ap_db a)" using n(2) by (auto simp: same_tables_def)
    have e: "EnqueueMessage L (io_nonce io) n t1 = (res, ap_db a1)" using n(3) by (simp add: store_backend_def)
    show ?thesis
    proof (rule EnqueueMessage_cases [of L "io_nonce io" n t1])
      fix row' f ret assume acc: "EnqueueMessage L (io_nonce io) n t1 = (ret, (accept n row' t1)\<lparr>st_fates := f\<rparr>)"
        "acceptable L (io_nonce io) n t1 row'"
      then have "row' = row" using e assms(5) t1 by (simp add: accept_def m(2))
      moreover from acc(2) obtain encrypted hashes clear headers tags where
        p: "packRecipients L (io_nonce io) (st_keeper t1) (n_recipients n) = Inr (encrypted, hashes, clear)"
        and r: "row' = new_row n encrypted hashes clear headers tags (st_now t1)"
        unfolding acceptable_def by blast
      from p keeper(1) obtain c where "Wrap L (io_nonce io) (cf_dkim_master_key cfg) (json_strings_enc L (n_recipients n)) = Inr c"
        "encrypted = Some c" "clear = None" "hashes = map (SuppressionHash L) (n_recipients n)"
        by (auto simp: packRecipients_def Let_def split: sum.splits)
      ultimately show ?thesis
        using keeper(2) c(2) r by (auto simp: new_row_def Wrap_def split: if_splits sum.splits)
    qed (use e t1 assms(5) in \<open>auto simp: m(2)\<close>)
  qed
qed

section \<open>Issued keys\<close>

lemma secret_visible: "list_all visible (LivePrefix @ ToLower L (Base32_encode raw))"
proof -
  have a: "is_ascii (Base32_encode raw)"
    using is_ascii_subset [OF set_Base32_encode b32_alphabet_props(5)] .
  have "list_all visible b32_alphabet" by code_simp
  then have "visible c" if "c \<in> set (Base32_encode raw)" for c
    using that set_Base32_encode by (auto simp: list_all_iff)
  then have "visible (ascii_lower c)" if "c \<in> set (Base32_encode raw)" for c
    using that by (fastforce simp: visible_def byte_ascii_lower)
  moreover have "list_all visible LivePrefix" by code_simp
  ultimately show ?thesis by (auto simp: list_all_iff ToLower_ascii [OF a])
qed

lemma bearerToken_secret:
  assumes "rq_header r ''Authorization'' = ''Bearer '' @ secret" "list_all visible secret" "secret \<noteq> []"
  shows "bearerToken r = Some secret"
proof -
  have c: "Cut (''Bearer '' @ secret) '' '' = Some (''Bearer'', secret)"
    using Cut_append [of "CHR '' ''" "''Bearer''" secret] by simp
  have "EqualFold ''Bearer'' ''bearer''" by code_simp
  moreover have "TrimSpace secret = secret"
    using assms(2,3) by (intro TrimSpace_visible) (simp add: list_all_iff)
  ultimately show ?thesis using assms(1,3) c by (simp add: bearerToken_def)
qed

lemma CreateAPIKey_answered:
  assumes "CreateAPIKey in' s = (Inr k, s')"
  obtains row where "k = api_key_of row" "st_keys s' = st_keys s @ [row]" "st_fates s' = tl (st_fates s)"
    "k_secret_hash row = nk_secret_hash in'" "k_scopes row = nk_scopes in'" "k_expires_at row = nk_expires_at in'"
    "k_revoked_at row = None" "nk_secret_hash in' \<notin> k_secret_hash ` set (st_keys s)"
  using run_wrapped_InrD [OF assms [unfolded CreateAPIKey_def]]
  by (auto simp: insert_key_def nextval_def Let_def split: if_splits)

lemma find_fresh: "x \<notin> f ` set xs \<Longrightarrow> f r = x \<Longrightarrow> List.find (\<lambda>y. f y = x) (xs @ [r]) = Some r"
  by (induction xs) auto


section \<open>Examples\<close>

definition sample_drivers :: database_lib where
  "sample_drivers = \<lparr>sql_open = (\<lambda>_. None), set_dialect = (\<lambda>_. None), goose_up = (\<lambda>_. None),
     goose_version = (\<lambda>_. Inr 5), pool_parse = (\<lambda>_. None), pool_new = (\<lambda>_. None), pool_ping = (\<lambda>_. None)\<rparr>"

lemma sample_drivers_work [simp]:
  "fst (Migrate sample_drivers dsn) = Inr ()" "fst (Open sample_drivers dsn) = Inr PoolHandle"
  "fst (SchemaVersion sample_drivers dsn) = Inr 5"
  by (simp_all add: sample_drivers_def Migrate_def SchemaVersion_def with_sql_def openSQL_def prepareGoose_def Open_def)

definition sample_host :: host where
  "sample_host =
     \<lparr>ho_env = sample_environ, ho_db = sample_drivers, ho_now = 5,
      ho_rand = Inr (replicate 32 CHR 0x00), ho_pair = Inr (''pub'', ''priv''), ho_nonce = Inr ''nnnnnnnnnnnn'',
      ho_month = (\<lambda>_. ''202601'')\<rparr>"

definition sample_args :: "bytes list" where
  "sample_args = [''-name'', ''app'', ''--scopes=emails:send, emails:read'', ''-quota'', ''5'', ''-days'', ''30'']"

definition sample_flags :: flag_set where
  "sample_flags = [(''name'', StringFlag ''app''), (''scopes'', StringFlag ''emails:send, emails:read''),
     (''quota'', IntFlag 5), (''days'', IntFlag 30)]"

lemma sample_parse: "flag_Parse sample_lib create_key_flags sample_args = Inr sample_flags"
  by code_simp

lemma sample_flag_values:
  "string_flag sample_flags ''name'' = ''app''" "string_flag sample_flags ''scopes'' = ''emails:send, emails:read''"
  "int_flag sample_flags ''quota'' = 5" "int_flag sample_flags ''days'' = 30"
  by (simp_all add: sample_flags_def string_flag_def int_flag_def)

definition sample_issued :: "(go_error + api_key \<times> bytes) \<times> store" where
  "sample_issued = runCreateKey sample_lib sample_host sample_args empty_store"

lemma sample_database: "with_database sample_lib sample_host = Inr (read_config sample_lib sample_environ)"
  using Load_sample by (simp add: with_database_def boot_def sample_host_def)

definition sample_generated :: generated where
  "sample_generated = \<lparr>g_secret = sample_secret, g_hash = sample_secret,
     g_prefix = ''aiem_live_aaaaaa'' @ [CHR 0xE2, CHR 0x80, CHR 0xA6]\<rparr>"

lemma sample_generate: "key_Generate sample_lib (ho_rand sample_host) = Inr sample_generated"
  by code_simp

definition sample_key_row :: new_api_key where
  "sample_key_row = \<lparr>nk_name = ''app'', nk_prefix = g_prefix sample_generated, nk_secret_hash = sample_secret,
     nk_scopes = [''emails:send'', ''emails:read''], nk_quota = 5, nk_expires_at = 5 + 30 * 24 * Hour\<rparr>"

lemma sample_created:
  "st_fates (snd (CreateAPIKey sample_key_row empty_store)) = []
   \<and> (case fst (CreateAPIKey sample_key_row empty_store) of
        Inr k \<Rightarrow> ak_expires_at k = 5 + 30 * 24 * Hour | Inl e \<Rightarrow> False)"
proof -
  have "text_ok (g_prefix sample_generated)"
    by (simp add: sample_generated_def text_ok_def cont_def)
  moreover have "list_all text_ok [''app'', ''emails:send'', ''emails:read'']" by (simp add: text_ok_def)
  ultimately have "list_all text_ok ([nk_name sample_key_row, nk_prefix sample_key_row] @ nk_scopes sample_key_row)"
    by (simp add: sample_key_row_def)
  then show ?thesis
    by (simp add: CreateAPIKey_def run_wrapped_answering empty_store_def insert_key_def nextval_def
        sample_key_row_def api_key_of_def)
qed

lemma sample_scopes: "splitScopes ''emails:send, emails:read'' = [''emails:send'', ''emails:read'']"
  by code_simp

lemma sample_issued_eq:
  "sample_issued = (map_sum id (\<lambda>k. (k, sample_secret)) (fst (CreateAPIKey sample_key_row empty_store)),
     snd (CreateAPIKey sample_key_row empty_store))"
proof -
  have l: "Lifetime (wrap64 (wrap64 (30 * 24) * Hour)) = 30 * 24 * Hour"
    by (simp add: wrap64_def Lifetime_def DefaultLifetime_def MaxLifetime_def)
  have n: "TrimSpace ''app'' \<noteq> []" by code_simp
  have "ho_now sample_host = 5" by (simp add: sample_host_def)
  then show ?thesis
    unfolding sample_issued_def runCreateKey_def sample_parse sum.case sample_flag_values createKey_def sample_database sample_generate sample_scopes sum.case Let_def l
    using n by (simp add: sample_key_row_def sample_generated_def split: prod.splits sum.splits)
qed


definition sample_page :: "bytes \<Rightarrow> view \<Rightarrow> bytes" where "sample_page p v = p"

definition sample_started where
  "sample_started = start_server sample_lib sample_host (\<lambda>_. 0) sample_page
     \<lparr>tf_minute = (\<lambda>_. []), tf_day = (\<lambda>_. []), tf_cookie = (\<lambda>_. [])\<rparr> (\<lambda>p s. p @ s) ''dev'' sample_db"

definition started_server :: "store server" where
  "started_server = new_server sample_lib (read_config sample_lib sample_environ) (store_backend sample_lib) ''dev'' 5"

definition started_store :: store where
  "started_store = sample_db\<lparr>st_keeper := Some (cf_dkim_master_key (read_config sample_lib sample_environ))\<rparr>"

lemma sample_key: "length (cf_dkim_master_key (read_config sample_lib sample_environ)) = 32
   \<and> cf_console_password_hash (read_config sample_lib sample_environ) = []
   \<and> cf_send_enabled (read_config sample_lib sample_environ)"
  by code_simp

lemma sample_start: "sample_started = Inr (started_server, (\<lambda>_. None), started_store)"
proof -
  have "Load sample_lib (ho_env sample_host) = Inr (read_config sample_lib sample_environ)"
    using Load_sample by (simp add: sample_host_def)
  moreover have "cf_dkim_master_key (read_config sample_lib sample_environ) \<noteq> []" using sample_key by auto
  ultimately show ?thesis
    using sample_key
    by (simp add: sample_started_def start_server_def with_database_def boot_def attachKeeper_def NewEnvelope_def
        started_server_def started_store_def sample_host_def Let_def)
qed

lemma server_and_worker_agree_witness:
  "\<exists>wc t1. start_worker sample_lib sample_dkim sample_host empty_store = Inr (wc, t1)
     \<and> wk_secret (store_worker sample_lib wc) = sv_unsubscribe_secret started_server"
proof -
  have "\<not> isl (start_worker sample_lib sample_dkim sample_host empty_store)" by code_simp
  then obtain wc t1 where w: "start_worker sample_lib sample_dkim sample_host empty_store = Inr (wc, t1)"
    by (cases "start_worker sample_lib sample_dkim sample_host empty_store") auto
  from server_and_worker_agree [OF sample_start [unfolded sample_started_def] w] w show ?thesis by blast
qed

definition sample_encrypted :: "http_response \<times> store api_state" where
  "sample_encrypted = Handler sample_lib sample_api_lib started_server (\<lambda>_. None) [] sample_request
     (sample_inputs\<lparr>io_nonce := Inr ''nnnnnnnnnnnn''\<rparr>) (sample_api\<lparr>ap_db := started_store\<rparr>)"

lemma sample_encrypted_rows: "length (st_messages (ap_db (snd sample_encrypted))) = 1"
  by code_simp

lemma recipients_encrypted_at_rest_witness:
  "map m_recipients (st_messages (ap_db (snd sample_encrypted))) = [None]"
proof -
  obtain row where row: "st_messages (ap_db (snd sample_encrypted)) = [row]"
    using sample_encrypted_rows by (auto simp: length_Suc_conv)
  have "st_messages (ap_db (sample_api\<lparr>ap_db := started_store\<rparr>)) = []"
    by (simp add: started_store_def sample_db_def empty_store_def)
  then have a: "st_messages (ap_db (snd sample_encrypted)) = st_messages (ap_db (sample_api\<lparr>ap_db := started_store\<rparr>)) @ [row]"
    using row by simp
  have h: "Handler sample_lib sample_api_lib started_server (\<lambda>_. None) [] sample_request
     (sample_inputs\<lparr>io_nonce := Inr ''nnnnnnnnnnnn''\<rparr>) (sample_api\<lparr>ap_db := started_store\<rparr>)
     = (fst sample_encrypted, snd sample_encrypted)" by (simp add: sample_encrypted_def)
  have "st_keeper (ap_db (sample_api\<lparr>ap_db := started_store\<rparr>)) = st_keeper started_store" by simp
  from recipients_encrypted_at_rest [OF sample_start [unfolded sample_started_def] this h refl a]
  show ?thesis using row by auto
qed

end
