(* ===== verification/Process.thy ===== *)
theory Process
  imports Program Cli_Properties
begin

text \<open>
  The two long-running processes of cmd/aiemail/main.go as a whole, from their startup to their
  shutdown, and the exit status of the command.
\<close>

section \<open>runServe\<close>

text \<open>
  What happens while the server listens, in its order: a request is answered, a background call
  that records the use of a key runs, or another process changes the database.
\<close>

datatype served = Answer request inputs | Touch "int \<times> addr" | Elsewhere "store \<Rightarrow> store"

definition serve_one ::
  "golib \<Rightarrow> api_lib \<Rightarrow> store server \<Rightarrow> (request \<Rightarrow> store handler option) \<Rightarrow> served
   \<Rightarrow> http_response list \<times> store api_state \<Rightarrow> http_response list \<times> store api_state" where
  "serve_one L A srv ui ev = (\<lambda>(resps, a).
     case ev of
       Answer r io \<Rightarrow> (let (resp, a') = Handler L A srv ui [] r io a in (resps @ [resp], a'))
     | Touch u \<Rightarrow> (resps, if u \<in> set (ap_uses a) then run_key_use srv u a else a)
     | Elsewhere f \<Rightarrow> (resps, a\<lparr>ap_db := f (ap_db a)\<rparr>))"

text \<open>
  \<open>ls_listen\<close>: what ListenAndServe returned before the process was told to stop, \<open>ls_shutdown\<close>: the
  error of the graceful shutdown.
\<close>

record listening =
  ls_events :: "served list"
  ls_listen :: "go_error option"
  ls_shutdown :: "go_error option"

definition ErrServerClosed :: go_error where "ErrServerClosed = Msg ''http: Server closed''"

definition shutdown_result :: "listening \<Rightarrow> go_error + unit" where
  "shutdown_result ls =
     (case ls_shutdown ls of Some e \<Rightarrow> Inl (Wrapped ''graceful shutdown failed'' e) | None \<Rightarrow> Inr ())"

definition serve_result :: "listening \<Rightarrow> go_error + unit" where
  "serve_result ls =
     (case ls_listen ls of
        Some e \<Rightarrow>
          if \<not> errors_is e ErrServerClosed then Inl (Wrapped ''server failed'' e) else shutdown_result ls
      | None \<Rightarrow> shutdown_result ls)"

definition fresh_api :: "store \<Rightarrow> store api_state" where
  "fresh_api s = \<lparr>ap_db = s, ap_uses = [], ap_sessions = Map.empty, ap_log = []\<rparr>"

definition runServe ::
  "golib \<Rightarrow> api_lib \<Rightarrow> host \<Rightarrow> (bytes \<Rightarrow> int) \<Rightarrow> (bytes \<Rightarrow> view \<Rightarrow> bytes) \<Rightarrow> time_formats \<Rightarrow> key_derivation \<Rightarrow> bytes
   \<Rightarrow> listening \<Rightarrow> store \<Rightarrow> (go_error + unit) \<times> http_response list \<times> store" where
  "runServe L A H collation page formats argon version ls s =
     (case start_server L H collation page formats argon version s of
        Inl e \<Rightarrow> (Inl e, [], s)
      | Inr (srv, ui, s1) \<Rightarrow>
          (let (resps, a) = fold (serve_one L A srv ui) (ls_events ls) ([], fresh_api s1) in
           (serve_result ls, resps, ap_db a)))"

section \<open>runWorker\<close>

text \<open>
  The polls of the three loops. Each loop is followed from the state in which the process started
  it; what the other loops and processes do meanwhile is in the pauses of its polls.
\<close>

record loops =
  lo_mail :: "world poll list"
  lo_hooks :: "hook_world poll list"
  lo_domains :: "((bytes \<Rightarrow> bytes \<Rightarrow> proof_error option) \<times> store poll) list"

text \<open>The result of runWorker; None while it waits for a loop.\<close>

definition runWorker ::
  "golib \<Rightarrow> dkimlib \<Rightarrow> host \<Rightarrow> loops \<Rightarrow> world \<Rightarrow> hook_world \<Rightarrow> store \<Rightarrow> (go_error + unit) option" where
  "runWorker L D H lo w v s =
     (case start_worker L D H s of
        Inl e \<Rightarrow> Some (Inl e)
      | Inr (wc, s1) \<Rightarrow>
          if fst (worker_Run L (store_worker L wc) (lo_mail lo) (w\<lparr>wd_store := s1\<rparr>))
             \<and> fst (dispatcher_Run (store_dispatcher L) (lo_hooks lo) (v\<lparr>hw_store := s1\<rparr>))
             \<and> fst (checker_Run store_domains (lo_domains lo) s1)
          then Some (Inr ()) else None)"

section \<open>main\<close>

definition usage :: bytes where
  "usage =
     ''aiemail '' @ [CHR 0xE2, CHR 0x80, CHR 0x94] @ '' AI-Email server'' @ nl @ nl
     @ ''Usage:'' @ nl
     @ ''  aiemail serve          Serve the REST API'' @ nl
     @ ''  aiemail worker         Run background delivery and event work'' @ nl
     @ ''  aiemail keys create    Issue an API key (shown once)'' @ nl
     @ ''  aiemail domains add    Register a sending domain'' @ nl
     @ ''  aiemail version        Print the build version'' @ nl @ nl
     @ ''Configuration comes from the environment; see docs/.'' @ nl"

datatype log_level = LevelDebug | LevelInfo | LevelWarn | LevelError

definition newLogger :: "bytes \<Rightarrow> log_level" where
  "newLogger level =
     (if level = ''debug'' then LevelDebug
      else if level = ''warn'' then LevelWarn
      else if level = ''error'' then LevelError
      else LevelInfo)"

text \<open>What main writes to the standard error and its exit status, from the result of run.\<close>

definition main_exit :: "go_error + 'a \<Rightarrow> bytes \<times> int" where
  "main_exit r = (case r of Inl e \<Rightarrow> (''aiemail: '' @ error_text e @ nl, 1) | Inr _ \<Rightarrow> ([], 0))"

section \<open>A process is a run of the program\<close>

definition program_run :: "golib \<Rightarrow> api_lib \<Rightarrow> store \<Rightarrow> store \<Rightarrow> bool" where
  "program_run L A = (program_step L A)\<^sup>*\<^sup>*"

lemma program_run_step: "program_run L A s t \<Longrightarrow> program_step L A t u \<Longrightarrow> program_run L A s u"
  unfolding program_run_def by (rule rtranclp.rtrancl_into_rtrancl)

lemma program_run_trans: "program_run L A s t \<Longrightarrow> program_run L A t u \<Longrightarrow> program_run L A s u"
  unfolding program_run_def by (rule rtranclp_trans)

lemma program_run_refl [simp]: "program_run L A s s"
  by (simp add: program_run_def)

text \<open>A server that start_server wired up, and its routes.\<close>

definition wired :: "golib \<Rightarrow> store server \<Rightarrow> (request \<Rightarrow> store handler option) \<Rightarrow> bool" where
  "wired L srv ui \<longleftrightarrow> sv_backend srv = store_backend L
     \<and> (ui = (\<lambda>_. None) \<or> (\<exists>C collation. ui = console_ui C \<and> co_store C = store_console L collation))"

lemma start_server_wired:
  assumes "start_server L H collation page formats argon version s = Inr (srv, ui, s1)"
  shows "wired L srv ui" "\<exists>keeper. s1 = s\<lparr>st_keeper := keeper\<rparr>"
proof -
  show "wired L srv ui"
    using assms
    by (auto simp: start_server_def new_server_def wired_def Let_def split: sum.splits if_splits) force+
  have "attachKeeper k s = Inr s1 \<Longrightarrow> \<exists>keeper. s1 = s\<lparr>st_keeper := keeper\<rparr>" for k
    by (auto simp: attachKeeper_def split: if_splits sum.splits intro: exI [of _ "st_keeper s"])
  with assms show "\<exists>keeper. s1 = s\<lparr>st_keeper := keeper\<rparr>"
    by (auto simp: start_server_def Let_def split: sum.splits if_splits)
qed

definition answered :: "served list \<Rightarrow> nat" where
  "answered evs = length (filter (\<lambda>ev. case ev of Answer r io \<Rightarrow> True | _ \<Rightarrow> False) evs)"

lemma serve_one_run:
  assumes "wired L srv ui" "\<And>f s. ev = Elsewhere f \<Longrightarrow> program_run L A s (f s)"
    and "serve_one L A srv ui ev (resps, a) = (resps', a')"
  shows "program_run L A (ap_db a) (ap_db a')" "length resps' = length resps + answered [ev]"
proof -
  have "program_run L A (ap_db a) (ap_db a') \<and> length resps' = length resps + answered [ev]"
  proof (cases ev)
    case (Answer r io)
    obtain resp a1 where h: "Handler L A srv ui [] r io a = (resp, a1)" by fastforce
    have "program_step L A (ap_db a) (ap_db a1)"
      using assms(1) by (auto simp: wired_def intro: program_step.request [OF _ _ h])
    then show ?thesis
      using assms(3) h by (auto simp: serve_one_def Answer answered_def program_run_def)
  next
    case (Touch u)
    then show ?thesis
      using assms(1,3) program_step.key_use [of srv L A a u]
      by (auto simp: serve_one_def answered_def program_run_def wired_def split: if_splits intro: r_into_rtranclp)
  next
    case (Elsewhere f)
    then show ?thesis using assms(2,3) by (auto simp: serve_one_def answered_def)
  qed
  then show "program_run L A (ap_db a) (ap_db a')" "length resps' = length resps + answered [ev]" by blast+
qed

lemma serve_run:
  assumes "wired L srv ui" "\<forall>f s. Elsewhere f \<in> set evs \<longrightarrow> program_run L A s (f s)"
    and "fold (serve_one L A srv ui) evs (resps, a) = (resps', a')"
  shows "program_run L A (ap_db a) (ap_db a') \<and> length resps' = length resps + answered evs"
  using assms(2,3)
proof (induction evs arbitrary: resps a)
  case Nil
  then show ?case by (simp add: answered_def)
next
  case (Cons ev evs)
  obtain resps1 a1 where o: "serve_one L A srv ui ev (resps, a) = (resps1, a1)" by fastforce
  have "program_run L A (ap_db a) (ap_db a1)" "length resps1 = length resps + answered [ev]"
    using Cons.prems(1) by (auto intro!: serve_one_run [OF assms(1) _ o])
  moreover have "program_run L A (ap_db a1) (ap_db a') \<and> length resps' = length resps1 + answered evs"
    using Cons.prems o by (intro Cons.IH) auto
  ultimately show ?case by (auto simp: answered_def intro: program_run_trans)
qed


definition sample_listening :: listening where
  "sample_listening = \<lparr>ls_events = [Answer sample_request sample_inputs, Elsewhere (\<lambda>s. s)],
     ls_listen = None, ls_shutdown = None\<rparr>"


text \<open>The worker process ends when its loops do, and never with an error of theirs.\<close>

lemma worker_process_returns:
  assumes "start_worker L D H s = Inr (wc, s1)" "list_ex pl_done (lo_mail lo)" "list_ex pl_done (lo_hooks lo)"
    "list_ex (\<lambda>v. pl_done (snd v)) (lo_domains lo)"
  shows "runWorker L D H lo w v s = Some (Inr ())"
proof -
  have "fst (worker_Run L (store_worker L wc) (lo_mail lo) (w\<lparr>wd_store := s1\<rparr>))"
    using worker_Run_stops(1) [of L "store_worker L wc" "lo_mail lo"] assms(2) by (metis prod.collapse)
  moreover have "fst (dispatcher_Run (store_dispatcher L) (lo_hooks lo) (v\<lparr>hw_store := s1\<rparr>))"
    using dispatcher_Run_stops [of "store_dispatcher L" "lo_hooks lo"] assms(3) by (metis prod.collapse)
  moreover have "fst (checker_Run store_domains (lo_domains lo) s1)"
    using checker_Run_stops [of store_domains "lo_domains lo" s1] assms(4) by (metis prod.collapse)
  ultimately show ?thesis using assms(1) by (simp add: runWorker_def)
qed

end
