(* ===== verification/Accepted.thy ===== *)
theory Accepted
  imports Program
begin

text \<open>
  From acceptance to delivery: what buildMessage checks when a message is accepted is what Build
  needs when the worker claims it, after its recipients were packed, its headers stored as JSON and
  its row changed by any number of claims, deferrals and crashes.
\<close>

section \<open>The stored content of a message\<close>

text \<open>A row whose content passed the checks of buildMessage before it was packed.\<close>

definition checked :: "golib \<Rightarrow> message_row \<Rightarrow> bool" where
  "checked L m \<longleftrightarrow> (\<exists>new rand keeper hashes. well_formed L new
     \<and> packRecipients L rand keeper (n_recipients new) = Inr (m_encrypted m, hashes, m_recipients m)
     \<and> jsonb_in L (n_headers new) = Some (m_headers m) \<and> m_from m = n_from new \<and> m_subject m = n_subject new)"

definition all_checked :: "golib \<Rightarrow> store \<Rightarrow> bool" where
  "all_checked L s \<longleftrightarrow> list_all (checked L) (st_messages s)"

lemma checked_same:
  "m_encrypted m' = m_encrypted m \<Longrightarrow> m_recipients m' = m_recipients m \<Longrightarrow> m_headers m' = m_headers m \<Longrightarrow>
   m_from m' = m_from m \<Longrightarrow> m_subject m' = m_subject m \<Longrightarrow> checked L m' = checked L m"
  by (simp add: checked_def)

lemma checked_update:
  assumes "\<And>m. checked L (f m) = checked L m"
  shows "list_all (checked L) (update_where p f ms) = list_all (checked L) ms"
  by (induction ms) (auto simp: update_where_def assms)

lemma all_checked_sel [simp]:
  "all_checked L (s\<lparr>st_fates := f\<rparr>) = all_checked L s" "all_checked L (tail_fates s) = all_checked L s"
  by (simp_all add: all_checked_def tail_fates_def)

lemma run_checked:
  assumes "all_checked L s" "\<And>a s'. stmt (tail_fates s) = Inr (a, s') \<Longrightarrow> all_checked L s'"
  shows "all_checked L (snd (run_wrapped what texts stmt s))"
  by (rule run_wrapped_rel) (use assms in simp_all)

lemma run_same_messages:
  assumes "\<And>a s'. stmt (tail_fates s) = Inr (a, s') \<Longrightarrow> st_messages s' = st_messages s"
  shows "st_messages (snd (run_wrapped what texts stmt s)) = st_messages s"
  by (rule run_wrapped_rel) (use assms in simp_all)

text \<open>The calls that add no message and change none.\<close>

lemma side_calls_messages:
  "st_messages (snd (Suppress L ad r d m s)) = st_messages s" "st_messages (snd (Unsuppress L ad s)) = st_messages s"
  "st_messages (snd (CreateAPIKey new s)) = st_messages s" "st_messages (snd (TouchAPIKey i ip s)) = st_messages s"
  "st_messages (snd (CreateSigningKey j sel alg wrapped rec s)) = st_messages s"
  "st_messages (snd (CreateEndpoint url secret s)) = st_messages s"
  unfolding Suppress_def Unsuppress_def CreateAPIKey_def TouchAPIKey_def CreateSigningKey_def CreateEndpoint_def
  by (rule run_same_messages;
      auto simp: insert_suppression_def stmt_update_def insert_key_def touch_key_def insert_signing_key_def
        insert_endpoint_def nextval_def Let_def split: if_splits addr.splits)+

lemma revoke_messages: "st_messages (snd (RevokeAPIKey i s)) = st_messages s"
proof -
  have "st_messages (snd (run_wrapped ''revoking key'' [] (revoke_update i) s)) = st_messages s"
    by (rule run_same_messages) (auto simp: revoke_update_def Let_def)
  then show ?thesis unfolding RevokeAPIKey_def by (auto split: prod.splits sum.splits)
qed

lemma hook_calls_messages:
  "st_messages (snd (ClaimDeliveries limit lockFor s)) = st_messages s"
  "st_messages (snd (MarkDeliverySucceeded i s)) = st_messages s"
  "st_messages (snd (RescheduleDelivery i at' reason s)) = st_messages s"
  "st_messages (snd (MarkDeliveryFailed i reason s)) = st_messages s"
  "st_messages (snd (MarkDomainVerified i s)) = st_messages s" "st_messages (snd (SuspendDomain i s)) = st_messages s"
  "st_messages (snd (TouchDomainCheck i s)) = st_messages s"
  unfolding ClaimDeliveries_def MarkDeliverySucceeded_def RescheduleDelivery_def MarkDeliveryFailed_def
    MarkDomainVerified_def SuspendDomain_def TouchDomainCheck_def
  by (rule run_same_messages;
      auto simp: stmt_update_def claim_deliveries_update_def Let_def set_delivery_def set_domain_def)+

lemma upsert_messages: "st_messages (snd (exec [name, token] (upsert_domain name token) s)) = st_messages s"
  by (rule exec_cases [of "[name, token]" "upsert_domain name token" s])
     (auto simp: upsert_domain_def nextval_def Let_def split: option.splits)

lemma publish_messages: "st_messages (snd (EnqueueDelivery L e mid p s)) = st_messages s"
  unfolding EnqueueDelivery_def
  by (rule run_same_messages) (auto simp: insert_deliveries_def Let_def fan_out_quiet split: option.splits if_splits)

text \<open>The calls that add a message or change its row.\<close>

lemma EnqueueMessage_checked:
  assumes "well_formed L new" "all_checked L s"
  shows "all_checked L (snd (EnqueueMessage L rand new s))"
proof (cases rule: EnqueueMessage_cases [of L rand new s])
  case (accepted row f ret)
  obtain encrypted hashes clear headers tags where
    "packRecipients L rand (st_keeper s) (n_recipients new) = Inr (encrypted, hashes, clear)"
    "jsonb_in L (n_headers new) = Some headers" "row = new_row new encrypted hashes clear headers tags (st_now s)"
    using accepted(2) unfolding acceptable_def by blast
  with assms(1) have "checked L row"
    unfolding checked_def by (intro exI [of _ new] exI [of _ rand] exI [of _ "st_keeper s"] exI [of _ hashes])
      (simp add: new_row_def)
  then show ?thesis using assms(2) by (simp add: accepted(1) all_checked_def accept_def)
qed (use assms(2) in simp_all)

lemma mark_checked:
  assumes "all_checked L s" "\<And>now m. checked L (h now m) = checked L m"
  shows "all_checked L (snd (mark what texts h i event detail s))"
proof -
  let ?upd = "\<lambda>s. s\<lparr>st_messages := update_where (\<lambda>m. m_id m = i) (h (st_now s)) (st_messages s)\<rparr>"
  obtain r t where t: "run_wrapped what texts (stmt_update ?upd) s = (r, t)" by fastforce
  have "all_checked L (snd (run_wrapped what texts (stmt_update ?upd) s))"
    using assms(1) by (rule run_checked) (use assms in \<open>auto simp: stmt_update_def all_checked_def checked_update\<close>)
  moreover have "st_messages (snd (RecordEvent i event detail u)) = st_messages u" for u
    unfolding RecordEvent_def
    by (rule run_same_messages) (auto simp: insert_event_def nextval_def Let_def split: if_splits)
  ultimately show ?thesis using t by (cases r) (simp_all add: mark_def all_checked_def)
qed

lemma queue_calls_checked:
  assumes "all_checked L s"
  shows "all_checked L (snd (MarkSent i s))" "all_checked L (snd (MarkFailed i reason s))"
    "all_checked L (snd (MarkDeferred i t reason s))" "all_checked L (snd (MarkSigned i s))"
    "all_checked L (snd (ClaimMessages L n d s))"
proof -
  have "checked L (status_row st why now m) = checked L m" "checked L (defer_row t why' now m) = checked L m"
    for st why why' now m
    by (rule checked_same; simp add: status_row_def defer_row_def)+
  then show "all_checked L (snd (MarkSent i s))" "all_checked L (snd (MarkFailed i reason s))"
    "all_checked L (snd (MarkDeferred i t reason s))"
    unfolding mark_simps using mark_checked [OF assms] by blast+
  show "all_checked L (snd (MarkSigned i s))"
  proof -
    have "checked L (m\<lparr>m_signed_at := t\<rparr>) = checked L m" for m t by (rule checked_same) simp_all
    then show ?thesis
      unfolding MarkSigned_def using assms
      by (intro run_checked) (auto simp: stmt_update_def all_checked_def checked_update)
  qed
  show "all_checked L (snd (ClaimMessages L n d s))"
  proof (cases rule: ClaimMessages_cases [of L n d s])
    case (claimed r)
    have "checked L (claim_row now d m) = checked L m" for now m
      by (rule checked_same) (simp_all add: claim_row_def)
    then show ?thesis using claimed assms by (simp add: all_checked_def claimed_rows_def checked_update)
  qed (use assms in simp)
qed

interpretation content: store_relation L "\<lambda>s s'. all_checked L s \<longrightarrow> all_checked L s'" for L
  by unfold_locales
     (auto simp: same_tables_def all_checked_def side_calls_messages revoke_messages hook_calls_messages
       upsert_messages publish_messages EnqueueMessage_checked [unfolded all_checked_def]
       queue_calls_checked [unfolded all_checked_def])

section \<open>Laws of the libraries\<close>

text \<open>Parsing an address makes up no control character, and neither does formatting a date.\<close>

definition mail_laws :: "golib \<Rightarrow> bool" where
  "mail_laws L \<longleftrightarrow>
     (\<forall>s n e. mail_parse L s = Some (n, e) \<longrightarrow> \<not> ContainsControl s \<longrightarrow> \<not> ContainsControl e)
     \<and> (\<forall>t. \<not> ContainsControl (rfc1123z L t))"

text \<open>
  What the storage keeps: AES-GCM opens a sealed text to that text or, under another key or nonce,
  not at all; a list of strings written as JSON is read back with the same code points, and so is
  every entry of an object that a jsonb column read back.
\<close>

definition storage_laws :: "golib \<Rightarrow> bool" where
  "storage_laws L \<longleftrightarrow>
     (\<forall>k k' n n' p q. gcm_open L k n (gcm_seal L k' n' p) = Some q \<longrightarrow> q = p)
     \<and> (\<forall>xs ys. json_strings_dec L (json_strings_enc L xs) = Some ys \<longrightarrow> map runes ys = map runes xs)
     \<and> (\<forall>hs j hs' h'. jsonb_in L (json_map_enc L hs) = Some j \<longrightarrow> json_map_dec L j = Some hs' \<longrightarrow> h' \<in> set hs' \<longrightarrow>
          (\<exists>h \<in> set hs. runes (fst h') = runes (fst h) \<and> runes (snd h') = runes (snd h)))"

lemma same_runes_control: "runes x = runes y \<Longrightarrow> ContainsControl x = ContainsControl y"
  by (simp add: ContainsControl_def)

lemma same_runes_ascii:
  assumes "runes x = runes y" "list_all (\<lambda>r. r < 128) (runes x)"
  shows "x = y"
proof -
  have "is_ascii x" "is_ascii y" using assms by (metis runes_all_below_128)+
  then have "map byte x = map byte y" using assms(1) by (simp add: runes_ascii)
  then show ?thesis by (simp add: inj_map_eq_map inj_on_def)
qed

lemma same_runes_header:
  assumes "ValidateCustomHeader L n v = None" "runes n' = runes n" "runes v' = runes v"
  shows "ValidateCustomHeader L n' v' = None"
proof -
  have "list_all (\<lambda>r. r < 128) (runes n')"
    using assms(1,2) by (auto simp: ValidateCustomHeader_def list_ex_iff list_all_iff split: if_splits)
  then have "n' = n" using assms(2) by (rule same_runes_ascii [rotated])
  then show ?thesis
    using assms(1) same_runes_control [OF assms(3)] by (auto simp: ValidateCustomHeader_def split: if_splits)
qed

section \<open>Reading back what was checked\<close>

lemma TrimSpace_no_control: "\<not> ContainsControl s \<Longrightarrow> \<not> ContainsControl (TrimSpace s)"
  using set_TrimSpace [of s] by (auto simp: ContainsControl_iff)

lemma parsed_no_control:
  assumes "mail_laws L" "ParseAddress L raw = Inr ad"
  shows "\<not> ContainsControl (a_email ad)"
proof -
  obtain name where "mail_parse L (TrimSpace raw) = Some (name, a_email ad)" "\<not> ContainsControl raw"
    using assms(2) by (auto simp: ParseAddress_def Let_def split: if_splits option.splits)
  then show ?thesis using assms(1) TrimSpace_no_control unfolding mail_laws_def by blast
qed

lemma unpacked_runes:
  assumes "storage_laws L" "packRecipients L rand keeper rs = Inr (encrypted, hashes, clear)"
    and "unpackRecipients L keeper' encrypted clear = Inr rs'"
  shows "map runes rs' = map runes rs"
proof (cases keeper)
  case None
  then show ?thesis using assms(2,3) by (auto simp: packRecipients_def unpackRecipients_def Let_def)
next
  case (Some key)
  then obtain c where c: "Wrap L rand key (json_strings_enc L rs) = Inr c" "encrypted = Some c"
    using assms(2) by (auto simp: packRecipients_def Let_def split: sum.splits)
  obtain nonce where n: "length nonce = nonce_size" "c = nonce @ gcm_seal L key nonce (json_strings_enc L rs)"
    using Wrap_InrD [OF c(1)] by blast
  then have "c \<noteq> []" by (auto simp: nonce_size_def)
  then obtain key' payload where k: "Unwrap L key' c = Inr payload" "json_strings_dec L payload = Some rs'"
    using assms(3) c(2) by (cases c) (auto simp: unpackRecipients_def split: option.splits sum.splits)
  then have "gcm_open L key' nonce (gcm_seal L key nonce (json_strings_enc L rs)) = Some payload"
    using n by (auto simp: Unwrap_def split: if_splits option.splits)
  then show ?thesis using assms(1) k(2) unfolding storage_laws_def by metis
qed

lemma decoded_headers:
  assumes "storage_laws L" "jsonb_in L (json_map_enc L hs) = Some j"
    and "list_all (\<lambda>(n, v). ValidateCustomHeader L n v = None) hs"
  shows "list_all (\<lambda>(n, v). ValidateCustomHeader L n v = None) (decodeHeaders L j)"
proof -
  have "ValidateCustomHeader L (fst h') (snd h') = None" if h': "json_map_dec L j = Some hs'" "h' \<in> set hs'" for h' hs'
  proof -
    obtain h where "h \<in> set hs" "runes (fst h') = runes (fst h)" "runes (snd h') = runes (snd h)"
      using assms(1,2) h' unfolding storage_laws_def by meson
    moreover from this(1) have "ValidateCustomHeader L (fst h) (snd h) = None"
      using assms(3) by (auto simp: list_all_iff)
    ultimately show ?thesis using same_runes_header by blast
  qed
  then show ?thesis by (cases "json_map_dec L j") (auto simp: decodeHeaders_def list_all_iff)
qed

lemma token_no_control: "\<not> ContainsControl (unsubscribe_Sign L secret i a now)"
proof -
  have "list_all (\<lambda>c. \<not> control_byte c) (CHR ''.'' # url_alphabet)" by code_simp
  then have "\<not> control_byte c" if "c \<in> set (RawURL_encode x) \<union> {CHR ''.''}" for c x
    using that raw_url.enc_symbols by (auto simp: list_all_iff)
  then show ?thesis by (auto simp: unsubscribe_Sign_def Let_def ContainsControl_iff)
qed

lemma link_no_control: "\<not> ContainsControl base \<Longrightarrow> \<not> ContainsControl (Link base (unsubscribe_Sign L secret i a now))"
proof -
  have "set (TrimSuffix base ''/'') \<subseteq> set base" by (auto simp: TrimSuffix_def dest: in_set_takeD)
  then have "\<not> ContainsControl base \<Longrightarrow> \<not> ContainsControl (TrimSuffix base ''/'')"
    by (auto simp: ContainsControl_iff)
  then show "\<not> ContainsControl base \<Longrightarrow> ?thesis"
    using token_no_control by (simp add: Link_def control_byte_def)
qed

lemma checked_builds:
  assumes "mail_laws L" "storage_laws L" "checked L m"
    and "c_from msg = m_from m" "c_subject msg = m_subject m" "c_headers msg = m_headers m"
    and "unpackRecipients L keeper (m_encrypted m) (m_recipients m) = Inr (c_recipients msg)"
    and "\<not> ContainsControl (c_id msg)" "\<not> ContainsControl (sk_domain key)" "\<not> ContainsControl (wk_base_url w)"
  shows "\<exists>raw. Build L now boundary (envelope_of L w msg key s) = Inr raw"
proof -
  obtain new rand keeper0 hashes where n: "well_formed L new"
    "packRecipients L rand keeper0 (n_recipients new) = Inr (m_encrypted m, hashes, m_recipients m)"
    "jsonb_in L (n_headers new) = Some (m_headers m)" "m_from m = n_from new" "m_subject m = n_subject new"
    using assms(3) unfolding checked_def by blast
  then obtain hs where hs: "n_headers new = json_map_enc L hs" "list_all (\<lambda>(n, v). ValidateCustomHeader L n v = None) hs"
    unfolding well_formed_def by blast
  have rs: "map runes (c_recipients msg) = map runes (n_recipients new)"
    by (rule unpacked_runes [OF assms(2) n(2) assms(7)])
  have p: "\<forall>x \<in> insert (n_from new) (set (n_recipients new)). \<not> ContainsControl x"
  proof
    fix x assume "x \<in> insert (n_from new) (set (n_recipients new))"
    then obtain raw ad where "ParseAddress L raw = Inr ad" "x = a_email ad"
      using n(1) unfolding well_formed_def by blast
    then show "\<not> ContainsControl x" using parsed_no_control [OF assms(1)] by simp
  qed
  have "\<forall>x \<in> set (c_recipients msg). \<not> ContainsControl x"
  proof
    fix x assume "x \<in> set (c_recipients msg)"
    then have "runes x \<in> set (map runes (n_recipients new))" unfolding rs [symmetric] by simp
    then obtain y where "y \<in> set (n_recipients new)" "runes x = runes y" by auto
    then show "\<not> ContainsControl x" using p same_runes_control by blast
  qed
  moreover have "c_recipients msg \<noteq> []" using rs n(1) unfolding well_formed_def by (metis map_is_Nil_conv)
  moreover have "list_all (\<lambda>(n, v). ValidateCustomHeader L n v = None) (decodeHeaders L (c_headers msg))"
    using decoded_headers [OF assms(2) _ hs(2)] n(3) hs(1) assms(6) by simp
  moreover have "\<not> ContainsControl (unsubscribe_url L w msg s)"
    using link_no_control [OF assms(10)] unfolding unsubscribe_url_def by (simp split: list.split)
  moreover have "\<not> ContainsControl (c_id msg @ ''@'' @ sk_domain key)"
    using assms(8,9) by (simp add: control_byte_def)
  moreover have "ValidateSubject (c_subject msg) = None" "\<not> ContainsControl (c_from msg)"
    using n(1,4,5) p assms(4,5) by (simp_all add: well_formed_def)
  moreover have "\<forall>t. \<not> ContainsControl (rfc1123z L t)" using assms(1) unfolding mail_laws_def by blast
  ultimately show ?thesis by (intro Build_succeeds) (simp_all add: envelope_of_def)
qed

text \<open>The rows a claim hands out passed the checks, whatever happened to them since.\<close>

lemma claimed_checked:
  assumes "(program_step L A)\<^sup>*\<^sup>* s0 s" "st_messages s0 = []"
    and "ClaimMessages L limit lockFor s = (Inr msgs, s')" "msg \<in> set msgs"
  obtains m keeper where "checked L m" "c_from msg = m_from m" "c_subject msg = m_subject m" "c_headers msg = m_headers m"
    "unpackRecipients L keeper (m_encrypted m) (m_recipients m) = Inr (c_recipients msg)"
proof -
  have "all_checked L s0" using assms(2) by (simp add: all_checked_def)
  moreover have "all_checked L (t\<lparr>st_now := n, st_fates := f, st_keeper := k\<rparr>) = all_checked L t" for t n f k
    by (simp add: all_checked_def)
  ultimately have "all_checked L s" using content.program_run_R [OF assms(1)] by simp
  then have "all_checked L (snd (ClaimMessages L limit lockFor s))" by (rule queue_calls_checked)
  moreover obtain rows keeper where "set rows \<subseteq> set (st_messages s')" "read_claimed L keeper rows = Inr msgs"
  proof (cases rule: ClaimMessages_cases [of L limit lockFor s])
    case (claimed r)
    then show ?thesis using assms(3)
      by (intro that [of "filter (\<lambda>m. m_id m \<in> set (claim_ids limit s)) (claimed_rows limit lockFor s)" "st_keeper s"]) auto
  qed (use assms(3) in simp)
  ultimately obtain m where "checked L m" "c_from msg = m_from m" "c_subject msg = m_subject m"
    "c_headers msg = m_headers m" "unpackRecipients L keeper (m_encrypted m) (m_recipients m) = Inr (c_recipients msg)"
    using read_claimed_InrD [of L keeper rows msgs] assms(3,4)
    by (fastforce simp: all_checked_def list_all_iff list_all2_conv_all_nth in_set_conv_nth)
  then show thesis by (rule that)
qed

text \<open>
  C6. What is accepted can be built: starting without messages, whatever the processes do, every
  message that a claim hands to the worker passes the checks of Build, so that no message is given
  up for a malformed subject, recipient or header: what the API let through is what the builder
  accepts. Only the message id, the name of the signing domain and the base URL, which no request
  controls, must be free of control characters.
\<close>

theorem accepted_messages_can_be_built:
  assumes "mail_laws L" "storage_laws L"
    and "(program_step L A)\<^sup>*\<^sup>* s0 s" "st_messages s0 = []"
    and "ClaimMessages L limit lockFor s = (Inr msgs, s')" "msg \<in> set msgs"
    and "\<not> ContainsControl (c_id msg)" "\<not> ContainsControl (sk_domain key)" "\<not> ContainsControl (wc_base_url cfg)"
  shows "\<exists>raw. Build L now boundary (envelope_of L (store_worker L cfg) msg key w) = Inr raw"
proof -
  obtain m keeper where m: "checked L m" "c_from msg = m_from m" "c_subject msg = m_subject m" "c_headers msg = m_headers m"
    "unpackRecipients L keeper (m_encrypted m) (m_recipients m) = Inr (c_recipients msg)"
    by (rule claimed_checked [OF assms(3-6)])
  have "\<not> ContainsControl (wk_base_url (store_worker L cfg))" using assms(9) by (simp add: store_worker_def)
  then show ?thesis by (rule checked_builds [OF assms(1,2) m assms(7,8)])
qed

lemma mail_laws_sample: "mail_laws sample_lib"
proof -
  have "\<not> ContainsControl ''Thu, 01 Jan 2026 00:00:00 +0000''" by code_simp
  then show ?thesis by (simp add: mail_laws_def sample_lib_def)
qed

lemma storage_laws_sample: "storage_laws sample_lib"
  unfolding storage_laws_def
  by (auto simp: sample_lib_def sample_enc_def sample_dec_enc sample_pairs_flat split: list.splits if_splits)
     force

definition sample_signing_key :: signing_key where
  "sample_signing_key = \<lparr>sk_id = 1, sk_domain_id = 1, sk_domain = ''x.org'', sk_selector = ''s'',
     sk_algorithm = ''ed25519'', sk_wrapped = ''w'', sk_record = ''r''\<rparr>"

definition sample_claimed where
  "sample_claimed = ClaimMessages sample_lib 10 Minute (ap_db (snd sample_send))"

lemma sample_claimed_ids: "map_sum id (map c_id) (fst sample_claimed) = Inr [''m1'']"
  by code_simp

lemma accepted_messages_can_be_built_witness:
  "\<exists>msg s'. sample_claimed = (Inr [msg], s') \<and> c_id msg = ''m1''
     \<and> (\<exists>raw. Build sample_lib 0 ''b'' (envelope_of sample_lib (store_worker sample_lib sample_config) msg
          sample_signing_key sample_world) = Inr raw)"
proof -
  obtain msg s' where c: "ClaimMessages sample_lib 10 Minute (ap_db (snd sample_send)) = (Inr [msg], s')" "c_id msg = ''m1''"
    using sample_claimed_ids unfolding sample_claimed_def
    by (cases "ClaimMessages sample_lib 10 Minute (ap_db (snd sample_send))"; cases "fst (ClaimMessages sample_lib 10 Minute (ap_db (snd sample_send)))") auto
  have h: "Handler sample_lib sample_api_lib sample_server (\<lambda>_. None) [] sample_request sample_inputs sample_api
      = (fst sample_send, snd sample_send)" by (simp add: sample_send_def)
  have b: "sv_backend sample_server = store_backend sample_lib"
    by (simp add: sample_server_def new_server_def)
  have "program_step sample_lib sample_api_lib (ap_db sample_api) (ap_db (snd sample_send))"
    by (rule program_step.request [OF b disjI1 [OF refl] h])
  then have r: "(program_step sample_lib sample_api_lib)\<^sup>*\<^sup>* (ap_db sample_api) (ap_db (snd sample_send))" by simp
  have e: "st_messages (ap_db sample_api) = []" by (simp add: sample_api_def sample_db_def empty_store_def)
  have "msg \<in> set [msg]" "\<not> ContainsControl (c_id msg)" "\<not> ContainsControl (sk_domain sample_signing_key)" "\<not> ContainsControl (wc_base_url sample_config)"
    by (simp_all add: c(2) control_byte_def sample_config_def sample_signing_key_def)
  from accepted_messages_can_be_built [OF mail_laws_sample storage_laws_sample r e c(1) this] c
  show ?thesis by (auto simp: sample_claimed_def)
qed

end
