(* ===== verification/Schema.thy ===== *)
theory Schema
  imports Program Cli_Properties
begin

text \<open>
  The constraints of migrations/ as a predicate on the store, and that they hold of every state the
  program reaches: the keys of every table are unique, the numbers of a serial column were drawn
  from its sequence, every reference names a row, every CHECK holds.
\<close>

section \<open>The constraints\<close>

definition serial :: "int \<Rightarrow> int list \<Rightarrow> bool" where
  "serial limit ids \<longleftrightarrow> distinct ids \<and> list_all (\<lambda>i. i < limit) ids"

definition refers :: "'a list \<Rightarrow> 'a option list \<Rightarrow> bool" where
  "refers ids xs \<longleftrightarrow> list_all (\<lambda>x. case x of None \<Rightarrow> True | Some i \<Rightarrow> i \<in> set ids) xs"

definition domains_typed :: "store \<Rightarrow> bool" where
  "domains_typed s \<longleftrightarrow> serial (st_seq s Domains) (map d_id (st_domains s)) \<and> distinct (map d_name (st_domains s))"

definition keys_typed :: "store \<Rightarrow> bool" where
  "keys_typed s \<longleftrightarrow> serial (st_seq s Api_keys) (map k_id (st_keys s)) \<and> distinct (map k_secret_hash (st_keys s))
     \<and> list_all (\<lambda>q. 0 \<le> q \<and> q < 2 ^ 31) (map k_quota (st_keys s))"

definition messages_typed :: "store \<Rightarrow> bool" where
  "messages_typed s \<longleftrightarrow> distinct (map m_id (st_messages s))
     \<and> refers (map k_id (st_keys s)) (map m_api_key_id (st_messages s))
     \<and> refers (map d_id (st_domains s)) (map (\<lambda>m. Some (m_domain_id m)) (st_messages s))"

definition events_typed :: "store \<Rightarrow> bool" where
  "events_typed s \<longleftrightarrow> serial (st_seq s Message_events) (map ev_id (st_events s))
     \<and> refers (map m_id (st_messages s)) (map (\<lambda>e. Some (ev_message_id e)) (st_events s))"

definition idem_typed :: "store \<Rightarrow> bool" where
  "idem_typed s \<longleftrightarrow> distinct (map (\<lambda>r. (i_api_key_id r, i_key r)) (st_idem s))
     \<and> refers (map k_id (st_keys s)) (map (\<lambda>r. Some (i_api_key_id r)) (st_idem s))
     \<and> refers (map m_id (st_messages s)) (map i_message_id (st_idem s))"

definition hooks_typed :: "store \<Rightarrow> bool" where
  "hooks_typed s \<longleftrightarrow> serial (st_seq s Webhook_endpoints) (map w_id (st_endpoints s))
     \<and> serial (st_seq s Webhook_deliveries) (map l_id (st_deliveries s))
     \<and> distinct (map (\<lambda>l. (l_endpoint_id l, l_event_id l)) (st_deliveries s))
     \<and> refers (map w_id (st_endpoints s)) (map (\<lambda>l. Some (l_endpoint_id l)) (st_deliveries s))
     \<and> refers (map m_id (st_messages s)) (map l_message_id (st_deliveries s))"

definition dkim_typed :: "store \<Rightarrow> bool" where
  "dkim_typed s \<longleftrightarrow> serial (st_seq s Dkim_keys) (map s_id (st_dkim s))
     \<and> distinct (map (\<lambda>k. (s_domain_id k, s_selector k)) (st_dkim s))
     \<and> refers (map d_id (st_domains s)) (map (\<lambda>k. Some (s_domain_id k)) (st_dkim s))
     \<and> list_all (\<lambda>a. a \<in> {''ed25519'', ''rsa''}) (map s_algorithm (st_dkim s))"

definition suppressions_typed :: "store \<Rightarrow> bool" where
  "suppressions_typed s \<longleftrightarrow> serial (st_seq s Suppressions) (map p_id (st_suppressions s))
     \<and> distinct (map p_hash (st_suppressions s))
     \<and> list_all (\<lambda>r. r \<in> set suppression_reasons) (map p_reason (st_suppressions s))
     \<and> refers (map m_id (st_messages s)) (map p_message_id (st_suppressions s))"

definition well_typed :: "store \<Rightarrow> bool" where
  "well_typed s \<longleftrightarrow> domains_typed s \<and> keys_typed s \<and> messages_typed s \<and> events_typed s \<and> idem_typed s
     \<and> hooks_typed s \<and> dkim_typed s \<and> suppressions_typed s"

lemmas typed_defs = well_typed_def domains_typed_def keys_typed_def messages_typed_def events_typed_def
  idem_typed_def hooks_typed_def dkim_typed_def suppressions_typed_def

section \<open>What keeps them\<close>

lemma serial_simps [simp]:
  "serial n []" "serial n (ids @ [i]) \<longleftrightarrow> serial n ids \<and> i \<notin> set ids \<and> i < n"
  by (auto simp: serial_def)

lemma serial_next: "serial n ids \<Longrightarrow> serial (n + 1) ids \<and> n \<notin> set ids"
  by (auto simp: serial_def list_all_iff)

lemma refers_simps [simp]:
  "refers ids []" "refers ids (xs @ ys) \<longleftrightarrow> refers ids xs \<and> refers ids ys"
  "refers ids [None]" "refers ids [Some i] \<longleftrightarrow> i \<in> set ids"
  by (simp_all add: refers_def)

lemma refers_more: "refers ids xs \<Longrightarrow> refers (ids @ js) xs"
  by (auto simp: refers_def list_all_iff split: option.splits)

lemmas typed_intros = refers_more serial_next

text \<open>A row that is changed outside its constrained columns.\<close>

lemma well_typed_fates [simp]: "well_typed (s\<lparr>st_fates := f\<rparr>) = well_typed s"
  by (simp add: typed_defs)

lemma well_typed_tail [simp]: "well_typed (tail_fates s) = well_typed s"
  by (simp add: tail_fates_def)

lemma typed_update:
  "(\<And>m. m_id (f m) = m_id m \<and> m_api_key_id (f m) = m_api_key_id m \<and> m_domain_id (f m) = m_domain_id m) \<Longrightarrow>
     well_typed ((tail_fates s)\<lparr>st_messages := update_where p f (st_messages s)\<rparr>) = well_typed s"
  "(\<And>k. k_id (g k) = k_id k \<and> k_secret_hash (g k) = k_secret_hash k \<and> k_quota (g k) = k_quota k) \<Longrightarrow>
     well_typed ((tail_fates s)\<lparr>st_keys := update_where p2 g (st_keys s)\<rparr>) = well_typed s"
  "(\<And>d. d_id (h d) = d_id d \<and> d_name (h d) = d_name d) \<Longrightarrow>
     well_typed ((tail_fates s)\<lparr>st_domains := update_where p3 h (st_domains s)\<rparr>) = well_typed s"
  "(\<And>l. l_id (k l) = l_id l \<and> l_endpoint_id (k l) = l_endpoint_id l \<and> l_event_id (k l) = l_event_id l
      \<and> l_message_id (k l) = l_message_id l) \<Longrightarrow>
     well_typed ((tail_fates s)\<lparr>st_deliveries := update_where p4 k (st_deliveries s)\<rparr>) = well_typed s"
  by (simp_all add: typed_defs map_update_where)

lemma typed_delete:
  assumes "well_typed s"
  shows "well_typed ((tail_fates s)\<lparr>st_suppressions := filter p (st_suppressions s)\<rparr>)"
proof -
  have "serial n (map f (filter p xs))" if "serial n (map f xs)" for n f and xs :: "suppression_row list"
    using that by (auto simp: serial_def list_all_iff distinct_map_filter)
  moreover have "refers ids (map f (filter p xs))" if "refers ids (map f xs)"
    for ids :: "bytes list" and f and xs :: "suppression_row list"
    using that by (simp add: refers_def list_all_iff)
  moreover have "list_all P (map f (filter p xs))" if "list_all P (map f xs)"
    for P and f :: "suppression_row \<Rightarrow> bytes" and xs
    using that by (simp add: list_all_iff)
  ultimately show ?thesis using assms by (simp add: typed_defs distinct_map_filter)
qed

lemma run_typed:
  assumes "well_typed s" "\<And>a s'. stmt (tail_fates s) = Inr (a, s') \<Longrightarrow> well_typed s'"
  shows "well_typed (snd (run_wrapped what texts stmt s))"
  by (rule run_wrapped_rel) (use assms in simp_all)

section \<open>The statements\<close>

lemma insert_key_typed: "well_typed s \<Longrightarrow> insert_key in' s = Inr (a, s') \<Longrightarrow> well_typed s'"
  by (auto simp: insert_key_def nextval_def Let_def typed_defs image_iff intro: refers_more dest: serial_next split: if_splits)

lemma insert_signing_key_typed:
  "well_typed s \<Longrightarrow> insert_signing_key d sel alg w r s = Inr (a, s') \<Longrightarrow> well_typed s'"
  by (auto simp: insert_signing_key_def nextval_def Let_def typed_defs list_ex_iff dest: serial_next split: if_splits) blast+

lemma insert_endpoint_typed: "well_typed s \<Longrightarrow> insert_endpoint u sec s = Inr (a, s') \<Longrightarrow> well_typed s'"
  by (auto simp: insert_endpoint_def nextval_def Let_def typed_defs intro: refers_more dest: serial_next)

lemma insert_event_typed: "well_typed s \<Longrightarrow> insert_event i ty p s = Inr (a, s') \<Longrightarrow> well_typed s'"
  by (auto simp: insert_event_def nextval_def Let_def typed_defs dest: serial_next split: if_splits)

lemma insert_suppression_typed: "well_typed s \<Longrightarrow> insert_suppression L ad r d m s = Inr (a, s') \<Longrightarrow> well_typed s'"
  by (auto simp: insert_suppression_def nextval_def Let_def typed_defs dest: serial_next split: if_splits)

lemma upsert_domain_typed: "well_typed s \<Longrightarrow> upsert_domain n t s = Inr (a, s') \<Longrightarrow> well_typed s'"
  by (auto simp: upsert_domain_def nextval_def Let_def typed_defs map_update_where find_None_iff intro: refers_more dest: serial_next
      split: option.splits)

text \<open>The fan-out of an event: drawn numbers that are not used leave the tables alone.\<close>

lemma well_typed_delivery:
  "well_typed s \<Longrightarrow> w \<in> set (st_endpoints s) \<Longrightarrow> i \<in> m_id ` set (st_messages s) \<Longrightarrow>
   \<not> list_ex (\<lambda>l. l_endpoint_id l = w_id w \<and> l_event_id l = e) (st_deliveries s) \<Longrightarrow>
   l_id row = st_seq s Webhook_deliveries \<Longrightarrow> l_endpoint_id row = w_id w \<Longrightarrow> l_event_id row = e \<Longrightarrow>
   l_message_id row = Some i \<Longrightarrow>
   well_typed (s\<lparr>st_seq := (st_seq s)(Webhook_deliveries := st_seq s Webhook_deliveries + 1),
                  st_deliveries := st_deliveries s @ [row]\<rparr>)"
  by (auto simp: typed_defs list_ex_iff dest: serial_next)

lemma well_typed_drawn:
  assumes "well_typed s" "\<And>t. st_seq s t \<le> f t"
  shows "well_typed (s\<lparr>st_seq := f\<rparr>)"
proof -
  have "serial (f t) ids" if "serial (st_seq s t) ids" for t ids
    using that assms(2) [of t] by (auto simp: serial_def list_all_iff)
  then show ?thesis using assms(1) by (simp add: typed_defs)
qed

lemma add_delivery_typed:
  assumes "well_typed s" "w \<in> set (st_endpoints s)" "i \<in> m_id ` set (st_messages s)"
  shows "well_typed (add_delivery e i p w s)"
proof (cases "list_ex (\<lambda>l. l_endpoint_id l = w_id w \<and> l_event_id l = e) (st_deliveries s)")
  case True
  then show ?thesis using assms(1) by (simp add: add_delivery_def nextval_def well_typed_drawn)
next
  case False
  with assms show ?thesis by (simp add: add_delivery_def nextval_def well_typed_delivery)
qed

lemma fan_out_typed:
  "well_typed s \<Longrightarrow> set ws \<subseteq> set (st_endpoints s) \<Longrightarrow> i \<in> m_id ` set (st_messages s) \<Longrightarrow>
   well_typed (fan_out e i p ws s)"
  by (induction ws arbitrary: s) (simp_all add: fan_out_Cons add_delivery_typed del: fan_out.simps(2))

lemma fan_out_drawn:
  "\<exists>f ls. fan_out e i p ws s = s\<lparr>st_seq := f, st_deliveries := ls\<rparr> \<and> (\<forall>t. st_seq s t \<le> f t)"
proof (induction ws arbitrary: s)
  case Nil
  show ?case by (rule exI [of _ "st_seq s"], rule exI [of _ "st_deliveries s"]) simp
next
  case (Cons w ws)
  have "\<exists>f ls. add_delivery e i p w s = s\<lparr>st_seq := f, st_deliveries := ls\<rparr> \<and> (\<forall>t. st_seq s t \<le> f t)"
    by (rule exI [of _ "st_seq (add_delivery e i p w s)"], rule exI [of _ "st_deliveries (add_delivery e i p w s)"])
       (simp add: add_delivery_def nextval_def Let_def)
  then obtain f ls where a: "add_delivery e i p w s = s\<lparr>st_seq := f, st_deliveries := ls\<rparr>" "\<And>t. st_seq s t \<le> f t"
    by blast
  obtain f' ls' where b: "fan_out e i p ws (s\<lparr>st_seq := f, st_deliveries := ls\<rparr>) = s\<lparr>st_seq := f', st_deliveries := ls'\<rparr>"
    "\<And>t. f t \<le> f' t"
    using Cons [of "s\<lparr>st_seq := f, st_deliveries := ls\<rparr>"] by auto
  have "st_seq s t \<le> f' t" for t using a(2) b(2) by (rule order_trans)
  then show ?case unfolding fan_out_Cons a(1) b(1) by blast
qed

lemma insert_deliveries_typed:
  assumes "well_typed s" "insert_deliveries L e i p s = Inr (a, s')"
  shows "well_typed s'"
proof -
  let ?ws = "filter w_active (st_endpoints s)"
  obtain q where s': "s' = fan_out e i q ?ws s" "st_deliveries s' = st_deliveries s \<or> i \<in> m_id ` set (st_messages s)"
    using assms(2) by (auto simp: insert_deliveries_def Let_def split: option.splits if_splits)
  show ?thesis
  proof (cases "i \<in> m_id ` set (st_messages s)")
    case True
    then show ?thesis unfolding s'(1) using assms(1) by (intro fan_out_typed) auto
  next
    case False
    with s'(2) have "st_deliveries s' = st_deliveries s" by simp
    moreover obtain f ls where "s' = s\<lparr>st_seq := f, st_deliveries := ls\<rparr>" "\<And>t. st_seq s t \<le> f t"
      using fan_out_drawn [of e i q ?ws s] unfolding s'(1) by blast
    ultimately show ?thesis using well_typed_drawn [OF assms(1), of f] by simp
  qed
qed

lemma EnqueueMessage_typed:
  assumes "well_typed s"
  shows "well_typed (snd (EnqueueMessage L rand in' s))"
proof (cases rule: EnqueueMessage_cases [of L rand in' s])
  case (accepted row f ret)
  then have "m_id row = n_id in'" "m_api_key_id row = Some (n_api_key_id in')" "m_domain_id row = n_domain_id in'"
    "n_id in' \<notin> m_id ` set (st_messages s)" "n_api_key_id in' \<in> k_id ` set (st_keys s)"
    "n_domain_id in' \<in> d_id ` set (st_domains s)"
    "n_idempotency_key in' \<noteq> [] \<Longrightarrow> \<not> list_ex (matches in') (st_idem s)"
    by (auto simp: acceptable_def new_row_def)
  then have "well_typed (accept in' row s)"
    using assms
    by (auto simp: typed_defs accept_def linked_row_def matches_def list_ex_iff intro: refers_more)
  then show ?thesis by (simp add: accepted(1))
qed (use assms in simp_all)

section \<open>Every call keeps them\<close>

lemma RecordEvent_typed: "well_typed s \<Longrightarrow> well_typed (snd (RecordEvent i event detail s))"
  unfolding RecordEvent_def by (rule run_typed) (auto elim: insert_event_typed [rotated])

lemma mark_typed:
  assumes "well_typed s" "\<And>now m. m_id (h now m) = m_id m \<and> m_api_key_id (h now m) = m_api_key_id m
      \<and> m_domain_id (h now m) = m_domain_id m"
  shows "well_typed (snd (mark what texts h i event detail s))"
proof -
  let ?upd = "\<lambda>s. s\<lparr>st_messages := update_where (\<lambda>m. m_id m = i) (h (st_now s)) (st_messages s)\<rparr>"
  obtain r t where t: "run_wrapped what texts (stmt_update ?upd) s = (r, t)" by fastforce
  have "well_typed (snd (run_wrapped what texts (stmt_update ?upd) s))"
    using assms(1) by (rule run_typed) (auto simp: stmt_update_def typed_update(1) assms)
  with t have "well_typed t" by simp
  then show ?thesis using t RecordEvent_typed by (cases r) (simp_all add: mark_def)
qed

lemma queue_calls_typed:
  assumes "well_typed s"
  shows "well_typed (snd (MarkSent i s))" "well_typed (snd (MarkFailed i reason s))"
    "well_typed (snd (MarkDeferred i t reason s))" "well_typed (snd (MarkSigned i s))"
    "well_typed (snd (ClaimMessages L n d s))"
proof -
  show "well_typed (snd (MarkSent i s))" "well_typed (snd (MarkFailed i reason s))"
    "well_typed (snd (MarkDeferred i t reason s))"
    unfolding mark_simps using assms by (rule mark_typed; simp add: status_row_def defer_row_def)+
  show "well_typed (snd (MarkSigned i s))"
    unfolding MarkSigned_def using assms by (rule run_typed) (auto simp: stmt_update_def typed_update assms)
  show "well_typed (snd (ClaimMessages L n d s))"
  proof (cases rule: ClaimMessages_cases [of L n d s])
    case (claimed r)
    then show ?thesis using assms by (simp add: claimed_rows_def typed_update claim_row_def)
  qed (use assms in simp)
qed

lemma side_calls_typed:
  assumes "well_typed s"
  shows "well_typed (snd (Suppress L ad r d m s))" "well_typed (snd (Unsuppress L ad s))"
    "well_typed (snd (CreateAPIKey new s))" "well_typed (snd (TouchAPIKey i ip s))" "well_typed (snd (RevokeAPIKey i s))"
    "well_typed (snd (CreateSigningKey i sel alg wrapped rec s))" "well_typed (snd (CreateEndpoint url secret s))"
    "well_typed (snd (EnqueueDelivery L e mid p s))"
proof -
  have t: "well_typed (tail_fates s)" using assms by simp
  show "well_typed (snd (Suppress L ad r d m s))" "well_typed (snd (CreateAPIKey new s))"
    "well_typed (snd (CreateSigningKey i sel alg wrapped rec s))" "well_typed (snd (CreateEndpoint url secret s))"
    "well_typed (snd (EnqueueDelivery L e mid p s))"
    unfolding Suppress_def CreateAPIKey_def CreateSigningKey_def CreateEndpoint_def EnqueueDelivery_def
    using assms
    by (rule run_typed, blast intro: insert_suppression_typed [OF t] insert_key_typed [OF t]
        insert_signing_key_typed [OF t] insert_endpoint_typed [OF t] insert_deliveries_typed [OF t])+
  show "well_typed (snd (TouchAPIKey i ip s))"
    unfolding TouchAPIKey_def using assms
    by (rule run_typed) (auto simp: touch_key_def typed_update assms split: addr.splits if_splits)
  have "well_typed (snd (run_wrapped ''revoking key'' [] (revoke_update i) s))"
    using assms by (rule run_typed) (auto simp: revoke_update_def Let_def typed_update assms)
  then show "well_typed (snd (RevokeAPIKey i s))"
    unfolding RevokeAPIKey_def by (auto split: prod.splits sum.splits)
  show "well_typed (snd (Unsuppress L ad s))"
    unfolding Unsuppress_def using assms
    by (rule run_typed)
       (use assms typed_delete in \<open>auto simp: stmt_update_def\<close>)
qed

lemma hook_calls_typed:
  assumes "well_typed s"
  shows "well_typed (snd (ClaimDeliveries limit lockFor s))" "well_typed (snd (MarkDeliverySucceeded i s))"
    "well_typed (snd (RescheduleDelivery i at' reason s))" "well_typed (snd (MarkDeliveryFailed i reason s))"
    "well_typed (snd (MarkDomainVerified i s))" "well_typed (snd (SuspendDomain i s))"
    "well_typed (snd (TouchDomainCheck i s))" "well_typed (snd (exec [name, token] (upsert_domain name token) s))"
proof -
  show "well_typed (snd (ClaimDeliveries limit lockFor s))" "well_typed (snd (MarkDeliverySucceeded i s))"
    "well_typed (snd (RescheduleDelivery i at' reason s))" "well_typed (snd (MarkDeliveryFailed i reason s))"
    "well_typed (snd (MarkDomainVerified i s))" "well_typed (snd (SuspendDomain i s))"
    "well_typed (snd (TouchDomainCheck i s))"
    unfolding ClaimDeliveries_def MarkDeliverySucceeded_def RescheduleDelivery_def MarkDeliveryFailed_def
      MarkDomainVerified_def SuspendDomain_def TouchDomainCheck_def
    using assms
    by (rule run_typed,
        auto simp: stmt_update_def claim_deliveries_update_def claim_delivery_row_def Let_def set_delivery_def
          set_domain_def typed_update assms)+
  show "well_typed (snd (exec [name, token] (upsert_domain name token) s))"
    by (rule exec_cases [of "[name, token]" "upsert_domain name token" s])
       (use assms upsert_domain_typed [of "tail_fates s"] in auto)
qed

interpretation typing: store_relation L "\<lambda>s s'. well_typed s \<longrightarrow> well_typed s'" for L
  by unfold_locales
     (auto simp: same_tables_def queue_calls_typed side_calls_typed hook_calls_typed EnqueueMessage_typed)

text \<open>
  C7. The database stays well typed: starting from empty tables, whatever the server, the console,
  the worker, the dispatcher, the domain checker and the commands do, in any order, and whatever the
  connection does to their statements, every constraint of the migrations holds: primary keys and
  unique columns are unique, serial numbers were drawn from their sequence, every reference names
  a row, quotas, algorithms and reasons are among the values allowed.
\<close>

theorem store_stays_well_typed:
  assumes "(program_step L A)\<^sup>*\<^sup>* empty_store s"
  shows "well_typed s"
proof -
  have "well_typed empty_store" by (simp add: empty_store_def typed_defs)
  moreover have "well_typed (s\<lparr>st_now := t, st_fates := f, st_keeper := keeper\<rparr>) = well_typed s" for s t f keeper
    by (simp add: typed_defs)
  ultimately show ?thesis using typing.program_run_R [OF assms] by simp
qed

lemma store_stays_well_typed_witness:
  "well_typed (snd sample_issued) \<and> length (st_keys (snd sample_issued)) = 1"
proof -
  have "program_step sample_lib A empty_store (snd sample_issued)" for A
    unfolding sample_issued_def by (rule program_step.create_key)
  then have "well_typed (snd sample_issued)" by (intro store_stays_well_typed r_into_rtranclp)
  moreover obtain k s where c: "CreateAPIKey sample_key_row empty_store = (Inr k, s)"
    using sample_created by (cases "CreateAPIKey sample_key_row empty_store") (auto simp only: fst_conv split: sum.splits)
  then have "snd sample_issued = s" by (simp only: sample_issued_eq snd_conv)
  moreover obtain row where "st_keys s = st_keys empty_store @ [row]" using CreateAPIKey_answered [OF c] by blast
  moreover have "st_keys empty_store = []" by (simp only: empty_store_def store.select_convs)
  ultimately show ?thesis by simp
qed

end
