(* ===== verification/Delivered.thy ===== *)
theory Delivered
  imports Accepted Schema
begin

text \<open>
  From acceptance to the engine: when nothing refuses, one tick of the worker sends its whole batch.
  The parts are those of the other theories: acceptance makes a message that can be built, the claim
  takes it, the signer finds the key of its domain, the engine takes it, and its row ends as sent.
\<close>

section \<open>What a message needs\<close>

text \<open>The key of a message depends on the owner of the message and on the domains and their keys.\<close>

definition same_keys :: "store \<Rightarrow> store \<Rightarrow> bool" where
  "same_keys s s' \<longleftrightarrow> map (\<lambda>m. (m_id m, m_domain_id m)) (st_messages s') = map (\<lambda>m. (m_id m, m_domain_id m)) (st_messages s)
     \<and> st_domains s' = st_domains s \<and> st_dkim s' = st_dkim s"

text \<open>
  A claimed message that the signer can handle: its id is a text without control characters and the
  newest active key of its domain signs what Build makes of it.
\<close>

definition ready :: "golib \<Rightarrow> worker_config \<Rightarrow> world \<Rightarrow> claimed \<Rightarrow> bool" where
  "ready L cfg w msg \<longleftrightarrow> text_ok (c_id msg) \<and> \<not> ContainsControl (c_id msg)
     \<and> (case key_of_message (c_id msg) (wd_store w) of
          None \<Rightarrow> False
        | Some key \<Rightarrow> \<not> ContainsControl (sk_domain key)
            \<and> (case Build L (wd_clock w) (wd_boundary w) (envelope_of L (store_worker L cfg) msg key w) of
                 Inl e \<Rightarrow> True
               | Inr raw \<Rightarrow> \<not> isl (dkim_Sign L (wc_dkim cfg) (wc_master_key cfg) (wd_clock w) (dkim_key_of key) raw)))"

definition accepts :: "http_outcome \<Rightarrow> bool" where
  "accepts x \<longleftrightarrow> (case x of Status code \<Rightarrow> 200 \<le> code \<and> code < 300 | Unreachable e \<Rightarrow> False)"

lemma find_pair: "map_option g (List.find (\<lambda>m. f m = i) xs) = map_option snd (List.find (\<lambda>p. fst p = i) (map (\<lambda>m. (f m, g m)) xs))"
  by (induction xs) auto

lemma same_keys_find:
  assumes "same_keys s s'"
  shows "map_option m_domain_id (List.find (\<lambda>m. m_id m = i) (st_messages s'))
    = map_option m_domain_id (List.find (\<lambda>m. m_id m = i) (st_messages s))"
  using assms unfolding find_pair [of m_domain_id m_id] same_keys_def by simp

lemma same_keys_key:
  assumes "same_keys s s'"
  shows "key_of_message i s' = key_of_message i s"
proof -
  have k: "key_of_message i t = Option.bind (map_option m_domain_id (List.find (\<lambda>m. m_id m = i) (st_messages t))) (\<lambda>d. key_of_domain d t)"
    for t by (simp add: key_of_message_def split: option.splits)
  have "key_of_domain d s' = key_of_domain d s" for d
    using assms by (simp add: same_keys_def key_of_domain_def newest_key_def split: option.split)
  then show ?thesis unfolding k same_keys_find [OF assms] by simp
qed

lemma same_keys_refl [simp]: "same_keys s s" "same_keys s (tail_fates s)"
  by (simp_all add: same_keys_def tail_fates_def)

lemma same_keys_trans: "same_keys s t \<Longrightarrow> same_keys t u \<Longrightarrow> same_keys s u"
  by (simp add: same_keys_def)

lemma same_keys_update:
  assumes "\<And>m. m_id (f m) = m_id m \<and> m_domain_id (f m) = m_domain_id m"
    and "st_messages s' = update_where p f (st_messages s)" "st_domains s' = st_domains s" "st_dkim s' = st_dkim s"
  shows "same_keys s s'"
  using assms by (simp add: same_keys_def update_where_def)

lemma fan_out_keys: "st_domains (fan_out e i p ws s) = st_domains s \<and> st_dkim (fan_out e i p ws s) = st_dkim s"
  by (induction e i p ws s rule: fan_out.induct) (simp_all add: nextval_def Let_def)

lemma RecordEvent_keys: "same_keys s (snd (RecordEvent i event detail s))"
  unfolding RecordEvent_def
  by (rule run_wrapped_rel) (auto simp: insert_event_def nextval_def Let_def same_keys_def split: if_splits)

lemma delivery_keys:
  "same_keys s (snd (SigningKeyForMessage i s))" "same_keys s (snd (MarkSigned i s))"
  "same_keys s (snd (MarkSent i s))" "same_keys s (snd (EnqueueDelivery L e i p s))"
  "same_keys s (snd (ClaimMessages L n d s))"
proof -
  show "same_keys s (snd (SigningKeyForMessage i s))" by (simp add: SigningKeyForMessage_snd)
  have "same_keys s t" if "stmt_update (\<lambda>s. s\<lparr>st_messages := update_where p (f s) (st_messages s)\<rparr>) (tail_fates s) = Inr (a, t)"
    "\<And>m. m_id (f (tail_fates s) m) = m_id m \<and> m_domain_id (f (tail_fates s) m) = m_domain_id m" for a t p f
    using that by (intro same_keys_update [where f = "f (tail_fates s)"]) (auto simp: stmt_update_def)
  note updated = this
  show "same_keys s (snd (MarkSigned i s))"
    unfolding MarkSigned_def by (rule run_wrapped_rel) (auto intro: updated)
  show "same_keys s (snd (EnqueueDelivery L e i p s))"
    unfolding EnqueueDelivery_def
    by (rule run_wrapped_rel)
       (auto simp: insert_deliveries_def Let_def fan_out_quiet fan_out_keys same_keys_def split: option.splits if_splits)
  show "same_keys s (snd (ClaimMessages L n d s))"
  proof (cases rule: ClaimMessages_cases [of L n d s])
    case (claimed r)
    then show ?thesis
      by (intro same_keys_update [where f = "claim_row (st_now s) d"]) (auto simp: claimed_rows_def claim_row_def)
  qed simp
  obtain r t where t: "run_wrapped ''updating message status'' [i, ''sent''] (stmt_update (\<lambda>s. s\<lparr>st_messages :=
      update_where (\<lambda>m. m_id m = i) (status_row Sent None (st_now s)) (st_messages s)\<rparr>)) s = (r, t)" by fastforce
  have "same_keys s (snd (run_wrapped ''updating message status'' [i, ''sent''] (stmt_update (\<lambda>s. s\<lparr>st_messages :=
      update_where (\<lambda>m. m_id m = i) (status_row Sent None (st_now s)) (st_messages s)\<rparr>)) s))"
    by (rule run_wrapped_rel) (auto intro: updated simp: status_row_def)
  with t show "same_keys s (snd (MarkSent i s))"
    using same_keys_trans [OF _ RecordEvent_keys] by (cases r) (simp_all add: MarkSent_mark mark_def)
qed

section \<open>One delivery\<close>

text \<open>Only the first of the two statements of MarkSent decides about the row.\<close>

lemma MarkSent_rows:
  assumes "st_fates s = []" "text_ok i"
  shows "row_of (snd (MarkSent i s)) = moved Sent i (row_of s)"
proof -
  have ev: "st_messages (snd (RecordEvent i event detail u)) = st_messages u" for u event detail
    unfolding RecordEvent_def
    by (rule run_same_messages) (auto simp: insert_event_def nextval_def Let_def split: if_splits)
  have "text_ok ''sent''" by code_simp
  then have "list_all text_ok [i, ''sent'']" using assms(2) by simp
  then have "st_messages (snd (MarkSent i s)) = update_where (\<lambda>m. m_id m = i) (status_row Sent None (st_now s)) (st_messages s)"
    using assms(1) by (simp add: MarkSent_mark mark_def run_wrapped_answering stmt_update_def ev)
  then show ?thesis by (rule row_of_moved) (simp_all add: status_row_def)
qed

lemma sign_ready:
  assumes "st_fates (wd_store w) = []" "ready L cfg w msg"
    and "\<And>key. \<not> ContainsControl (sk_domain key) \<Longrightarrow>
      \<exists>raw. Build L (wd_clock w) (wd_boundary w) (envelope_of L (store_worker L cfg) msg key w) = Inr raw"
  shows "\<exists>raw. sign L (store_worker L cfg) msg w = (Inr raw, snd (on_store (MarkSigned (c_id msg)) w))"
proof -
  obtain key raw signed' where k: "key_of_message (c_id msg) (wd_store w) = Some key"
    "Build L (wd_clock w) (wd_boundary w) (envelope_of L (store_worker L cfg) msg key w) = Inr raw"
    "dkim_Sign L (wc_dkim cfg) (wc_master_key cfg) (wd_clock w) (dkim_key_of key) raw = Inr signed'"
  proof -
    obtain key where k: "key_of_message (c_id msg) (wd_store w) = Some key" "\<not> ContainsControl (sk_domain key)"
      using assms(2) by (auto simp: ready_def split: option.splits)
    with assms(3) obtain raw where
      "Build L (wd_clock w) (wd_boundary w) (envelope_of L (store_worker L cfg) msg key w) = Inr raw" by blast
    with k assms(2) show thesis
      by (cases "dkim_Sign L (wc_dkim cfg) (wc_master_key cfg) (wd_clock w) (dkim_key_of key) raw")
         (auto simp: ready_def intro: that)
  qed
  have t: "tail_fates (wd_store w) = wd_store w" using assms(1) by (simp add: tail_fates_def)
  have "SigningKeyForMessage (c_id msg) (wd_store w) = (Inr key, wd_store w)"
    using assms(1,2) k(1) by (simp add: SigningKeyForMessage_def run_wrapped_answering stmt_query_def ready_def)
  then have "on_store (SigningKeyForMessage (c_id msg)) w = (Inr key, w)" by (simp add: on_store_def)
  then show ?thesis using k(2,3) by (simp add: sign_def store_worker_def dkim_key_of_def)
qed

text \<open>What became of the world when the engine took the messages one after the other.\<close>

definition handed :: "golib \<Rightarrow> claimed list \<Rightarrow> world \<Rightarrow> world \<Rightarrow> bool" where
  "handed L msgs w w' \<longleftrightarrow> wd_clock w' = wd_clock w \<and> wd_boundary w' = wd_boundary w
     \<and> st_fates (wd_store w') = [] \<and> same_keys (wd_store w) (wd_store w')
     \<and> row_of (wd_store w') = fold (\<lambda>m. moved Sent (c_id m)) msgs (row_of (wd_store w))
     \<and> net_script (wd_net w') = drop (length msgs) (net_script (wd_net w))
     \<and> (\<exists>raws. length raws = length msgs
          \<and> net_posts (wd_net w') = net_posts (wd_net w) @ map2 (post_of L) msgs raws)"

lemma fold_moved:
  "fold (\<lambda>m. moved Sent (c_id m)) ms f i = (if i \<in> c_id ` set ms then map_option (\<lambda>(_, n). (Sent, n)) (f i) else f i)"
  by (induction ms arbitrary: f) (auto simp: moved_def option.map_comp comp_def case_prod_unfold)

lemma handedD:
  assumes "handed L msgs w w'"
  shows "row_of (wd_store w') i
      = (if i \<in> c_id ` set msgs then map_option (\<lambda>(_, n). (Sent, n)) (row_of (wd_store w) i) else row_of (wd_store w) i)"
    "\<exists>raws. length raws = length msgs \<and> net_posts (wd_net w') = net_posts (wd_net w) @ map2 (post_of L) msgs raws"
  using assms unfolding handed_def by (simp only: fold_moved, blast)

lemma publish_store:
  "\<exists>p. publish L (store_worker L cfg) i ty reason n w = snd (on_store (EnqueueDelivery L (event_id i ty n) i p) w)"
  by (simp add: publish_def store_worker_def Let_def) blast

lemma on_store_sel [simp]:
  "wd_clock (snd (on_store f w)) = wd_clock w" "wd_boundary (snd (on_store f w)) = wd_boundary w"
  by (simp_all add: on_store_def split: prod.split)

lemma publish_sent:
  assumes "st_fates (wd_store w) = []"
  shows "let w' = publish L (store_worker L cfg) i ty reason n w in
    wd_clock w' = wd_clock w \<and> wd_boundary w' = wd_boundary w \<and> wd_net w' = wd_net w
    \<and> st_fates (wd_store w') = [] \<and> same_keys (wd_store w) (wd_store w') \<and> row_of (wd_store w') = row_of (wd_store w)"
proof -
  obtain p where p: "publish L (store_worker L cfg) i ty reason n w = snd (on_store (EnqueueDelivery L (event_id i ty n) i p) w)"
    using publish_store by blast
  have "store_quiet (wd_store w) (snd (EnqueueDelivery L (event_id i ty n) i p (wd_store w)))"
    by (rule EnqueueDelivery_store_quiet)
  moreover have "settles {} (wd_store w) (snd (EnqueueDelivery L (event_id i ty n) i p (wd_store w)))"
    by (rule others_settle)
  ultimately show ?thesis
    using assms delivery_keys(4) by (simp add: p store_quiet_def settles_def)
qed

lemma deliver_ready:
  assumes "st_fates (wd_store w) = []" "ready L cfg w msg"
    and "\<And>key. \<not> ContainsControl (sk_domain key) \<Longrightarrow>
      \<exists>raw. Build L (wd_clock w) (wd_boundary w) (envelope_of L (store_worker L cfg) msg key w) = Inr raw"
    and "url_parse L (wc_engine_url cfg @ ''/api/inject/v1'') \<noteq> None"
    and "net_script (wd_net w) = x # rest" "accepts x"
  shows "handed L [msg] w (deliver L (store_worker L cfg) msg w)"
proof -
  let ?W = "store_worker L cfg"
  define v where "v = snd (on_store (MarkSigned (c_id msg)) w)"
  obtain raw where s: "sign L ?W msg w = (Inr raw, v)" using sign_ready [OF assms(1-3)] unfolding v_def by blast
  have v: "wd_clock v = wd_clock w" "wd_boundary v = wd_boundary w" "wd_net v = wd_net w"
    "st_fates (wd_store v) = []" "same_keys (wd_store w) (wd_store v)" "row_of (wd_store v) = row_of (wd_store w)"
    using others_settle(1) [of "c_id msg" "wd_store w"] MarkSigned_store_quiet [of "wd_store w" "c_id msg"] delivery_keys(2) assms(1)
    by (simp_all add: v_def settles_def store_quiet_def)
  obtain code where code: "x = Status code" "200 \<le> code" "code < 300"
    using assms(6) by (cases x) (auto simp: accepts_def)
  define net where "net = (wd_net w)\<lparr>net_script := rest, net_posts := net_posts (wd_net w) @ [post_of L msg raw]\<rparr>"
  have e: "engine_Send L (wc_engine_url cfg) (post_of L msg raw) (wd_net v) = (\<lparr>re_result = EngineSent, re_reason = []\<rparr>, net)"
    using assms(4,5) code by (auto simp: engine_Send_def http_do_def v net_def engine_response_def)
  define u where "u = v\<lparr>wd_net := net\<rparr>"
  obtain r t where t: "on_store (MarkSent (c_id msg)) u = (r, t)" by fastforce
  then have t': "t = snd (on_store (MarkSent (c_id msg)) u)" by simp
  have "text_ok (c_id msg)" using assms(2) by (simp add: ready_def)
  then have m: "row_of (wd_store t) = moved Sent (c_id msg) (row_of (wd_store w))" "wd_net t = net"
    "wd_clock t = wd_clock w" "wd_boundary t = wd_boundary w" "st_fates (wd_store t) = []"
    "same_keys (wd_store w) (wd_store t)"
    using MarkSent_rows [of "wd_store v" "c_id msg"] marks_settle(1) [of "c_id msg" "wd_store v"] v
      same_keys_trans [OF v(5) delivery_keys(3)]
    by (simp_all add: t' u_def settles_def)
  have d: "deliver L ?W msg w = (case r of Inl e \<Rightarrow> t | Inr _ \<Rightarrow> publish L ?W (c_id msg) ''email.sent'' [] (c_attempts msg) t)"
    using s e t by (simp add: deliver_def on_net_def u_def)
  have h: "handed L [msg] w t"
    using m assms(5) by (auto simp: handed_def net_def intro!: exI [of _ "[raw]"])
  then show ?thesis
    using publish_sent [OF m(5), of L cfg "c_id msg" "''email.sent''" "[]" "c_attempts msg"]
    by (cases r) (auto simp: d handed_def Let_def intro: same_keys_trans)
qed

section \<open>The batch\<close>

lemma ready_same:
  assumes "same_keys (wd_store w) (wd_store v)" "wd_clock v = wd_clock w" "wd_boundary v = wd_boundary w"
  shows "ready L cfg v msg = ready L cfg w msg"
  unfolding ready_def same_keys_key [OF assms(1)] assms(2,3) envelope_of_clock [OF assms(2)] by (rule refl)

lemma handed_Cons: "handed L [m] u v \<Longrightarrow> handed L ms v w \<Longrightarrow> handed L (m # ms) u w"
proof -
  assume a: "handed L [m] u v" and b: "handed L ms v w"
  obtain raw where "net_posts (wd_net v) = net_posts (wd_net u) @ [post_of L m raw]"
    using a by (auto simp: handed_def length_Suc_conv)
  moreover obtain raws where "length raws = length ms" "net_posts (wd_net w) = net_posts (wd_net v) @ map2 (post_of L) ms raws"
    using b by (auto simp: handed_def)
  ultimately have "\<exists>raws. length raws = length (m # ms) \<and> net_posts (wd_net w) = net_posts (wd_net u) @ map2 (post_of L) (m # ms) raws"
    by (intro exI [of _ "raw # raws"]) simp
  then show ?thesis using a b same_keys_trans unfolding handed_def by (auto simp: drop_Suc)
qed

lemma deliveries_ready:
  assumes "st_fates (wd_store w) = []" "list_all (ready L cfg w) msgs"
    and "\<And>msg key now b v. msg \<in> set msgs \<Longrightarrow> \<not> ContainsControl (sk_domain key) \<Longrightarrow>
      \<exists>raw. Build L now b (envelope_of L (store_worker L cfg) msg key v) = Inr raw"
    and "url_parse L (wc_engine_url cfg @ ''/api/inject/v1'') \<noteq> None"
    and "length msgs \<le> length (net_script (wd_net w))" "list_all accepts (net_script (wd_net w))"
  shows "handed L msgs w (fold (deliver L (store_worker L cfg)) msgs w)"
  using assms(1,2,3,5,6)
proof (induction msgs arbitrary: w)
  case Nil
  then show ?case by (simp add: handed_def)
next
  case (Cons msg msgs)
  let ?v = "deliver L (store_worker L cfg) msg w"
  obtain x rest where x: "net_script (wd_net w) = x # rest" using Cons.prems(4) by (cases "net_script (wd_net w)") auto
  have h: "handed L [msg] w ?v"
    by (rule deliver_ready [OF Cons.prems(1) _ _ assms(4) x]) (use Cons.prems x in auto)
  have "handed L msgs ?v (fold (deliver L (store_worker L cfg)) msgs ?v)"
  proof (rule Cons.IH)
    have "ready L cfg ?v = ready L cfg w" using h ready_same by (auto simp: handed_def fun_eq_iff)
    then show "list_all (ready L cfg ?v) msgs" using Cons.prems(2) by simp
  qed (use h x Cons.prems in \<open>auto simp: handed_def\<close>)
  with h show ?case by (simp add: handed_Cons)
qed

text \<open>A claim that answered: which messages it handed out, and their rows.\<close>

lemma claimed_exactly:
  assumes "distinct (map m_id (st_messages s))" "st_fates s = []" "ClaimMessages L limit lockFor s = (Inr msgs, s')"
  shows "s' = s\<lparr>st_messages := claimed_rows limit lockFor s\<rparr> \<and> distinct (map c_id msgs)
     \<and> c_id ` set msgs = set (claim_ids limit s) \<and> row_of s' = taken (claim_ids limit s) (row_of s)
     \<and> (\<forall>msg \<in> set msgs. row_of s' (c_id msg) = Some (Sending, c_attempts msg))"
proof -
  let ?rows = "filter (\<lambda>m. m_id m \<in> set (claim_ids limit s)) (claimed_rows limit lockFor s)"
  have t: "tail_fates s = s" using assms(2) by (simp add: tail_fates_def)
  have c: "read_claimed L (st_keeper s) ?rows = Inr msgs" "s' = s\<lparr>st_messages := claimed_rows limit lockFor s\<rparr>"
    using claim_update_eq [of limit lockFor s] assms(2,3)
    by (simp_all add: ClaimMessages_def run_wrapped_answering t)
  note r = read_claimed_InrD [OF c(1)]
  have d: "distinct (map m_id (claimed_rows limit lockFor s))" using assms(1) by simp
  have "set (claim_ids limit s) \<subseteq> set (map m_id (claimed_rows limit lockFor s))"
    by (auto simp: claim_ids_batch dest: claim_batch_due)
  then have "set (claim_ids limit s) \<subseteq> m_id ` set (claimed_rows limit lockFor s)" by (simp only: set_map)
  then have "m_id ` set ?rows = set (claim_ids limit s)" by auto
  then have ids: "c_id ` set msgs = set (claim_ids limit s)" using r by (metis list.set_map)
  have "row_of s' (c_id msg) = Some (Sending, c_attempts msg)" if msg: "msg \<in> set msgs" for msg
  proof -
    obtain k where k: "k < length msgs" "msg = msgs ! k" using msg by (auto simp: in_set_conv_nth)
    define m where "m = ?rows ! k"
    have l: "length msgs = length ?rows" using r by (metis length_map)
    then have "map c_id msgs ! k = map m_id ?rows ! k" "map c_attempts msgs ! k = map m_attempts ?rows ! k"
      using r by simp_all
    then have m: "m \<in> set ?rows" "c_id msg = m_id m" "c_attempts msg = m_attempts m"
      using k l by (simp_all only: m_def nth_mem nth_map)
    then have "m_status m = Sending" by (auto simp: claimed_rows_def update_where_def claim_row_def split: if_splits)
    moreover have "List.find (\<lambda>x. m_id x = m_id m) (claimed_rows limit lockFor s) = Some m"
      using find_unique [OF d] m(1) by simp
    ultimately show ?thesis using m by (simp add: row_of_def c(2))
  qed
  moreover have "distinct (map c_id msgs)" using r d by (simp add: distinct_map_filter)
  moreover have "row_of s' = taken (claim_ids limit s) (row_of s)" by (rule row_of_taken) (simp add: c(2))
  ultimately show ?thesis using ids c(2) by blast
qed

text \<open>
  C2. Accepted mail is sent: from any state the program reaches, when the database answers, the
  ceiling is not reached, the signer can handle the claimed messages and the engine accepts what it
  is given, one tick claims the oldest due messages and sends every one of them: each is posted
  exactly once, its row ends as sent with the attempt counted, and no other message is touched.
  No message is lost, given up or deferred for a reason of the program's own.
\<close>

theorem accepted_messages_are_sent:
  assumes "mail_laws L" "storage_laws L" "well_typed s0" "st_messages s0 = []"
    and "(program_step L A)\<^sup>*\<^sup>* s0 (wd_store w)" "st_fates (wd_store w) = []"
    and "0 < wc_max_per_hour cfg \<longrightarrow> int (sent_events (wd_store w)) < wc_max_per_hour cfg"
    and "ClaimMessages L batchSize lockDuration (wd_store w) = (Inr msgs, s)" "list_all (ready L cfg w) msgs"
    and "\<not> ContainsControl (wc_base_url cfg)" "url_parse L (wc_engine_url cfg @ ''/api/inject/v1'') \<noteq> None"
    and "length msgs \<le> length (net_script (wd_net w))" "list_all accepts (net_script (wd_net w))"
  shows "\<exists>w' raws. tick L (store_worker L cfg) w = (Inr (length msgs), w')
     \<and> distinct (map c_id msgs) \<and> c_id ` set msgs = set (claim_ids batchSize (wd_store w))
     \<and> length raws = length msgs \<and> net_posts (wd_net w') = net_posts (wd_net w) @ map2 (post_of L) msgs raws
     \<and> (\<forall>msg \<in> set msgs. row_of (wd_store w') (c_id msg) = Some (Sent, c_attempts msg))
     \<and> (\<forall>i. i \<notin> c_id ` set msgs \<longrightarrow> row_of (wd_store w') i = row_of (wd_store w) i)"
proof -
  let ?s = "wd_store w" and ?W = "store_worker L cfg"
  have "well_typed (t\<lparr>st_now := n, st_fates := f, st_keeper := k\<rparr>) = well_typed t" for t n f k
    by (simp add: typed_defs)
  then have "well_typed ?s" using typing.program_run_R [OF assms(5)] assms(3) by simp
  then have "distinct (map m_id (st_messages ?s))" by (simp add: typed_defs)
  note c = claimed_exactly [OF this assms(6,8)]
  define v where "v = w\<lparr>wd_store := s\<rparr>"
  have "SentInLastHour ?s = (Inr (sent_events ?s), ?s)"
    using assms(6) by (simp add: SentInLastHour_def run_wrapped_answering stmt_query_def)
  then have "tick_claim ?W w = (Inr msgs, v)"
    using assms(7,8) by (auto simp: tick_claim_def on_store_def v_def)
  then have t: "tick L ?W w = (Inr (length msgs), fold (deliver L ?W) msgs v)" by (simp add: tick_def)
  have k: "same_keys ?s (wd_store v)" using delivery_keys(5) [of ?s L batchSize lockDuration] assms(8) by (simp add: v_def)
  then have ready: "list_all (ready L cfg v) msgs"
    using assms(9) ready_same [of w v] by (simp add: v_def list_all_iff)
  have h: "handed L msgs v (fold (deliver L ?W) msgs v)"
  proof (rule deliveries_ready [OF _ ready _ assms(11)])
    show "st_fates (wd_store v) = []" using c assms(6) by (simp add: v_def)
    fix msg now b x and key :: signing_key assume m: "msg \<in> set msgs" "\<not> ContainsControl (sk_domain key)"
    obtain row keeper where r: "checked L row" "c_from msg = m_from row" "c_subject msg = m_subject row"
      "c_headers msg = m_headers row" "unpackRecipients L keeper (m_encrypted row) (m_recipients row) = Inr (c_recipients msg)"
      by (rule claimed_checked [OF assms(5,4,8) m(1)])
    have "\<not> ContainsControl (c_id msg)" using assms(9) m(1) by (auto simp: list_all_iff ready_def)
    moreover have "\<not> ContainsControl (wk_base_url ?W)" using assms(10) by (simp add: store_worker_def)
    ultimately show "\<exists>raw. Build L now b (envelope_of L ?W msg key x) = Inr raw"
      by (rule checked_builds [OF assms(1,2) r _ m(2)])
  qed (simp_all add: v_def assms(12,13))
  have v: "wd_store v = s" "wd_net v = wd_net w" by (simp_all add: v_def)
  note rows = handedD(1) [OF h, unfolded v]
  have a: "\<forall>msg \<in> set msgs. row_of s (c_id msg) = Some (Sending, c_attempts msg)"
    and o: "row_of s = taken (claim_ids batchSize ?s) (row_of ?s)" and b: "c_id ` set msgs = set (claim_ids batchSize ?s)"
    using c by blast+
  have "\<forall>msg \<in> set msgs. row_of (wd_store (fold (deliver L ?W) msgs v)) (c_id msg) = Some (Sent, c_attempts msg)"
    unfolding rows using a by simp
  moreover have "\<forall>i. i \<notin> c_id ` set msgs \<longrightarrow> row_of (wd_store (fold (deliver L ?W) msgs v)) i = row_of ?s i"
    unfolding rows using b o by (simp add: taken_def)
  ultimately show ?thesis using t c handedD(2) [OF h, unfolded v] by blast
qed

text \<open>A message accepted by the API for a domain with a signing key, and a worker beside it.\<close>

definition sample_keyed :: "store api_state" where
  "sample_keyed = sample_api\<lparr>ap_db := sample_db\<lparr>st_seq := (\<lambda>_. 100),
     st_dkim := [\<lparr>s_id = 1, s_domain_id = 7, s_selector = ''s1'', s_algorithm = ''rsa'',
       s_wrapped = ''abcdefghijklTkey'', s_record = [], s_active = True, s_created_at = 0\<rparr>]\<rparr>\<rparr>"

definition sample_mailbox :: world where
  "sample_mailbox =
     \<lparr>wd_store = ap_db (snd (Handler sample_lib sample_api_lib sample_server (\<lambda>_. None) [] sample_request sample_inputs sample_keyed)),
      wd_net = \<lparr>net_script = [Status 200], net_posts = []\<rparr>, wd_clock = 0, wd_boundary = ''b''\<rparr>"

definition sample_batch where
  "sample_batch = ClaimMessages sample_lib batchSize lockDuration (wd_store sample_mailbox)"

lemma sample_keyed_typed: "well_typed (ap_db sample_keyed) \<and> st_messages (ap_db sample_keyed) = []"
  by code_simp

lemma sample_mailbox_calm: "st_fates (wd_store sample_mailbox) = [] \<and> sent_events (wd_store sample_mailbox) = 0"
  by code_simp

lemma sample_batch_ready:
  "case fst sample_batch of Inl e \<Rightarrow> False
   | Inr msgs \<Rightarrow> list_all (ready sample_lib sample_config sample_mailbox) msgs \<and> map (\<lambda>m. (c_id m, c_attempts m)) msgs = [(''m1'', 1)]"
  by code_simp

lemma accepted_messages_are_sent_witness:
  "\<exists>w'. tick sample_lib (store_worker sample_lib sample_config) sample_mailbox = (Inr 1, w')
     \<and> map dm_id (net_posts (wd_net w')) = [''m1''] \<and> row_of (wd_store w') ''m1'' = Some (Sent, 1)"
proof -
  obtain msg s where c: "ClaimMessages sample_lib batchSize lockDuration (wd_store sample_mailbox) = (Inr [msg], s)"
    and r: "list_all (ready sample_lib sample_config sample_mailbox) [msg]" "c_id msg = ''m1''" "c_attempts msg = 1"
    using sample_batch_ready unfolding sample_batch_def
    by (cases "ClaimMessages sample_lib batchSize lockDuration (wd_store sample_mailbox)") (auto split: sum.splits)
  have b: "sv_backend sample_server = store_backend sample_lib"
    by (simp add: sample_server_def new_server_def)
  have "program_step sample_lib sample_api_lib (ap_db sample_keyed) (wd_store sample_mailbox)"
    using program_step.request [OF b disjI1 [OF refl] prod.collapse [symmetric]] by (simp add: sample_mailbox_def)
  then have p: "(program_step sample_lib sample_api_lib)\<^sup>*\<^sup>* (ap_db sample_keyed) (wd_store sample_mailbox)" by simp
  have e: "url_parse sample_lib (wc_engine_url sample_config @ ''/api/inject/v1'') \<noteq> None" by code_simp
  have m: "0 < wc_max_per_hour sample_config \<longrightarrow> int (sent_events (wd_store sample_mailbox)) < wc_max_per_hour sample_config"
    by (simp add: sample_mailbox_calm sample_config_def)
  have n: "\<not> ContainsControl (wc_base_url sample_config)" "length [msg] \<le> length (net_script (wd_net sample_mailbox))"
    "list_all accepts (net_script (wd_net sample_mailbox))"
    by (simp_all add: sample_config_def sample_mailbox_def accepts_def)
  from accepted_messages_are_sent [OF mail_laws_sample storage_laws_sample conjunct1 [OF sample_keyed_typed]
      conjunct2 [OF sample_keyed_typed] p conjunct1 [OF sample_mailbox_calm] m c r(1) n(1) e n(2,3)]
  obtain w' raws where w: "tick sample_lib (store_worker sample_lib sample_config) sample_mailbox = (Inr 1, w')"
    "length raws = 1" "net_posts (wd_net w') = net_posts (wd_net sample_mailbox) @ map2 (post_of sample_lib) [msg] raws"
    "row_of (wd_store w') ''m1'' = Some (Sent, 1)"
    using r by auto
  then show ?thesis using r(2) by (cases raws) (auto simp: sample_mailbox_def post_of_def)
qed

end
