(* ===== verification/Spec2Isabelle.thy ===== *)
theory Spec2Isabelle
  imports Mail_Build Bounce Template_Render Store_Admin Process Delivered
begin

text \<open>
  A verification of AI-Email, a self-hosted service that accepts mail over HTTP, queues it in
  PostgreSQL and hands it to a delivery engine. Paths are relative to src/.

  \<^bold>\<open>The program.\<close> One binary, cmd/aiemail, runs as a server (internal/httpapi and internal/console),
  as a worker (internal/worker) or as an administrative command; all of them share one database
  (internal/store). The server authenticates a request by an API key, validates and renders the
  message, drops suppressed recipients and inserts it; recipients follow unsubscribe links to the
  same server. The worker runs three loops: the first claims due messages, builds and signs them
  and posts them to the engine, the second posts webhook events to the endpoints through a
  guarded client, the third proves the ownership of domains again by DNS.

  \<^bold>\<open>The library.\<close> Prelude, Go_Strings, Encoding and Go_Library hold what the source takes from Go:
  strings as bytes with UTF-8 decoding, base64 and base32 with their round trips (locale codec),
  and the record golib of the library functions whose results are taken as given (hashes, AES-GCM,
  the parsers of addresses, URLs and JSON). Mime models the encoders of Go's mime packages and
  Flags its package flag and strconv.ParseInt. Nothing is assumed of them but what a theorem states
  as a hypothesis; sample_lib is the instance on which the examples are evaluated.

  \<^bold>\<open>Theories and sources.\<close>
  \<^item> Mail_Address, Mail_Build, Mime: internal/mail (address.go, build.go, qp.go).
  \<^item> Bounce: internal/bounce. Template_Render: internal/template. Envelope: internal/crypto.
  \<^item> Keys: internal/keys. Config: internal/config. Unsubscribe: internal/unsubscribe.
  \<^item> Store_Base: the tables of migrations/ as lists of rows in the record store, and how a
    statement runs: each has a fate, taken from \<open>st_fates\<close>, which may refuse it or lose its answer
    after it took effect; every theorem holds for all fates. Store_Messages, Store_Queue,
    Store_Suppressions and Store_Admin: the operations of internal/store on them, one definition
    per SQL statement, transactions with commit and rollback. Store_Open: store.go. Schema: the
    constraints of migrations/ as the predicate well_typed.
  \<^item> Dkim: internal/dkim. Delivery: internal/delivery. Worker, Worker_Flight, Worker_System,
    Worker_Properties: internal/worker/worker.go and its wiring in cmd/aiemail/main.go.
    Worker_Run: the three loops around the ticks.
  \<^item> Netguard: internal/netguard. Webhook: internal/webhook. Dispatcher, Dispatcher_System and
    Domain_Check: internal/worker/webhooks.go and internal/dnsverify.
  \<^item> Http_Api, Http_Server: internal/httpapi; a handler maps the response headers so far, the
    request, its readings of clock and random source and the state to the response and the state.
    Http_Properties and Http_System: what requests do to the store, and sequences of requests.
  \<^item> Console_Auth, Console, Console_Properties: internal/console.
  \<^item> Cli, Cli_Properties, Process: cmd/aiemail; the commands with their flags, and the server and the
    worker from their startup to their shutdown.
  \<^item> Program: all processes over one store, as the relation program_step. Accepted and
    Delivered: from acceptance to the engine. This theory: the processes beside each other as runs
    of the delivery system.

  \<^bold>\<open>Interfaces.\<close> Where the source has a Go interface, the client is a function of a record of
  operations, its lemmas are proved in a locale over the laws the provider promises, and the locale
  is interpreted on the store: message_queue and worker_world (Queue and the worker),
  delivery_queue (WebhookQueue), domain_registry (DomainStore), suppression_list, api_backend
  (KeyStore, MessageStore) and console_reads (the Store of the console). The locales side_relation,
  request_relation and store_relation, each an extension of the one before, turn a fact about every
  call of package store into a fact about whole processes; they are interpreted on the constraints
  of the schema (Schema), on the checked content of messages (Accepted) and on the frame of the
  queue (below).

  \<^bold>\<open>What is shown.\<close>
  \<^item> Delivery. \<open>sys_step\<close> interleaves any number of workers, acceptances, crashes and other writers.
    In every run a message is posted a bounded number of times, only with a DKIM signature, and not
    after it was finished; the hourly ceiling can be passed by at most one batch; the queue refines
    the abstract machine \<open>qstep\<close>. Webhook deliveries have the same kind of bound (\<open>hook_step\<close>). The
    loop of the worker is such a run; undisturbed it empties its backlog at full speed, and the loops
    return when they are cancelled.
  \<^item> Acceptance. EnqueueMessage is all or nothing and idempotent under its key; the claim takes the
    oldest due messages; recipients and events read back as written. What the API accepted passes
    the checks of the builder when it is claimed, and is sent by the tick that claims it when the
    database, the signer and the engine do their part. The database stays well typed.
  \<^item> The surface. Only a request with a usable key, scope, quota and verified domain stores a
    message; refusals do not tell why; an unsubscribed address gets no mail accepted later; the
    console changes or shows nothing without a session and its token; a configuration that loads
    is safe, and under it recipients are encrypted at rest; server and worker agree on their keys.
    The server process from its start to its end is a run of program_step, and what requests do is a
    run of the delivery system (\<open>requests_refine_the_queue\<close> below).
  \<^item> Outgoing requests. The guarded client never connects to a blocked address, on any redirect;
    IsBlocked is characterised on all addresses; a signature that verifies binds URL, body and time.
  \<^item> Formats. No header injection through Build; bodies are quoted-printable and decode to their
    text; Render computes the substitution of its
    specification and agrees with Tags; tokens, keys, passwords and signatures round-trip; the
    bounce classifier suppresses exactly in the cases listed.
  \<^item> Limits of the code, as theorems: a message or webhook delivery held by a process that died is
    not taken again, a suspended domain is not checked again, the engine's errors never suppress.

  \<^bold>\<open>Bounds and fuel.\<close> Only \<open>client_do\<close> has fuel; \<open>guarded_do\<close> gives it one more than the redirects
  allowed and \<open>client_do_fuel\<close> shows that more changes nothing. All other loops are structural or have
  a termination proof. Durations and instants are integers of nanoseconds; the arithmetic of
  time.Duration on a number of days given on the command line wraps at 64 bits (\<open>wrap64\<close>).

  \<^bold>\<open>Granularity.\<close> A store operation is a sequence of statements, and one statement or transaction is
  atomic. The work of the worker between its statements is cut where a crash can fall: a claim,
  the delivery of one claimed message, or its loss. An HTTP request is one step; the background
  call of recordKeyUse is a step of its own.

  \<^bold>\<open>Not modelled.\<close> Log lines other than the request log, timeouts and other settings of the HTTP
  clients, the layout of what the commands print, the HTML templates of the console and the delay
  at login. Signals, timers and what happens during a pause are inputs of the loops and of the
  server (poll, listening); the drivers of the database are the record database_lib, and the schema
  is at its last version throughout. dkim.Verify and VerifyWith only call the library. Functions
  kept for tests only have no model.
\<close>

section \<open>The whole program\<close>

text \<open>
  The delivery theorems speak of the runs of \<open>sys_step\<close>. What the other processes do to the store
  are steps of that system: a request to the server, the background call that records the use of
  a key, a tick of the webhook dispatcher or of the domain checker.
\<close>

definition with_store :: "store \<Rightarrow> world \<Rightarrow> world" where
  "with_store s w = w\<lparr>wd_store := s\<rparr>"

lemma with_store_sel [simp]:
  "wd_store (with_store s w) = s" "with_store s' (with_store s w) = with_store s' w"
  by (simp_all add: with_store_def)

lemma beside_run:
  assumes "store_quiet s s'"
  shows "sys_run L cfg (with_store s w, fl) (with_store s' w, fl)"
proof -
  have "sys_step L cfg (with_store s w, fl) ((with_store s w)\<lparr>wd_store := s'\<rparr>, fl)"
    by (rule sys_step.beside) (simp add: assms)
  then show ?thesis unfolding sys_run_def by (simp add: with_store_def r_into_rtranclp)
qed

lemma same_tables_quiet: "same_tables s s' \<Longrightarrow> store_quiet s s'"
  by (auto simp: same_tables_def intro!: store_quietI)

lemma accept_run:
  assumes "EnqueueMessage L rand m s = (res, s')"
  shows "sys_run L cfg (with_store s w, fl) (with_store s' w, fl)"
proof -
  have "sys_step L cfg (with_store s w, fl) (snd (on_store (EnqueueMessage L rand m) (with_store s w)), fl)"
    by (rule sys_step.accept)
  moreover have "snd (on_store (EnqueueMessage L rand m) (with_store s w)) = with_store s' w"
    using assms by (simp add: on_store_def with_store_def)
  ultimately show ?thesis unfolding sys_run_def by (simp add: r_into_rtranclp)
qed

lemma sys_run_trans: "sys_run L cfg a b \<Longrightarrow> sys_run L cfg b c \<Longrightarrow> sys_run L cfg a c"
  unfolding sys_run_def by (rule rtranclp_trans)

text \<open>Calls beside the queue leave its rows alone.\<close>

lemma delivery_ops_quiet:
  "store_quiet s (snd (ClaimDeliveries limit d s))" "store_quiet s (snd (MarkDeliverySucceeded i s))"
  "store_quiet s (snd (RescheduleDelivery i at' reason s))" "store_quiet s (snd (MarkDeliveryFailed i reason s))"
  unfolding ClaimDeliveries_def MarkDeliverySucceeded_def RescheduleDelivery_def MarkDeliveryFailed_def
  by (rule run_wrapped_rel,
      auto simp: claim_deliveries_update_def Let_def stmt_update_def set_delivery_def intro!: store_quietI)+

lemma key_ops_quiet:
  "store_quiet s (snd (CreateAPIKey new s))" "store_quiet s (snd (TouchAPIKey i ip s))"
  "store_quiet s (snd (RevokeAPIKey i s))" "store_quiet s (snd (Unsuppress L x s))"
proof -
  show "store_quiet s (snd (CreateAPIKey new s))" "store_quiet s (snd (TouchAPIKey i ip s))"
    "store_quiet s (snd (Unsuppress L x s))"
    unfolding CreateAPIKey_def TouchAPIKey_def Unsuppress_def
    by (rule run_wrapped_rel,
        auto simp: insert_key_def touch_key_def stmt_update_def nextval_def Let_def intro!: store_quietI
          split: addr.splits if_splits)+
  have "store_quiet s (snd (run_wrapped ''revoking key'' [] (revoke_update i) s))"
    by (rule run_wrapped_rel) (auto simp: revoke_update_def Let_def intro!: store_quietI)
  then show "store_quiet s (snd (RevokeAPIKey i s))"
    unfolding RevokeAPIKey_def by (auto split: prod.splits sum.splits)
qed

lemma domain_ops_quiet:
  "store_quiet s (snd (MarkDomainVerified i s))" "store_quiet s (snd (SuspendDomain i s))"
  "store_quiet s (snd (TouchDomainCheck i s))" "store_quiet s (snd (exec [name, token] (upsert_domain name token) s))"
  "store_quiet s (snd (CreateEndpoint url secret s))" "store_quiet s (snd (CreateSigningKey i sel alg wrapped rec s))"
proof -
  show "store_quiet s (snd (MarkDomainVerified i s))" "store_quiet s (snd (SuspendDomain i s))"
    "store_quiet s (snd (TouchDomainCheck i s))" "store_quiet s (snd (CreateEndpoint url secret s))"
    "store_quiet s (snd (CreateSigningKey i sel alg wrapped rec s))"
    unfolding MarkDomainVerified_def SuspendDomain_def TouchDomainCheck_def CreateEndpoint_def CreateSigningKey_def
    by (rule run_wrapped_rel,
        auto simp: stmt_update_def set_domain_def insert_endpoint_def insert_signing_key_def nextval_def Let_def
          intro!: store_quietI split: if_splits)+
  show "store_quiet s (snd (exec [name, token] (upsert_domain name token) s))"
    by (rule exec_cases [of "[name, token]" "upsert_domain name token" s])
       (auto simp: upsert_domain_def nextval_def Let_def intro!: store_quietI split: option.splits)
qed

lemma store_quiet_trans: "store_quiet s t \<Longrightarrow> store_quiet t u \<Longrightarrow> store_quiet s u"
  by (simp add: store_quiet_def)

interpretation beside: side_relation L store_quiet for L
  by unfold_locales
     (auto intro: same_tables_quiet store_quiet_trans
       simp: Suppress_store_quiet delivery_ops_quiet key_ops_quiet domain_ops_quiet)

text \<open>The loops, as long as what happens in their pauses leaves the queue alone.\<close>

lemma dispatcher_Run_quiet:
  assumes "\<forall>p \<in> set ps. \<forall>w. store_quiet (hw_store w) (hw_store (pl_pause p w))"
    and "dispatcher_Run (store_dispatcher L) ps w = (stopped, waits, w')"
  shows "store_quiet (hw_store w) (hw_store w')"
  using assms
proof (induction ps arbitrary: w stopped waits)
  case (Cons p ps)
  obtain r x where t: "dispatcher_tick (store_dispatcher L) w = (r, x)" by fastforce
  then have x: "store_quiet (hw_store w) (hw_store x)" using beside.dispatcher_tick_R [of w L] by simp
  then have y: "store_quiet (hw_store w) (hw_store (pl_pause p x))"
    using Cons.prems(1) by (auto intro: store_quiet_trans)
  show ?case
    using Cons.prems t x store_quiet_trans [OF y Cons.IH] by (auto split: if_splits prod.splits)
qed (simp add: store_quietI)

lemma checker_Run_quiet:
  assumes "\<forall>v \<in> set vs. \<forall>s. store_quiet s (pl_pause (snd v) s)"
    and "checker_Run store_domains vs s = (stopped, waits, s')"
  shows "store_quiet s s'"
  using assms
proof (induction vs arbitrary: s stopped waits)
  case (Cons v vs)
  obtain verify p where v: "v = (verify, p)" by fastforce
  obtain r x where t: "checker_tick store_domains verify s = (r, x)" by fastforce
  then have x: "store_quiet s x" using beside.checker_tick_R [of s verify] by simp
  then have y: "store_quiet s (pl_pause p x)" using Cons.prems(1) by (auto simp: v intro: store_quiet_trans)
  show ?case
    using Cons.prems t x store_quiet_trans [OF y Cons.IH] by (auto simp: v split: if_splits prod.splits)
qed (simp add: store_quietI)

text \<open>A request is a run of the system: what it does beside the queue, and one acceptance.\<close>

interpretation requests: request_relation L
  "\<lambda>s s'. \<forall>w fl. sys_run L cfg (with_store s w, fl) (with_store s' w, fl)" for L cfg
proof unfold_locales
  fix s t u :: store
  assume "\<forall>w fl. sys_run L cfg (with_store s w, fl) (with_store t w, fl)"
    "\<forall>w fl. sys_run L cfg (with_store t w, fl) (with_store u w, fl)"
  then show "\<forall>w fl. sys_run L cfg (with_store s w, fl) (with_store u w, fl)" using sys_run_trans by blast
qed (auto intro: beside_run same_tables_quiet accept_run [OF prod.collapse [symmetric]]
      simp: Suppress_store_quiet delivery_ops_quiet key_ops_quiet domain_ops_quiet)

text \<open>
  C5. Whatever the server is asked, through the API, an unsubscribe link or the console, its effect
  on the store is a run of the system the delivery theorems are about; and every run of that
  system is, on status and attempts of each message, a run of the abstract queue machine: a
  message arrives waiting with no attempt, is taken with one attempt more, and is then sent,
  given up or, while attempts are left, put back.
\<close>

theorem requests_refine_the_queue:
  assumes "fresh_world w0" "sys_run L cfg (w0, []) (w, fl)" "sv_backend srv = store_backend L"
    and "ui = (\<lambda>_. None) \<or> (\<exists>C. ui = console_ui C \<and> co_store C = store_console L collation)"
    and "Handler L A srv ui h r io a = (resp, a')" "ap_db a = wd_store w"
  shows "sys_run L cfg (w0, []) (with_store (ap_db a') w, fl)
     \<and> qstep\<^sup>*\<^sup>* (row_of (wd_store w0)) (row_of (wd_store w)) \<and> qstep\<^sup>*\<^sup>* (row_of (wd_store w)) (row_of (ap_db a'))"
proof -
  have w: "with_store (wd_store w) w = w" by (simp add: with_store_def)
  have r: "sys_run L cfg (w, fl) (with_store (ap_db a') w, fl)"
    using requests.Handler_R [OF assms(3,4,5), of cfg] w by (metis assms(6))
  note f0 = sys_run_flight [OF assms(2) fresh_flight [OF assms(1)]]
  then have "mail_worker.flight_ok fl w" by blast
  from sys_run_flight [OF r this] have "qstep\<^sup>*\<^sup>* (row_of (wd_store w)) (row_of (ap_db a'))"
    by (simp add: world_rows_def)
  with f0 sys_run_trans [OF assms(2) r] show ?thesis by (simp add: world_rows_def)
qed

lemma requests_refine_the_queue_witness:
  "qstep\<^sup>*\<^sup>* (row_of (wd_store (with_store sample_db sample_world))) (row_of (ap_db (snd sample_send)))"
proof -
  have f: "fresh_world (with_store sample_db sample_world)"
    by (simp add: fresh_world_def with_store_def sample_world_def sample_db_def empty_store_def)
  have r: "sys_run sample_lib sample_config (with_store sample_db sample_world, []) (with_store sample_db sample_world, [])"
    by (simp add: sys_run_def)
  have b: "sv_backend sample_server = store_backend sample_lib" by (simp add: sample_server_def new_server_def)
  have h: "Handler sample_lib sample_api_lib sample_server (\<lambda>_. None) [] sample_request sample_inputs sample_api
      = (fst sample_send, snd sample_send)" by (simp add: sample_send_def)
  have "ap_db sample_api = wd_store (with_store sample_db sample_world)" by (simp add: sample_api_def)
  from requests_refine_the_queue [OF f r b disjI1 [OF refl] h this] show ?thesis by blast
qed

end
